(* ===== verification/Prelude.thy ===== *)
theory Prelude
  imports Main "HOL-Library.Word"
begin

text \<open>
  What every component theory shares: the machine types of the 32-bit build, the errors a
  function of the program can end with, the result type and its sequencing, memory reads
  that may run out of bounds, and generic lemmas on lists and words.

  Conventions of the development.
  \<^item> \<open>size_t\<close>, \<open>DWORD\<close> and pointers-as-numbers are 32 bits wide (the DLL is built for
    Win32 only), so they are \<open>32 word\<close> and wrap around.
  \<^item> a C \<open>int\<close> is an \<open>int\<close>; where the code adds two of them the model checks the range and
    ends with \<open>SignedOverflow\<close> (C++ leaves such an overflow undefined).
  \<^item> a thrown exception and an undefined behaviour are both values of \<open>cxx_error\<close>; a function
    that can end with one returns \<open>cxx_error + 'a\<close>.
\<close>

section \<open>Machine types\<close>

type_synonym u8 = "8 word"
type_synonym u16 = "16 word"
type_synonym u32 = "32 word"
type_synonym size_t = "32 word"

named_theorems model_defs \<open>definitions to unfold when a proof follows the code\<close>
named_theorems eval_defs \<open>definitions to unfold when a closed instance is evaluated\<close>

unbundle bit_operations_syntax

section \<open>Errors and results\<close>

datatype cxx_error =
    LengthError                \<comment> \<open>std::length_error\<close>
  | OutOfRange                 \<comment> \<open>std::out_of_range\<close>
  | BadAlloc                   \<comment> \<open>std::bad_alloc\<close>
  | AtlException u32           \<comment> \<open>ATL::CAtlException with its HRESULT\<close>
  | NullDeref                  \<comment> \<open>access through a null pointer\<close>
  | OobRead                    \<comment> \<open>read outside the object\<close>
  | OobWrite                   \<comment> \<open>write outside the object\<close>
  | UseAfterFree               \<comment> \<open>access to a block that is not allocated\<close>
  | UninitRead                 \<comment> \<open>a decision taken on an indeterminate value\<close>
  | SignedOverflow             \<comment> \<open>int arithmetic out of range\<close>

type_synonym 'a res = "cxx_error + 'a"

definition bindR :: "'a res \<Rightarrow> ('a \<Rightarrow> 'b res) \<Rightarrow> 'b res" where
  "bindR m f = (case m of Inl e \<Rightarrow> Inl e | Inr x \<Rightarrow> f x)"

lemma bindR_simps [simp]:
  "bindR (Inl e) f = Inl e"
  "bindR (Inr x) f = f x"
  by (simp_all add: bindR_def)

lemma bindR_eq_Inr: "bindR m f = Inr y \<longleftrightarrow> (\<exists>x. m = Inr x \<and> f x = Inr y)"
  by (cases m) auto

lemma bindR_eq_Inl: "bindR m f = Inl e \<longleftrightarrow> m = Inl e \<or> (\<exists>x. m = Inr x \<and> f x = Inl e)"
  by (cases m) auto

lemma bindR_cong [fundef_cong]:
  "m = m' \<Longrightarrow> (\<And>x. m' = Inr x \<Longrightarrow> f x = f' x) \<Longrightarrow> bindR m f = bindR m' f'"
  by (cases m') auto

definition of_option :: "cxx_error \<Rightarrow> 'a option \<Rightarrow> 'a res" where
  "of_option e v = (case v of None \<Rightarrow> Inl e | Some x \<Rightarrow> Inr x)"

lemma of_option_simps [simp]:
  "of_option e None = Inl e"
  "of_option e (Some x) = Inr x"
  by (simp_all add: of_option_def)

definition i32_ok :: "int \<Rightarrow> bool" where
  "i32_ok x \<longleftrightarrow> - (2 ^ 31) \<le> x \<and> x < 2 ^ 31"

definition add_i32 :: "int \<Rightarrow> int \<Rightarrow> int res" where
  "add_i32 a b = (if i32_ok (a + b) then Inr (a + b) else Inl SignedOverflow)"

section \<open>Reads from a region\<close>

definition rd :: "'a list \<Rightarrow> nat \<Rightarrow> 'a option" where
  "rd xs i = (if i < length xs then Some (xs ! i) else None)"

lemma rd_Some: "i < length xs \<Longrightarrow> rd xs i = Some (xs ! i)"
  by (simp add: rd_def)

lemma rd_None [simp]: "length xs \<le> i \<Longrightarrow> rd xs i = None"
  by (simp add: rd_def)

lemma rd_Cons [simp]:
  "rd [] i = None"
  "rd (x # xs) 0 = Some x"
  "rd (x # xs) (Suc i) = rd xs i"
  "rd (x # xs) (numeral k) = rd xs (pred_numeral k)"
  by (simp_all add: rd_def numeral_eq_Suc)

lemma rd_append_left: "i < length xs \<Longrightarrow> rd (xs @ ys) i = rd xs i"
  by (simp add: rd_def nth_append)

lemma rd_append_right: "length xs \<le> i \<Longrightarrow> rd (xs @ ys) i = rd ys (i - length xs)"
  by (auto simp: rd_def nth_append)

lemma rd_shift [simp]:
  "rd (xs @ ys) (length xs) = rd ys 0"
  "rd (xs @ ys) (Suc (length xs)) = rd ys 1"
  "rd (xs @ ys) (Suc (Suc (length xs))) = rd ys 2"
  "rd (xs @ ys) (length xs + k) = rd ys k"
  by (simp_all add: rd_append_right numeral_2_eq_2)

lemma short_list_cases [case_names 1 2 3 4]:
  obtains "xs = []" | a b c ys where "xs = a # b # c # ys" | a where "xs = [a]" | a b where "xs = [a, b]"
  by (metis list.exhaust)

section \<open>Octets of 32-bit words\<close>

lemma bit_octets:
  assumes "n < 32"
  obtains "n < 8" | k where "n = k + 8" "k < 8" | k where "n = k + 16" "k < 8" | k where "n = k + 24" "k < (8::nat)"
proof -
  from assms consider "n < 8" | "8 \<le> n" "n < 16" | "16 \<le> n" "n < 24" | "24 \<le> n" "n < 32" by linarith
  then show thesis
  proof cases
    case 1 then show ?thesis by (rule that(1))
  next
    case 2 then show ?thesis by (intro that(2) [of "n - 8"]) auto
  next
    case 3 then show ?thesis by (intro that(3) [of "n - 16"]) auto
  next
    case 4 then show ?thesis by (intro that(4) [of "n - 24"]) auto
  qed
qed

lemma le_bytes4:
  fixes x :: u32
  shows "ucast (ucast (x AND 0xFF) :: u8) OR push_bit 8 (ucast (ucast (drop_bit 8 x AND 0xFF) :: u8))
     OR push_bit 16 (ucast (ucast (drop_bit 16 x AND 0xFF) :: u8))
     OR push_bit 24 (ucast (ucast (drop_bit 24 x AND 0xFF) :: u8)) = x" (is "?l = x")
proof (rule bit_word_eqI)
  have m: "(0xFF :: u32) = mask 8" by (simp add: mask_eq_exp_minus_1)
  fix n assume "n < LENGTH(32)"
  then have "n < 32" by simp
  then show "bit ?l n = bit x n"
    unfolding m by (cases rule: bit_octets) (simp_all add: bit_simps add.commute)
qed


lemma unat_u8_of_u32: "unat (ucast (x::u32) :: u8) = unat x mod 256"
  by (simp add: unsigned_ucast_eq take_bit_eq_mod unat_mod)

lemma unat_u32_of_u8: "unat (ucast (x::u8) :: u32) = unat x"
  using unsigned_less [of x, where ?'a = nat]
  by (simp add: unsigned_ucast_eq take_bit_eq_mod unat_mod)

lemma ucast_u8_id: "unat x < 256 \<Longrightarrow> ucast (ucast x :: u8) = (x::u32)"
  by (simp add: word_unat_eq_iff unat_u8_of_u32 unat_u32_of_u8)

lemma u32_high_bits: "unat (x::u32) < 2 ^ m \<Longrightarrow> m \<le> n \<Longrightarrow> \<not> bit x n"
proof -
  assume a: "unat x < 2 ^ m" and b: "m \<le> n"
  have "unat x < 2 ^ n" using a b by (meson less_le_trans one_le_numeral power_increasing)
  then have "\<not> bit (unat x) n" by (simp add: bit_iff_odd)
  then show ?thesis by (simp add: bit_unsigned_iff)
qed

lemma le_bytes2:
  fixes x :: u32
  assumes "unat x < 2 ^ 16"
  shows "ucast (ucast (x AND 0xFF) :: u8) OR push_bit 8 (ucast (ucast (drop_bit 8 x AND 0xFF) :: u8)) = x" (is "?l = x")
proof (rule bit_word_eqI)
  have m: "(0xFF :: u32) = mask 8" by (simp add: mask_eq_exp_minus_1)
  have hi: "\<not> bit x (k + 16)" "\<not> bit x (k + 24)" for k
    using u32_high_bits [of x 16] assms by simp_all
  fix n assume "n < LENGTH(32)"
  then have "n < 32" by simp
  then show "bit ?l n = bit x n"
    unfolding m by (cases rule: bit_octets) (simp_all add: bit_simps add.commute hi)
qed


section \<open>Naturals as 32-bit words\<close>

lemma unat_u32_of_nat: "n < 2 ^ 32 \<Longrightarrow> unat (word_of_nat n :: u32) = n"
  by (simp add: unat_of_nat take_bit_eq_mod)

lemma u32_of_nat_le_iff:
  "m < 2 ^ 32 \<Longrightarrow> n < 2 ^ 32 \<Longrightarrow> (word_of_nat m :: u32) \<le> word_of_nat n \<longleftrightarrow> m \<le> n"
  by (simp add: word_le_nat_alt unat_u32_of_nat)

lemma u32_of_nat_less_iff:
  "m < 2 ^ 32 \<Longrightarrow> n < 2 ^ 32 \<Longrightarrow> (word_of_nat m :: u32) < word_of_nat n \<longleftrightarrow> m < n"
  by (simp add: word_less_nat_alt unat_u32_of_nat)

lemma u32_of_nat_eq_iff:
  "m < 2 ^ 32 \<Longrightarrow> n < 2 ^ 32 \<Longrightarrow> (word_of_nat m :: u32) = word_of_nat n \<longleftrightarrow> m = n"
  by (simp add: word_unat_eq_iff unat_u32_of_nat)

lemma unat_u32_less: "unat (x :: u32) < 2 ^ 32"
  using unsigned_less [of x, where ?'a = nat] by simp

lemma unat_u32_add: "unat ((a :: u32) + b) = (unat a + unat b) mod 2 ^ 32"
  by (simp add: unat_word_ariths)

lemma unat_u32_add_small: "unat a + unat b < 2 ^ 32 \<Longrightarrow> unat ((a :: u32) + b) = unat a + unat b"
  by (simp add: unat_u32_add)

lemma sint_u32_of_nat: "n < 2 ^ 31 \<Longrightarrow> sint (word_of_nat n :: u32) = int n"
proof -
  assume n: "n < 2 ^ 31"
  then have "uint (word_of_nat n :: u32) = int n" by (simp add: uint_nat unat_u32_of_nat)
  with n show ?thesis by (simp add: sint_uint signed_take_bit_int_eq_self)
qed

lemmas u32_nat = unat_u32_of_nat u32_of_nat_le_iff u32_of_nat_less_iff u32_of_nat_eq_iff

text \<open>A check over all bytes is one of 256 values.\<close>

lemma all_u8: "list_all P (map word_of_nat [0..<256]) \<Longrightarrow> P c" for c :: u8
proof -
  assume all: "list_all P (map word_of_nat [0..<256])"
  have "unat c < 256" using unsigned_less [of c] by simp
  then have "word_of_nat (unat c) \<in> set (map word_of_nat [0..<256] :: u8 list)"
    by (auto intro!: image_eqI [of _ _ "unat c"])
  then have "c \<in> set (map word_of_nat [0..<256] :: u8 list)" by simp
  then show ?thesis using all by (simp only: list_all_iff)
qed

end
