(* ===== verification/Runs.thy ===== *)
theory Runs
  imports Prelude
begin

text \<open>
  Runs: an operation asked for again and again, on the state the one before left. Two interfaces of an operation are
  stated here once for all components. \<open>steady\<close>: whatever fits is done without an error and keeps an invariant.
  \<open>reporting\<close>: besides, each operation adds its output to what the state holds; \<open>moved s s' ws\<close> says that
  \<open>s'\<close> is \<open>s\<close> with the outputs \<open>ws\<close> added, whatever that means for the component.
\<close>

primrec run_all :: "('op \<Rightarrow> 's \<Rightarrow> 's res) \<Rightarrow> 'op list \<Rightarrow> 's \<Rightarrow> 's res" where
  "run_all f [] s = Inr s"
| "run_all f (x # xs) s = bindR (f x s) (run_all f xs)"

lemma run_all_append: "run_all f (xs @ ys) s = bindR (run_all f xs s) (run_all f ys)"
proof (induction xs arbitrary: s)
  case (Cons x xs)
  then show ?case by (cases "f x s") simp_all
qed simp

text \<open>A relation that holds of every step that returns, and of no step at all, and composes, holds of every run.\<close>

lemma run_all_related:
  assumes "\<And>x s s'. f x s = Inr s' \<Longrightarrow> R s s'" "\<And>s. R s s" "\<And>s t u. R s t \<Longrightarrow> R t u \<Longrightarrow> R s u"
  shows "run_all f xs s = Inr s' \<Longrightarrow> R s s'"
proof (induction xs arbitrary: s)
  case Nil
  then show ?case using assms(2) by simp
next
  case (Cons x xs)
  then obtain t where "f x s = Inr t" "run_all f xs t = Inr s'" by (auto simp: bindR_eq_Inr)
  then show ?case using assms(1,3) Cons.IH by blast
qed

locale steady =
  fixes step :: "'op \<Rightarrow> 's \<Rightarrow> 's res"
    and fits :: "'op \<Rightarrow> bool"
    and ok :: "'s \<Rightarrow> bool"
  assumes keeps: "ok s \<Longrightarrow> fits x \<Longrightarrow> \<exists>s'. step x s = Inr s' \<and> ok s'"
begin

lemma run_keeps: "ok s \<Longrightarrow> \<forall>x \<in> set xs. fits x \<Longrightarrow> \<exists>s'. run_all step xs s = Inr s' \<and> ok s'"
proof (induction xs arbitrary: s)
  case (Cons x xs)
  then obtain t where "step x s = Inr t" "ok t" using keeps by fastforce
  then show ?case using Cons by simp
qed simp

text \<open>Wherever a run is cut, the first part has succeeded and the second goes on from its state.\<close>

lemma run_split:
  assumes "ok s" "\<forall>x \<in> set (xs @ ys). fits x"
  obtains t u where "run_all step xs s = Inr t" "ok t" "run_all step ys t = Inr u" "run_all step (xs @ ys) s = Inr u" "ok u"
proof -
  obtain t where t: "run_all step xs s = Inr t" "ok t" using run_keeps [OF assms(1)] assms(2) by auto
  obtain u where u: "run_all step ys t = Inr u" "ok u" using run_keeps [OF t(2)] assms(2) by auto
  show thesis using that [OF t u(1) _ u(2)] t(1) u(1) by (simp add: run_all_append)
qed

end

locale reporting = steady +
  fixes moved :: "'s \<Rightarrow> 's \<Rightarrow> 'w list \<Rightarrow> bool"
    and says :: "'op \<Rightarrow> 'w list"
  assumes moves: "ok s \<Longrightarrow> fits x \<Longrightarrow> step x s = Inr s' \<Longrightarrow> moved s s' (says x)"
    and moved_none: "moved s s []"
    and moved_trans: "moved s t ws \<Longrightarrow> moved t u vs \<Longrightarrow> moved s u (ws @ vs)"
begin

lemma run_reports:
  "ok s \<Longrightarrow> \<forall>x \<in> set xs. fits x \<Longrightarrow>
   \<exists>s'. run_all step xs s = Inr s' \<and> ok s' \<and> moved s s' (concat (map says xs))"
proof (induction xs arbitrary: s)
  case Nil
  then show ?case by (simp add: moved_none)
next
  case (Cons x xs)
  then obtain t where t: "step x s = Inr t" "ok t" using keeps by fastforce
  moreover have "moved s t (says x)" using moves [OF Cons.prems(1) _ t(1)] Cons.prems(2) by simp
  moreover obtain u where "run_all step xs t = Inr u" "ok u" "moved t u (concat (map says xs))"
    using Cons.IH [OF t(2)] Cons.prems(2) by auto
  ultimately show ?case using moved_trans by (intro exI [of _ u]) simp
qed

end

end
