(* ===== verification/Frame.thy ===== *)
theory Frame
  imports Prelude
begin

text \<open>
  The Proud TCP wire format: \<open>include/game/net/proud_frame.hpp\<close> (the encoder),
  \<open>include/game/net/proud_message.hpp\<close> (the summary of a payload) and
  \<open>include/game/net/proud_frame_parse.hpp\<close> (the scanner of a raw chunk). A frame is the
  magic bytes 13 57, a tag byte (the width of the length field), the length in little-endian
  order and the payload.

  \<open>size_t\<close> is 32 bits wide in this build, and every sum the code forms wraps around; the
  scanner's bounds checks are modelled on the wrapped values. A read outside the chunk is
  the result \<open>Scan_Fault\<close>. The scanner's loop is written with fuel; \<open>scan_fuel\<close> is
  enough for every chunk shorter than the address space (\<open>scan_frames_terminates\<close>).
\<close>

section \<open>The encoder\<close>

definition encode_length :: "size_t \<Rightarrow> u8 list" where
  "encode_length len =
     (if len + 128 \<le> 0xFF then [1, ucast len]
      else if len + 0x8000 \<le> 0xFFFF then
        [2, ucast (len AND 0xFF), ucast (drop_bit 8 len AND 0xFF)]
      else
        [4, ucast (len AND 0xFF), ucast (drop_bit 8 len AND 0xFF),
         ucast (drop_bit 16 len AND 0xFF), ucast (drop_bit 24 len AND 0xFF)])"

definition wrap :: "u8 list \<Rightarrow> u8 list" where
  "wrap payload = [0x13, 0x57] @ encode_length (word_of_nat (length payload)) @ payload"

section \<open>The summary of a payload\<close>

definition kOpMessage :: u8 where "kOpMessage = 0x02"

record summary =
  opcode :: u8
  rmi_id :: u16
  has_rmi :: bool
  body_len :: size_t

definition empty_summary :: summary where
  "empty_summary = \<lparr>opcode = 0, rmi_id = 0, has_rmi = False, body_len = 0\<rparr>"

text \<open>\<open>data\<close> is the region that starts at the payload; \<open>None\<close> is a read outside it.\<close>

definition summarize_payload :: "u8 list option \<Rightarrow> size_t \<Rightarrow> summary option" where
  "summarize_payload data len =
     (case data of
        None \<Rightarrow> Some empty_summary
      | Some bytes \<Rightarrow>
          if len = 0 then Some empty_summary
          else (case rd bytes 0 of
              None \<Rightarrow> None
            | Some op \<Rightarrow>
                if op = kOpMessage \<and> 3 \<le> len then
                  (case (rd bytes 1, rd bytes 2) of
                     (Some b1, Some b2) \<Rightarrow>
                       Some \<lparr>opcode = op, rmi_id = ucast b1 OR push_bit 8 (ucast b2),
                             has_rmi = True, body_len = len - 3\<rparr>
                   | _ \<Rightarrow> None)
                else Some \<lparr>opcode = op, rmi_id = 0, has_rmi = False, body_len = len - 1\<rparr>))"

section \<open>The scanner\<close>

definition read_length_le :: "u8 list \<Rightarrow> u8 \<Rightarrow> size_t option" where
  "read_length_le p width =
     (if width = 1 then map_option ucast (rd p 0)
      else if width = 2 then
        (case (rd p 0, rd p 1) of
           (Some b0, Some b1) \<Rightarrow> Some (ucast b0 OR push_bit 8 (ucast b1))
         | _ \<Rightarrow> None)
      else
        (case (rd p 0, rd p 1, rd p 2, rd p 3) of
           (Some b0, Some b1, Some b2, Some b3) \<Rightarrow>
             Some (ucast b0 OR push_bit 8 (ucast b1) OR push_bit 16 (ucast b2)
                   OR push_bit 24 (ucast b3))
         | _ \<Rightarrow> None))"

record parsed_frame =
  wire_bytes :: size_t
  payload_len :: size_t
  inner :: summary

datatype scan_result =
    Scan_Done "parsed_frame list"   \<comment> \<open>the first \<open>count\<close> slots of the output array\<close>
  | Scan_Fault                      \<comment> \<open>a byte outside the chunk was read\<close>
  | Scan_Running                    \<comment> \<open>the fuel ran out\<close>

text \<open>
  One iteration of the loop, from the loop test to the next one. \<open>data\<close> is the chunk in
  memory, \<open>off\<close>, \<open>len\<close> and the sums formed from them are machine words.
\<close>

datatype scan_next =
    Next_Stop
  | Next_Fault
  | Next_Skip size_t
  | Next_Frame size_t parsed_frame

definition scan_step :: "u8 list \<Rightarrow> size_t \<Rightarrow> size_t \<Rightarrow> size_t \<Rightarrow> size_t \<Rightarrow> scan_next" where
  "scan_step data len out_cap off count =
     (if \<not> (off + 3 \<le> len \<and> count < out_cap) then Next_Stop
      else (case rd data (unat off) of
        None \<Rightarrow> Next_Fault
      | Some m0 \<Rightarrow> if m0 \<noteq> 0x13 then Next_Skip (off + 1) else
      (case rd data (unat (off + 1)) of
        None \<Rightarrow> Next_Fault
      | Some m1 \<Rightarrow> if m1 \<noteq> 0x57 then Next_Skip (off + 1) else
      (case rd data (unat (off + 2)) of
        None \<Rightarrow> Next_Fault
      | Some len_tag \<Rightarrow>
        if len_tag \<noteq> 1 \<and> len_tag \<noteq> 2 \<and> len_tag \<noteq> 4 then Next_Skip (off + 1)
        else if off + (3 + ucast len_tag) > len then Next_Stop else
      (case read_length_le (drop (unat (off + 3)) data) len_tag of
        None \<Rightarrow> Next_Fault
      | Some plen \<Rightarrow>
        if off + (2 + 1 + ucast len_tag + plen) > len then Next_Stop else
      (case summarize_payload (Some (drop (unat (off + (3 + ucast len_tag))) data)) plen of
        None \<Rightarrow> Next_Fault
      | Some s \<Rightarrow> Next_Frame (off + (2 + 1 + ucast len_tag + plen))
          \<lparr>wire_bytes = 2 + 1 + ucast len_tag + plen, payload_len = plen, inner = s\<rparr>))))))"

fun scan_loop :: "nat \<Rightarrow> u8 list \<Rightarrow> size_t \<Rightarrow> size_t \<Rightarrow> size_t \<Rightarrow> size_t \<Rightarrow> scan_result" where
  "scan_loop 0 data len out_cap off count = Scan_Running"
| "scan_loop (Suc fuel) data len out_cap off count =
     (case scan_step data len out_cap off count of
        Next_Stop \<Rightarrow> Scan_Done []
      | Next_Fault \<Rightarrow> Scan_Fault
      | Next_Skip off' \<Rightarrow> scan_loop fuel data len out_cap off' count
      | Next_Frame off' f \<Rightarrow>
          (case scan_loop fuel data len out_cap off' (count + 1) of
             Scan_Done fs \<Rightarrow> Scan_Done (f # fs)
           | r \<Rightarrow> r))"

definition scan_fuel :: "size_t \<Rightarrow> size_t \<Rightarrow> nat" where
  "scan_fuel len out_cap = (unat out_cap + 1) * (unat len + 1)"

definition scan_frames :: "u8 list option \<Rightarrow> size_t \<Rightarrow> bool \<Rightarrow> size_t \<Rightarrow> scan_result" where
  "scan_frames data len out_nonnull out_cap =
     (case data of
        None \<Rightarrow> Scan_Done []
      | Some bytes \<Rightarrow>
          if \<not> out_nonnull \<or> out_cap = 0 then Scan_Done []
          else scan_loop (scan_fuel len out_cap) bytes len out_cap 0 0)"

definition trailing_unparsed :: "u8 list option \<Rightarrow> size_t \<Rightarrow> size_t \<Rightarrow> size_t" where
  "trailing_unparsed data len parsed_wire_bytes =
     (if data = None \<or> parsed_wire_bytes \<ge> len then 0 else len - parsed_wire_bytes)"

text \<open>The caller's running total of the frames' wire bytes (\<open>TcpTrace::log_chunk\<close>).\<close>

definition parsed_wire :: "parsed_frame list \<Rightarrow> size_t" where
  "parsed_wire fs = sum_list (map wire_bytes fs)"

section \<open>The length field\<close>

lemma encode_length_tag1:
  "unat len < 128 \<Longrightarrow> encode_length len = [1, ucast len]"
  by (simp add: encode_length_def word_le_nat_alt unat_u32_add)

lemma encode_length_tag2:
  "128 \<le> unat len \<Longrightarrow> unat len < 0x8000 \<Longrightarrow>
   encode_length len = [2, ucast (len AND 0xFF), ucast (drop_bit 8 len AND 0xFF)]"
  by (simp add: encode_length_def word_le_nat_alt unat_u32_add)

lemma encode_length_tag4:
  "0x8000 \<le> unat len \<Longrightarrow> unat len < 2 ^ 32 - 0x8000 \<Longrightarrow>
   encode_length len =
     [4, ucast (len AND 0xFF), ucast (drop_bit 8 len AND 0xFF),
      ucast (drop_bit 16 len AND 0xFF), ucast (drop_bit 24 len AND 0xFF)]"
  by (simp add: encode_length_def word_le_nat_alt unat_u32_add)

lemma encode_length_shape:
  assumes "unat len < 2 ^ 32 - 0x8000"
  obtains tag fld where "encode_length len = tag # fld" "tag = 1 \<or> tag = 2 \<or> tag = 4"
    "unat tag = length fld" "\<forall>rest. read_length_le (fld @ rest) tag = Some len"
proof -
  consider "unat len < 128" | "128 \<le> unat len" "unat len < 0x8000" | "0x8000 \<le> unat len"
    by linarith
  then show thesis
  proof cases
    case 1
    then show ?thesis
      by (intro that [of 1 "[ucast len]"])
        (simp_all add: encode_length_tag1 read_length_le_def ucast_u8_id)
  next
    case 2
    then show ?thesis
      by (intro that [of 2 "[ucast (len AND 0xFF), ucast (drop_bit 8 len AND 0xFF)]"])
        (simp_all add: encode_length_tag2 read_length_le_def le_bytes2)
  next
    case 3
    with assms show ?thesis
      by (intro that [of 4 "[ucast (len AND 0xFF), ucast (drop_bit 8 len AND 0xFF),
             ucast (drop_bit 16 len AND 0xFF), ucast (drop_bit 24 len AND 0xFF)]"])
        (simp_all add: encode_length_tag4 read_length_le_def le_bytes4)
  qed
qed

text \<open>What a reader of the field gets back.\<close>

definition decode_length :: "u8 list \<Rightarrow> size_t option" where
  "decode_length bs = (case bs of [] \<Rightarrow> None | tag # fld \<Rightarrow> read_length_le fld tag)"

lemma decode_encode_length:
  "unat len < 2 ^ 32 - 0x8000 \<Longrightarrow> decode_length (encode_length len @ rest) = Some len"
  by (erule encode_length_shape) (simp add: decode_length_def)

lemma decode_encode_length_wrapped:
  assumes "2 ^ 32 - 0x8000 \<le> unat len"
  shows "decode_length (encode_length len @ rest) \<noteq> Some len"
proof -
  have b: "unat len < 2 ^ 32" by (rule unat_u32_less)
  show ?thesis
  proof (cases "2 ^ 32 - 128 \<le> unat len")
    case True
    then have "len + 128 \<le> 0xFF"
      using b by (simp add: word_le_nat_alt unat_u32_add mod_if) arith
    then have "decode_length (encode_length len @ rest) = Some (ucast (ucast len :: u8))"
      by (simp add: encode_length_def decode_length_def read_length_le_def)
    moreover have "unat (ucast (ucast len :: u8) :: u32) < 256"
      by (simp add: unat_u32_of_u8 unat_u8_of_u32)
    ultimately show ?thesis using True by auto
  next
    case False
    then have "\<not> len + 128 \<le> 0xFF" "len + 0x8000 \<le> 0xFFFF"
      using b assms by (simp_all add: word_le_nat_alt unat_u32_add mod_if) arith
    then have d: "decode_length (encode_length len @ rest)
        = Some (ucast (ucast (len AND 0xFF) :: u8) OR push_bit 8 (ucast (ucast (drop_bit 8 len AND 0xFF) :: u8)))"
      (is "_ = Some ?r")
      by (simp add: encode_length_def decode_length_def read_length_le_def)
    have "\<not> bit ?r 31" by (simp add: bit_simps)
    moreover have "bit len 31"
    proof -
      have "unat len div 2 ^ 31 = 1" using assms b by (intro div_nat_eqI) simp_all
      then have "bit (unat len) 31" by (simp add: bit_iff_odd)
      then show ?thesis by (simp add: bit_unsigned_iff)
    qed
    ultimately show ?thesis using d by auto
  qed
qed

section \<open>One frame at the scanner's offset\<close>

fun payload_summary :: "u8 list \<Rightarrow> summary" where
  "payload_summary [] = empty_summary"
| "payload_summary (op # b1 # b2 # body) =
     (if op = 0x02 then \<lparr>opcode = op, rmi_id = ucast b1 OR push_bit 8 (ucast b2), has_rmi = True,
                         body_len = word_of_nat (length body)\<rparr>
      else \<lparr>opcode = op, rmi_id = 0, has_rmi = False, body_len = word_of_nat (length body + 2)\<rparr>)"
| "payload_summary (op # body) =
     \<lparr>opcode = op, rmi_id = 0, has_rmi = False, body_len = word_of_nat (length body)\<rparr>"

lemma summarize_payload_spec:
  assumes "length p < 2 ^ 32"
  shows "summarize_payload (Some (p @ rest)) (word_of_nat (length p)) = Some (payload_summary p)"
proof (cases p rule: short_list_cases)
  case 1
  then show ?thesis by (simp add: summarize_payload_def)
next
  case (2 op b1 b2 body)
  with assms have l: "length body + 3 < 2 ^ 32" by simp
  have "(word_of_nat (length p) :: u32) = word_of_nat (length body + 3)" using 2 by (simp add: eval_nat_numeral)
  moreover have "3 + (word_of_nat (length body) :: u32) \<noteq> 0" "3 \<le> 3 + (word_of_nat (length body) :: u32)"
    using l u32_of_nat_eq_iff [of "3 + length body" 0] u32_of_nat_le_iff [of 3 "3 + length body"] by simp_all
  ultimately show ?thesis using 2
    by (simp add: summarize_payload_def kOpMessage_def)
next
  case (3 op)
  then show ?thesis by (simp add: summarize_payload_def word_le_nat_alt kOpMessage_def)
next
  case (4 op b)
  then show ?thesis by (simp add: summarize_payload_def word_le_nat_alt kOpMessage_def)
qed

definition frame_of :: "u8 list \<Rightarrow> parsed_frame" where
  "frame_of p = \<lparr>wire_bytes = word_of_nat (length (wrap p)), payload_len = word_of_nat (length p),
                 inner = payload_summary p\<rparr>"

definition wrappable :: "u8 list \<Rightarrow> bool" where
  "wrappable p \<longleftrightarrow> length p < 2 ^ 32 - 0x8000"

lemma wrap_shape:
  assumes "wrappable p"
  obtains tag fld where "wrap p = 0x13 # 0x57 # tag # fld @ p" "tag = 1 \<or> tag = 2 \<or> tag = 4"
    "unat tag = length fld" "length (wrap p) = 3 + length fld + length p"
    "\<forall>rest. read_length_le (fld @ rest) tag = Some (word_of_nat (length p))"
proof -
  have "unat (word_of_nat (length p) :: u32) < 2 ^ 32 - 0x8000"
    using assms by (simp add: wrappable_def unat_u32_of_nat)
  then obtain tag fld where "encode_length (word_of_nat (length p)) = tag # fld"
    "tag = 1 \<or> tag = 2 \<or> tag = 4" "unat tag = length fld"
    "\<forall>rest. read_length_le (fld @ rest) tag = Some (word_of_nat (length p))"
    by (rule encode_length_shape)
  then show thesis by (intro that [of tag fld]) (auto simp: wrap_def)
qed

lemma length_wrap_ge: "wrappable p \<Longrightarrow> 4 \<le> length (wrap p)"
  by (erule wrap_shape) auto

lemma drop_word_region:
  "n = length pre \<Longrightarrow> n < 2 ^ 32 \<Longrightarrow> drop (unat (word_of_nat n :: u32)) (pre @ xs) = xs"
  by (simp add: unat_u32_of_nat)

text \<open>
  The scanner at the first byte of a frame, with the whole of it in the chunk or only a
  proper prefix of it.
\<close>

text \<open>Offsets of a frame's parts as words and as numbers.\<close>

lemma offset_words:
  fixes off f n :: nat
  shows "(word_of_nat off :: u32) + 1 = word_of_nat (off + 1)" "(word_of_nat off :: u32) + 2 = word_of_nat (off + 2)"
    and "(word_of_nat off :: u32) + 3 = word_of_nat (off + 3)"
    and "(word_of_nat off :: u32) + (3 + word_of_nat f) = word_of_nat (off + (3 + f))"
    and "(word_of_nat off :: u32) + (2 + 1 + word_of_nat f + word_of_nat n) = word_of_nat (off + (3 + f + n))"
  by simp_all

lemma offset_nats:
  assumes "off + 3 < 2 ^ 32"
  shows "unat (word_of_nat off :: u32) = off" "unat (word_of_nat (off + 1) :: u32) = off + 1"
    and "unat (word_of_nat (off + 2) :: u32) = off + 2" "unat (word_of_nat (off + 3) :: u32) = off + 3"
  by (rule unat_u32_of_nat, use assms in simp)+

lemma tag_word: "unat (tag :: u8) = n \<Longrightarrow> (ucast tag :: u32) = word_of_nat n"
proof -
  assume "unat tag = n"
  moreover have "unat tag < 2 ^ 32" using unsigned_less [of tag, where 'a = nat] by simp
  ultimately show ?thesis by (auto simp: word_unat_eq_iff unat_u32_of_u8 unat_u32_of_nat)
qed

lemma scan_step_frame:
  assumes ok: "wrappable p" and len: "length (pre @ wrap p @ rest) < 2 ^ 32" and c: "count < out_cap"
  shows "scan_step (pre @ wrap p @ rest) (word_of_nat (length (pre @ wrap p @ rest))) out_cap
      (word_of_nat (length pre)) count
    = Next_Frame (word_of_nat (length (pre @ wrap p))) (frame_of p)"
proof -
  from ok obtain tag fld where w: "wrap p = 0x13 # 0x57 # tag # fld @ p"
    and t: "tag = 1 \<or> tag = 2 \<or> tag = 4" and tl: "unat tag = length fld"
    and lw: "length (wrap p) = 3 + length fld + length p"
    and r: "\<forall>rest. read_length_le (fld @ rest) tag = Some (word_of_nat (length p))"
    by (rule wrap_shape)
  define o' where "o' = length pre"
  define L where "L = length (pre @ wrap p @ rest)"
  note tw = tag_word [OF tl]
  have L: "o' + (3 + length fld + length p) \<le> L" "L < 2 ^ 32"
    using len lw by (simp_all add: o'_def L_def)
  have nw': "(2 + 1 + word_of_nat (length fld) + word_of_nat (length p) :: u32) = word_of_nat (length (wrap p))"
    by (simp add: lw)
  have sum: "summarize_payload (Some (p @ rest)) (word_of_nat (length p)) = Some (payload_summary p)"
    by (rule summarize_payload_spec) (use L in simp)
  have dr3: "drop (o' + 3) (pre @ wrap p @ rest) = fld @ p @ rest"
    by (simp add: w o'_def)
  have "drop (o' + (3 + length fld)) (pre @ wrap p @ rest)
      = drop (length fld) (drop (o' + 3) (pre @ wrap p @ rest))"
    by (simp only: drop_drop add.assoc add.commute add.left_commute)
  then have drh: "drop (o' + (3 + length fld)) (pre @ wrap p @ rest) = p @ rest"
    unfolding dr3 by simp
  have b: "rd (pre @ wrap p @ rest) o' = Some 0x13" "rd (pre @ wrap p @ rest) (o' + 1) = Some 0x57"
    "rd (pre @ wrap p @ rest) (o' + 2) = Some tag"
    by (simp_all add: w o'_def)
  have un: "unat (word_of_nat (o' + (3 + length fld)) :: u32) = o' + (3 + length fld)" by (rule unat_u32_of_nat) (use L in simp)
  have o3: "o' + 3 < 2 ^ 32" using L by simp
  have le: "(word_of_nat (o' + 3) :: u32) \<le> word_of_nat L"
    "\<not> (word_of_nat (o' + (3 + length fld)) :: u32) > word_of_nat L"
    "\<not> (word_of_nat (o' + (3 + length fld + length p)) :: u32) > word_of_nat L"
    using L by (simp_all add: u32_of_nat_le_iff u32_of_nat_less_iff del: of_nat_add)
  have res: "(word_of_nat (length (pre @ wrap p)) :: u32) = word_of_nat (o' + (3 + length fld + length p))"
    by (simp add: lw o'_def)
  show ?thesis
    unfolding scan_step_def L_def [symmetric] o'_def [symmetric] offset_words offset_nats [OF o3] un b option.case tw dr3 drh r [rule_format] sum res
    using le c t by (simp add: nw' [simplified] frame_of_def del: of_nat_add of_nat_Suc) 
qed

lemma scan_step_partial:
  assumes ok: "wrappable p" and part: "wrap p = part @ rem" "rem \<noteq> []"
    and len: "length (pre @ wrap p) + 3 < 2 ^ 32"
  shows "scan_step (pre @ part) (word_of_nat (length (pre @ part))) out_cap
      (word_of_nat (length pre)) count = Next_Stop"
proof (cases "length part < 3")
  case True
  have "\<not> (word_of_nat (length pre) :: u32) + 3 \<le> word_of_nat (length (pre @ part))"
    using True len part u32_of_nat_le_iff [of "length pre + 3" "length (pre @ part)"] by simp
  then show ?thesis by (simp add: scan_step_def)
next
  case False
  from ok obtain tag fld where w: "wrap p = 0x13 # 0x57 # tag # fld @ p"
    and t: "tag = 1 \<or> tag = 2 \<or> tag = 4" and tl: "unat tag = length fld"
    and lw: "length (wrap p) = 3 + length fld + length p"
    and r: "\<forall>rest. read_length_le (fld @ rest) tag = Some (word_of_nat (length p))"
    by (rule wrap_shape)
  from False w part obtain part' where p3: "part = 0x13 # 0x57 # tag # part'"
    and p': "fld @ p = part' @ rem"
    by (cases part; cases "tl part"; cases "tl (tl part)") auto
  define o' where "o' = length pre"
  note tw = tag_word [OF tl]
  have lens: "length fld + length p = length part' + length rem" "0 < length rem"
    using arg_cong [OF p', of length] part by simp_all
  have L: "o' + 3 + length part' < 2 ^ 32" "length part' < length fld + length p"
    "o' + (3 + length fld + length p) < 2 ^ 32"
    using len lw lens by (simp_all add: o'_def)
  note un = offset_words offset_nats [OF add_lessD1 [OF L(1)]]
  have b: "rd (pre @ part) o' = Some 0x13" "rd (pre @ part) (o' + 1) = Some 0x57"
    "rd (pre @ part) (o' + 2) = Some tag" "drop (o' + 3) (pre @ part) = part'"
    by (simp_all add: p3 o'_def)
  have lp: "length (pre @ part) = o' + 3 + length part'" by (simp add: o'_def p3)
  have gt: "(word_of_nat (o' + (3 + length fld + length p)) :: u32) > word_of_nat (o' + 3 + length part')"
    using L by (simp add: u32_of_nat_less_iff del: of_nat_add)
  show ?thesis
  proof (cases "length part' < length fld")
    case True
    have "(word_of_nat (o' + (3 + length fld)) :: u32) > word_of_nat (o' + 3 + length part')"
      using L True by (simp add: u32_of_nat_less_iff del: of_nat_add)
    then show ?thesis
      unfolding scan_step_def lp o'_def [symmetric] un b option.case tw
      using t by (auto simp del: of_nat_add of_nat_Suc)
  next
    case False
    with p' obtain q where q: "part' = fld @ q" by (metis append_eq_append_conv_if append_take_drop_id linorder_not_less)
    show ?thesis
      unfolding scan_step_def lp o'_def [symmetric] un b option.case tw
      unfolding q r [rule_format] option.case un
      using t gt by (auto simp add: q simp del: of_nat_add of_nat_Suc)
  qed
qed

section \<open>The loop\<close>

lemma scan_loop_concat:
  assumes "\<forall>p \<in> set ps. wrappable p"
    and tail: "wrappable q" "wrap q = tail @ rem" "rem \<noteq> []"
    and "length (pre @ concat (map wrap ps) @ wrap q) + 3 < 2 ^ 32"
    and "c \<le> unat cap" and "length ps < fuel"
  shows "scan_loop fuel (pre @ concat (map wrap ps) @ tail)
      (word_of_nat (length (pre @ concat (map wrap ps) @ tail))) cap
      (word_of_nat (length pre)) (word_of_nat c)
    = Scan_Done (map frame_of (take (unat cap - c) ps))"
  using assms(1,5-)
proof (induction ps arbitrary: pre c fuel)
  case Nil
  then obtain f where "fuel = Suc f" by (cases fuel) auto
  moreover have "scan_step (pre @ tail) (word_of_nat (length (pre @ tail))) cap
      (word_of_nat (length pre)) (word_of_nat c) = Next_Stop"
    by (rule scan_step_partial [OF tail]) (use Nil in simp)
  ultimately show ?case by (simp del: length_append)
next
  case (Cons p ps)
  from Cons.prems obtain f where f: "fuel = Suc f" "length ps < f" by (cases fuel) auto
  have cl: "c < 2 ^ 32" using Cons.prems(3) unat_u32_less [of cap] by linarith
  have len: "length (pre @ wrap p @ concat (map wrap ps) @ tail) < 2 ^ 32"
    using Cons.prems(2) tail(2) by simp
  show ?case
  proof (cases "c < unat cap")
    case True
    then have "(word_of_nat c :: u32) < cap" using cl by (simp add: word_less_nat_alt unat_u32_of_nat)
    with Cons.prems(1) len have step: "scan_step (pre @ wrap p @ concat (map wrap ps) @ tail)
        (word_of_nat (length (pre @ wrap p @ concat (map wrap ps) @ tail))) cap
        (word_of_nat (length pre)) (word_of_nat c)
      = Next_Frame (word_of_nat (length (pre @ wrap p))) (frame_of p)"
      by (intro scan_step_frame) auto
    have "scan_loop f ((pre @ wrap p) @ concat (map wrap ps) @ tail)
        (word_of_nat (length ((pre @ wrap p) @ concat (map wrap ps) @ tail))) cap
        (word_of_nat (length (pre @ wrap p))) (word_of_nat (Suc c))
      = Scan_Done (map frame_of (take (unat cap - Suc c) ps))"
      by (rule Cons.IH) (use Cons.prems True f in auto)
    moreover have "word_of_nat (Suc c) = (word_of_nat c + 1 :: u32)" by simp
    ultimately show ?thesis
      using step True by (simp add: f take_Cons' del: length_append of_nat_Suc)
  next
    case False
    then have "\<not> (word_of_nat c :: u32) < cap" using cl by (simp add: word_less_nat_alt unat_u32_of_nat)
    with False show ?thesis by (simp add: f scan_step_def)
  qed
qed

lemma wrap_concat_length: "(\<forall>p \<in> set ps. wrappable p) \<Longrightarrow> length ps \<le> length (concat (map wrap ps))"
proof (induction ps)
  case (Cons p ps)
  then show ?case using length_wrap_ge [of p] by simp
qed simp

text \<open>
  The stream a sender produces, possibly cut inside its last frame: the frames before the cut.
\<close>

lemma scan_frames_stream:
  assumes ps: "\<forall>p \<in> set ps. wrappable p"
    and tail: "wrappable q" "wrap q = tail @ rem" "rem \<noteq> []"
    and len: "length (concat (map wrap ps) @ wrap q) + 3 < 2 ^ 32" and cap: "cap \<noteq> 0"
  shows "scan_frames (Some (concat (map wrap ps) @ tail))
      (word_of_nat (length (concat (map wrap ps) @ tail))) True cap
    = Scan_Done (map frame_of (take (unat cap) ps))"
proof -
  let ?L = "length (concat (map wrap ps) @ tail)"
  have L: "?L < 2 ^ 32" using len tail(2) by simp
  have "length ps < unat (word_of_nat ?L :: u32) + 1"
    using wrap_concat_length [OF ps] L by (simp add: unat_u32_of_nat del: of_nat_add)
  also have "\<dots> \<le> scan_fuel (word_of_nat ?L) cap" by (simp add: scan_fuel_def)
  finally have "length ps < scan_fuel (word_of_nat ?L) cap" .
  from scan_loop_concat [where pre = "[]" and c = 0, OF ps tail _ _ this] len cap
  show ?thesis by (simp add: scan_frames_def)
qed

subsection \<open>Termination\<close>

lemma scan_step_skip: "scan_step data len cap off count = Next_Skip off' \<Longrightarrow>
   off' = off + 1 \<and> off + 3 \<le> len \<and> count < cap"
  by (auto simp: scan_step_def Let_def split: if_splits option.splits)

lemma scan_step_frame_bounds: "scan_step data len cap off count = Next_Frame off' f \<Longrightarrow>
   off' \<le> len \<and> count < cap \<and> off' = off + wire_bytes f"
  by (auto simp: scan_step_def Let_def not_less split: if_splits option.splits)

lemma scan_loop_terminates:
  assumes "unat len + 3 < 2 ^ 32" and "off \<le> len"
    and "(unat cap - unat count) * (unat len + 1) + (unat len - unat off) < fuel"
  shows "scan_loop fuel data len cap off count \<noteq> Scan_Running"
  using assms(2,3)
proof (induction fuel arbitrary: off count)
  case (Suc fuel)
  show ?case
  proof (cases "scan_step data len cap off count")
    case (Next_Skip off')
    then have s: "off' = off + 1" "off + 3 \<le> len" "count < cap" by (auto dest: scan_step_skip)
    have o3: "unat (off + 3) = unat off + 3" and o1: "unat (off + 1) = unat off + 1"
      using Suc.prems(1) assms(1) by (simp_all add: unat_u32_add word_le_nat_alt)
    have "scan_loop fuel data len cap off' count \<noteq> Scan_Running"
      by (rule Suc.IH) (use s o1 o3 Suc.prems in \<open>simp_all add: word_le_nat_alt\<close>)
    with Next_Skip show ?thesis by simp
  next
    case (Next_Frame off' f)
    then have s: "off' \<le> len" "count < cap" by (auto dest: scan_step_frame_bounds)
    have c1: "unat (count + 1) = unat count + 1"
      using s(2) unat_u32_less [of cap] by (simp add: unat_u32_add word_less_nat_alt)
    have d: "unat cap - unat count = Suc (unat cap - unat (count + 1))"
      using s(2) c1 by (simp add: word_less_nat_alt)
    have "scan_loop fuel data len cap off' (count + 1) \<noteq> Scan_Running"
      by (rule Suc.IH) (use s Suc.prems(2) d in \<open>simp_all add: word_le_nat_alt\<close>)
    with Next_Frame show ?thesis by (simp split: scan_result.splits)
  qed simp_all
qed simp

section \<open>Bounds\<close>

text \<open>
  The lengths a chunk announces in four bytes, at the positions where a frame header can start:
  none of them makes the end of the frame wrap around the address space.
\<close>

definition header4_at :: "u8 list \<Rightarrow> nat \<Rightarrow> bool" where
  "header4_at data i \<longleftrightarrow> rd data i = Some 0x13 \<and> rd data (i + 1) = Some 0x57 \<and> rd data (i + 2) = Some 4"

definition no_length_wrap :: "u8 list \<Rightarrow> bool" where
  "no_length_wrap data \<longleftrightarrow> (\<forall>i \<in> set [0..<length data]. header4_at data i \<longrightarrow>
     (case read_length_le (drop (i + 3) data) 4 of
        None \<Rightarrow> True | Some plen \<Rightarrow> i + 7 + unat plen < 2 ^ 32))"

lemma read_length_le_avail:
  "unat tag \<le> length xs \<Longrightarrow> tag = 1 \<or> tag = 2 \<or> tag = 4 \<Longrightarrow> \<exists>plen. read_length_le xs tag = Some plen"
  by (auto simp: read_length_le_def rd_def)

lemma read_length_le_small:
  "read_length_le xs tag = Some plen \<Longrightarrow> tag = 1 \<or> tag = 2 \<Longrightarrow> unat plen < 2 ^ 16"
proof -
  assume r: "read_length_le xs tag = Some plen" and t: "tag = 1 \<or> tag = 2"
  have hi: "\<not> bit plen n" if "16 \<le> n" for n
  proof -
    have b8: "\<not> bit (b :: u8) k" if "8 \<le> k" for b k
      using that bit_imp_le_length [of b k] by auto
    have "\<not> bit (b :: u8) n" "\<not> bit (b :: u8) (n - 8)" for b
      using \<open>16 \<le> n\<close> by (simp_all add: b8)
    with r t show ?thesis
      by (auto simp: read_length_le_def bit_simps split: option.splits)
  qed
  have "plen = take_bit 16 plen"
    by (rule bit_word_eqI) (metis bit_take_bit_iff hi not_less)
  then have "unat plen = take_bit 16 (unat plen)" by (metis unsigned_take_bit_eq)
  then have "unat plen = unat plen mod 2 ^ 16" by (simp add: take_bit_eq_mod)
  then show ?thesis by (metis mod_less_divisor zero_less_numeral zero_less_power)
qed

lemma summarize_payload_avail:
  "unat plen \<le> length xs \<Longrightarrow> \<exists>s. summarize_payload (Some xs) plen = Some s"
  by (auto simp: summarize_payload_def rd_def word_le_nat_alt word_unat_eq_iff split: if_splits)

text \<open>Offsets inside the chunk, up to the length field, do not wrap.\<close>

lemma scan_offsets:
  assumes "length data < 2 ^ 31" "len = word_of_nat (length data)" "off \<le> (len :: size_t)"
  shows "unat len = length data" "unat off \<le> length data"
    and "unat (off + 1) = unat off + 1" "unat (off + 2) = unat off + 2" "unat (off + 3) = unat off + 3"
    and "off + 3 \<le> len \<Longrightarrow> unat off + 3 \<le> length data"
    and "tag = 1 \<or> tag = 2 \<or> tag = (4 :: u8) \<Longrightarrow> unat (off + (3 + ucast tag)) = unat off + 3 + unat tag
      \<and> (\<not> off + (3 + ucast tag) > len \<longleftrightarrow> unat off + 3 + unat tag \<le> length data)"
proof -
  show ul: "unat len = length data" using assms by (simp add: unat_u32_of_nat)
  show uo: "unat off \<le> length data" using assms(3) ul by (simp add: word_le_nat_alt)
  show u: "unat (off + 1) = unat off + 1" "unat (off + 2) = unat off + 2" "unat (off + 3) = unat off + 3"
    using uo assms(1) by (simp_all add: unat_u32_add)
  show "off + 3 \<le> len \<Longrightarrow> unat off + 3 \<le> length data" using u ul by (simp add: word_le_nat_alt)
  show "tag = 1 \<or> tag = 2 \<or> tag = (4 :: u8) \<Longrightarrow> unat (off + (3 + ucast tag)) = unat off + 3 + unat tag
      \<and> (\<not> off + (3 + ucast tag) > len \<longleftrightarrow> unat off + 3 + unat tag \<le> length data)"
    using uo assms(1) ul by (auto simp: unat_u32_add word_less_nat_alt)
qed

text \<open>Nor does the end of a frame in a chunk without wrapping lengths.\<close>

lemma frame_end_fits:
  assumes "length data < 2 ^ 31" "no_length_wrap data" "tag = 1 \<or> tag = 2 \<or> tag = (4 :: u8)" "unat off < length data"
    and "rd data (unat off) = Some 0x13" "rd data (unat off + 1) = Some 0x57" "rd data (unat off + 2) = Some tag"
    and "read_length_le (drop (unat off + 3) data) tag = Some plen"
  shows "unat (off + (3 + ucast tag + plen)) = unat off + unat (3 + ucast tag + plen :: size_t)"
    and "unat (3 + ucast tag + plen) = 3 + unat tag + unat plen"
proof -
  have "unat off + 3 + unat tag + unat plen < 2 ^ 32"
  proof (cases "tag = 4")
    case True
    with assms(2,4-8) have "unat off + 7 + unat plen < 2 ^ 32"
      by (auto simp: no_length_wrap_def header4_at_def split: option.splits)
    with True show ?thesis by simp
  next
    case False
    with assms(3) read_length_le_small [OF assms(8)] assms(1,4) show ?thesis by auto
  qed
  then show "unat (off + (3 + ucast tag + plen)) = unat off + unat (3 + ucast tag + plen)"
    "unat (3 + ucast tag + plen) = 3 + unat tag + unat plen"
    using assms(3) by (auto simp: unat_u32_add_small)
qed

text \<open>A header whose length field is there gives a frame inside the chunk or ends the scan.\<close>

lemma scan_step_header:
  assumes L: "length data < 2 ^ 31" and nw: "no_length_wrap data" and len: "len = word_of_nat (length data)" and off: "off \<le> len"
    and go: "off + 3 \<le> len" "count < cap"
    and r: "rd data (unat off) = Some 0x13" "rd data (unat off + 1) = Some 0x57" "rd data (unat off + 2) = Some tag"
    and t: "tag = 1 \<or> tag = 2 \<or> tag = 4" and fld: "\<not> off + (3 + ucast tag) > len"
  obtains (stop) "scan_step data len cap off count = Next_Stop"
  | (frame) plen sm where "scan_step data len cap off count = Next_Frame (off + (3 + ucast tag + plen))
       \<lparr>wire_bytes = 3 + ucast tag + plen, payload_len = plen, inner = sm\<rparr>"
      "unat (off + (3 + ucast tag + plen)) = unat off + unat (3 + ucast tag + plen)"
      "4 \<le> unat (3 + ucast tag + plen)" "off + (3 + ucast tag + plen) \<le> len"
proof -
  note o = scan_offsets [OF L len off]
  have f3: "unat off + 3 + unat tag \<le> length data" using o(7) [OF t] fld by blast
  then have "unat tag \<le> length (drop (unat off + 3) data)" by simp
  then obtain plen where p: "read_length_le (drop (unat off + 3) data) tag = Some plen"
    using read_length_le_avail t by blast
  have w: "unat (off + (3 + ucast tag + plen)) = unat off + unat (3 + ucast tag + plen)"
    "unat (3 + ucast tag + plen) = 3 + unat tag + unat plen"
    using frame_end_fits [OF L nw t _ r p] f3 by auto
  have t1: "1 \<le> unat tag" using t by auto
  show thesis
  proof (cases "off + (3 + ucast tag + plen) > len")
    case True
    then show ?thesis using r go t fld p o(3-5) by (intro stop) (auto simp: scan_step_def)
  next
    case False
    then have "unat off + 3 + unat tag + unat plen \<le> length data" using w o(1) by (simp add: word_less_nat_alt)
    then have "unat plen \<le> length (drop (unat (off + (3 + ucast tag))) data)" using o(7) [OF t] by simp
    then obtain sm where sm: "summarize_payload (Some (drop (unat (off + (3 + ucast tag))) data)) plen = Some sm"
      using summarize_payload_avail by blast
    show ?thesis
      by (rule frame [of plen sm]) (use r go t fld p sm False o(3-5) w t1 in \<open>auto simp: scan_step_def not_less\<close>)
  qed
qed

lemma scan_step_safe:
  assumes L: "length data < 2 ^ 31" and nw: "no_length_wrap data"
    and len: "len = word_of_nat (length data)" and off: "off \<le> len"
  shows "scan_step data len cap off count \<noteq> Next_Fault"
    and "scan_step data len cap off count = Next_Frame off' f
      \<Longrightarrow> unat off' = unat off + unat (wire_bytes f) \<and> 4 \<le> unat (wire_bytes f) \<and> off' \<le> len"
proof -
  note o = scan_offsets [OF L len off]
  have "scan_step data len cap off count \<noteq> Next_Fault
    \<and> (\<forall>off' f. scan_step data len cap off count = Next_Frame off' f
        \<longrightarrow> unat off' = unat off + unat (wire_bytes f) \<and> 4 \<le> unat (wire_bytes f) \<and> off' \<le> len)"
  proof (cases "off + 3 \<le> len \<and> count < cap")
    case False
    then show ?thesis by (auto simp: scan_step_def)
  next
    case True
    then have hd3: "unat off + 3 \<le> length data" by (simp add: o(6))
    define m0 m1 tag where m: "m0 = data ! unat off" "m1 = data ! (unat off + 1)" "tag = data ! (unat off + 2)"
    have r: "rd data (unat off) = Some m0" "rd data (unat off + 1) = Some m1" "rd data (unat off + 2) = Some tag"
      using hd3 by (simp_all add: rd_Some m)
    show ?thesis
    proof (cases "m0 = 0x13 \<and> m1 = 0x57 \<and> (tag = 1 \<or> tag = 2 \<or> tag = 4) \<and> \<not> off + (3 + ucast tag) > len")
      case False
      then show ?thesis using True r o(3-5) by (auto simp: scan_step_def)
    next
      case g: True
      from g r have r': "rd data (unat off) = Some 0x13" "rd data (unat off + 1) = Some 0x57" by simp_all
      show ?thesis
        by (rule scan_step_header [OF L nw len off conjunct1 [OF True] conjunct2 [OF True] r' r(3)]) (use g in auto)
    qed
  qed
  then show "scan_step data len cap off count \<noteq> Next_Fault"
    and "scan_step data len cap off count = Next_Frame off' f
      \<Longrightarrow> unat off' = unat off + unat (wire_bytes f) \<and> 4 \<le> unat (wire_bytes f) \<and> off' \<le> len"
    by blast+
qed

lemma scan_loop_safe:
  assumes L: "length data < 2 ^ 31" and nw: "no_length_wrap data"
    and len: "len = word_of_nat (length data)"
  shows "off \<le> len \<Longrightarrow> count \<le> cap \<Longrightarrow>
    (case scan_loop fuel data len cap off count of
       Scan_Done fs \<Rightarrow> length fs \<le> unat cap - unat count
         \<and> unat off + sum_list (map (unat \<circ> wire_bytes) fs) \<le> length data
     | Scan_Fault \<Rightarrow> False | Scan_Running \<Rightarrow> True)"
proof (induction fuel arbitrary: off count)
  case 0
  then show ?case by simp
next
  case (Suc fuel)
  have ul: "unat len = length data" using L len by (simp add: unat_u32_of_nat)
  note safe = scan_step_safe [OF L nw len Suc.prems(1), where cap = cap and count = count]
  show ?case
  proof (cases "scan_step data len cap off count")
    case Next_Stop
    then show ?thesis using Suc.prems ul by (simp add: word_le_nat_alt)
  next
    case Next_Fault
    then show ?thesis using safe(1) by simp
  next
    case (Next_Skip off')
    then have s: "off' = off + 1" "off + 3 \<le> len" by (auto dest: scan_step_skip)
    have "unat off < 2 ^ 31" using Suc.prems(1) ul L by (simp add: word_le_nat_alt)
    then have o1: "unat off' = unat off + 1" "unat (off + 3) = unat off + 3" using s by (simp_all add: unat_u32_add)
    then have "off' \<le> len" using s by (simp add: word_le_nat_alt)
    from Suc.IH [OF this Suc.prems(2)] o1 Next_Skip show ?thesis
      by (auto split: scan_result.splits)
  next
    case (Next_Frame off' f)
    from safe(2) [OF this] have s: "unat off' = unat off + unat (wire_bytes f)" "off' \<le> len" by auto
    from Next_Frame have c: "count < cap" by (auto dest: scan_step_frame_bounds)
    have c1: "unat (count + 1) = unat count + 1"
      using c unat_u32_less [of cap] by (simp add: unat_u32_add word_less_nat_alt)
    have c2: "count + 1 \<le> cap" using c c1 by (simp add: word_le_nat_alt word_less_nat_alt)
    from Suc.IH [OF s(2) c2] Next_Frame s c c1 show ?thesis
      by (auto simp: word_less_nat_alt split: scan_result.splits)
  qed
qed

lemma scan_frames_bounds:
  assumes "length data < 2 ^ 31" and "no_length_wrap data"
  shows "\<exists>fs. scan_frames (Some data) (word_of_nat (length data)) True cap = Scan_Done fs
    \<and> length fs \<le> unat cap \<and> sum_list (map (unat \<circ> wire_bytes) fs) \<le> length data"
proof (cases "cap = 0")
  case True
  then show ?thesis by (simp add: scan_frames_def)
next
  case False
  let ?r = "scan_loop (scan_fuel (word_of_nat (length data)) cap) data (word_of_nat (length data)) cap 0 0"
  have "unat (word_of_nat (length data) :: size_t) + 3 < 2 ^ 32"
    using assms(1) by (simp add: unat_u32_of_nat)
  then have "?r \<noteq> Scan_Running"
    by (rule scan_loop_terminates) (simp_all add: scan_fuel_def algebra_simps)
  then show ?thesis
    using scan_loop_safe [OF assms refl, of 0 0 cap "scan_fuel (word_of_nat (length data)) cap"] False
    by (simp add: scan_frames_def split: scan_result.splits)
qed

subsection \<open>A length that wraps the frame's end\<close>

lemma wrapping_frame_step:
  "scan_step [0x13, 0x57, 4, 0xF9, 0xFF, 0xFF, 0xFF, 9, b1, b2] 10 cap 0 count =
    (if count < cap then Next_Frame 0 \<lparr>wire_bytes = 0, payload_len = 0xFFFFFFF9,
         inner = \<lparr>opcode = 9, rmi_id = 0, has_rmi = False, body_len = 0xFFFFFFF8\<rparr>\<rparr> else Next_Stop)"
proof -
  have "read_length_le [0xF9, 0xFF, 0xFF, 0xFF, 9, b1, b2] 4 = Some 0xFFFFFFF9"
    by (simp add: read_length_le_def)
  moreover have "summarize_payload (Some [9, b1, b2]) 0xFFFFFFF9
      = Some \<lparr>opcode = 9, rmi_id = 0, has_rmi = False, body_len = 0xFFFFFFF8\<rparr>"
    by (simp add: summarize_payload_def kOpMessage_def)
  ultimately show ?thesis by (simp add: scan_step_def)
qed

lemma wrapping_header_step:
  "cap \<noteq> 0 \<Longrightarrow> scan_step [0x13, 0x57, 4, 0xF9, 0xFF, 0xFF, 0xFF] 7 cap 0 0 = Next_Fault"
proof -
  assume "cap \<noteq> 0"
  then have "0 < cap" by (simp add: word_neq_0_conv)
  moreover have "read_length_le [0xF9, 0xFF, 0xFF, 0xFF] 4 = Some 0xFFFFFFF9"
    by (simp add: read_length_le_def)
  moreover have "summarize_payload (Some []) 0xFFFFFFF9 = None"
    by (simp add: summarize_payload_def)
  ultimately show ?thesis by (simp add: scan_step_def)
qed

text \<open>A loop whose step reports the same frame without moving, until the array is full.\<close>

lemma scan_loop_stuck:
  assumes step: "\<And>count. scan_step d len cap off count = (if count < cap then Next_Frame off f else Next_Stop)"
  shows "c \<le> unat cap \<Longrightarrow> unat cap - c < fuel \<Longrightarrow>
    scan_loop fuel d len cap off (word_of_nat c) = Scan_Done (replicate (unat cap - c) f)"
proof (induction fuel arbitrary: c)
  case (Suc fuel)
  have c: "c < 2 ^ 32" using Suc.prems unat_u32_less [of cap] by linarith
  show ?case
  proof (cases "c < unat cap")
    case True
    then have "scan_loop fuel d len cap off (word_of_nat (Suc c)) = Scan_Done (replicate (unat cap - Suc c) f)"
      by (intro Suc.IH) (use Suc.prems in auto)
    moreover have "(word_of_nat c :: u32) < cap" using True c by (simp add: word_less_nat_alt unat_u32_of_nat)
    moreover have "unat cap - c = Suc (unat cap - Suc c)" using True by simp
    ultimately show ?thesis by (simp add: step add.commute)
  next
    case False
    then have "\<not> (word_of_nat c :: u32) < cap" using c by (simp add: word_less_nat_alt unat_u32_of_nat)
    with False show ?thesis by (simp add: step)
  qed
qed simp

section \<open>Properties\<close>

text \<open>The length field \<open>encode_length\<close> writes is read back by \<open>read_length_le\<close> as the same
  length exactly for the lengths below \<open>2 ^ 32 - 0x8000\<close>; above, the encoder's tests wrap around
  and the field is one or two bytes wide.\<close>

theorem length_field_roundtrip:
  "decode_length (encode_length len @ rest) = Some len \<longleftrightarrow> unat len < 2 ^ 32 - 0x8000"
  using decode_encode_length decode_encode_length_wrapped by (metis not_less)

text \<open> C8: A stream of wrapped payloads, possibly cut inside one more frame, is scanned into exactly
  the first \<open>out_cap\<close> frames, each with its wire size, payload length and summary; if all
  fit, \<open>trailing_unparsed\<close> of the frames' wire bytes is the size of the cut frame's part.\<close>

theorem scan_stream_roundtrip:
  assumes "\<forall>p \<in> set ps. wrappable p" and "wrappable q" and "wrap q = part @ rem" and "rem \<noteq> []"
    and "length (concat (map wrap ps) @ wrap q) + 3 < 2 ^ 32" and "cap \<noteq> 0"
  shows "let chunk = concat (map wrap ps) @ part; len = word_of_nat (length chunk) in
    scan_frames (Some chunk) len True cap = Scan_Done (map frame_of (take (unat cap) ps))
    \<and> trailing_unparsed (Some chunk) len (parsed_wire (map frame_of ps)) = word_of_nat (length part)"
proof -
  have "parsed_wire (map frame_of ps) = word_of_nat (length (concat (map wrap ps)))"
    by (induction ps) (simp_all add: parsed_wire_def frame_of_def)
  moreover have "length (concat (map wrap ps) @ part) < 2 ^ 32" using assms(3,5) by simp
  ultimately have "trailing_unparsed (Some (concat (map wrap ps) @ part))
      (word_of_nat (length (concat (map wrap ps) @ part))) (parsed_wire (map frame_of ps))
    = word_of_nat (length part)"
    by (cases "part = []") (simp_all add: trailing_unparsed_def u32_of_nat_le_iff flip: of_nat_add, simp)
  with scan_frames_stream [OF assms] show ?thesis by (simp add: Let_def)
qed

theorem scan_stream_roundtrip_witness:
  "scan_frames (Some ([0x13, 0x57, 1, 3, 2, 0x34, 0x12] @ [0x13, 0x57, 1])) 10 True 16
     = Scan_Done [\<lparr>wire_bytes = 7, payload_len = 3,
         inner = \<lparr>opcode = 2, rmi_id = 0x1234, has_rmi = True, body_len = 0\<rparr>\<rparr>]"
  using scan_stream_roundtrip [of "[[2, 0x34, 0x12]]" "[9]" "[0x13, 0x57, 1]" "[1, 9]" 16]
  by (simp add: wrappable_def wrap_def encode_length_def frame_of_def Let_def)

text \<open> C28: \<open>scan_frames\<close> returns on every chunk shorter than \<open>2 ^ 32 - 3\<close> bytes, whatever the
  bytes, the length passed and the room in the output array.\<close>

theorem scan_frames_terminates:
  assumes "unat len + 3 < 2 ^ 32"
  shows "scan_frames data len out_nonnull out_cap \<noteq> Scan_Running"
proof -
  have "scan_loop (scan_fuel len out_cap) bytes len out_cap 0 0 \<noteq> Scan_Running" for bytes
    by (rule scan_loop_terminates [OF assms]) (simp_all add: scan_fuel_def algebra_simps)
  then show ?thesis by (simp add: scan_frames_def split: option.split)
qed

theorem scan_frames_terminates_witness:
  "scan_frames (Some [0x13, 0x57, 4, 0xF9, 0xFF, 0xFF, 0xFF, 0, 0, 0]) 10 True 16 \<noteq> Scan_Running"
  by (rule scan_frames_terminates) simp

text \<open> C27: On a chunk below 2 GB none of whose four-byte lengths wraps the frame's end,
  \<open>scan_frames\<close> never reads outside the chunk, fills at most \<open>out_cap\<close> slots, and the
  frames it reports together take no more bytes than the chunk has.\<close>

theorem scan_frames_safe:
  assumes "length data < 2 ^ 31" and "no_length_wrap data"
  shows "\<exists>fs. scan_frames (Some data) (word_of_nat (length data)) True cap = Scan_Done fs
    \<and> length fs \<le> unat cap \<and> sum_list (map (unat \<circ> wire_bytes) fs) \<le> length data"
  by (rule scan_frames_bounds [OF assms])

theorem scan_frames_safe_witness:
  "\<exists>fs. scan_frames (Some [0x13, 0x57, 4, 1, 0, 0, 0, 9, 0x13]) 9 True 3 = Scan_Done fs
    \<and> length fs \<le> 3 \<and> sum_list (map (unat \<circ> wire_bytes) fs) < 10"
  using scan_frames_safe [of "[0x13, 0x57, 4, 1, 0, 0, 0, 9, 0x13]" 3]
  by (auto simp: no_length_wrap_def header4_at_def read_length_le_def less_Suc_eq_le)

text \<open>The bound on four-byte lengths is needed: for the length \<open>FFFFFFF9\<close> the wire size of
  the frame wraps to 0, so the same ten bytes are reported as \<open>out_cap\<close> frames of 0 bytes each
  (and the chunk as unparsed), and when the chunk ends at the header the opcode is read
  behind its end.\<close>

theorem scan_frames_wire_overflow:
  "scan_frames (Some [0x13, 0x57, 4, 0xF9, 0xFF, 0xFF, 0xFF, 9, b1, b2]) 10 True cap
     = Scan_Done (replicate (unat cap) \<lparr>wire_bytes = 0, payload_len = 0xFFFFFFF9,
         inner = \<lparr>opcode = 9, rmi_id = 0, has_rmi = False, body_len = 0xFFFFFFF8\<rparr>\<rparr>)
   \<and> scan_frames (Some [0x13, 0x57, 4, 0xF9, 0xFF, 0xFF, 0xFF]) 7 True cap =
       (if cap = 0 then Scan_Done [] else Scan_Fault)"
proof -
  have "scan_frames (Some [0x13, 0x57, 4, 0xF9, 0xFF, 0xFF, 0xFF, 9, b1, b2]) 10 True cap
     = Scan_Done (replicate (unat cap) \<lparr>wire_bytes = 0, payload_len = 0xFFFFFFF9,
         inner = \<lparr>opcode = 9, rmi_id = 0, has_rmi = False, body_len = 0xFFFFFFF8\<rparr>\<rparr>)"
    using scan_loop_stuck [OF wrapping_frame_step, where c = 0 and fuel = "scan_fuel 10 cap"]
    by (simp add: scan_frames_def scan_fuel_def)
  moreover have "scan_frames (Some [0x13, 0x57, 4, 0xF9, 0xFF, 0xFF, 0xFF]) 7 True cap =
      (if cap = 0 then Scan_Done [] else Scan_Fault)"
  proof -
    obtain n where "scan_fuel 7 cap = Suc n" by (simp add: scan_fuel_def)
    then show ?thesis by (simp add: scan_frames_def wrapping_header_step)
  qed
  ultimately show ?thesis by blast
qed

end
