(* ===== verification/Memory.thy ===== *)
theory Memory
  imports Prelude
begin

text \<open>
  The process heap the program allocates from and the wrappers of
  \<open>src/game/engine/MemoryDefines.cpp\<close> around it.

  A heap maps block numbers to blocks. Block numbers are never reused, so a pointer to a freed
  block is recognised. Every allocation may fail: \<open>hfail n s\<close> answers whether the \<open>n\<close>-th
  allocation, of \<open>s\<close> bytes, does, and theorems hold for every such function. The wrappers work
  on blocks of bytes; a byte that was never written is \<open>None\<close>. \<open>HeapReAlloc\<close> may move the block
  (the documentation does not promise that it stays), and keeps the old one when it fails.
\<close>

section \<open>Heaps of blocks\<close>

record 'b heap =
  hblk :: "nat \<Rightarrow> 'b option"
  hnext :: nat
  hfail :: "nat \<Rightarrow> nat \<Rightarrow> bool"

definition halloc :: "nat \<Rightarrow> 'b \<Rightarrow> 'b heap \<Rightarrow> nat option \<times> 'b heap" where
  "halloc s b h =
     (if hfail h (hnext h) s then (None, h\<lparr>hnext := Suc (hnext h)\<rparr>)
      else (Some (hnext h), h\<lparr>hblk := (hblk h)(hnext h \<mapsto> b), hnext := Suc (hnext h)\<rparr>))"

definition hfree :: "nat \<Rightarrow> 'b heap \<Rightarrow> 'b heap" where
  "hfree i h = h\<lparr>hblk := (hblk h)(i := None)\<rparr>"

definition hwrite :: "nat \<Rightarrow> 'b \<Rightarrow> 'b heap \<Rightarrow> 'b heap" where
  "hwrite i b h = h\<lparr>hblk := (hblk h)(i \<mapsto> b)\<rparr>"

definition heap_wf :: "'b heap \<Rightarrow> bool" where
  "heap_wf h \<longleftrightarrow> (\<forall>i. hblk h i \<noteq> None \<longrightarrow> i < hnext h)"

lemma heap_wf_fresh: "heap_wf h \<Longrightarrow> hblk h (hnext h) = None"
  by (auto simp: heap_wf_def)

lemma heap_wf_live: "heap_wf h \<Longrightarrow> hblk h i = Some b \<Longrightarrow> i < hnext h"
  by (auto simp: heap_wf_def)

lemma halloc_wf: "heap_wf h \<Longrightarrow> halloc s b h = (r, h') \<Longrightarrow> heap_wf h'"
  by (auto simp: heap_wf_def halloc_def less_Suc_eq split: if_splits)

lemma hfree_wf: "heap_wf h \<Longrightarrow> heap_wf (hfree i h)"
  by (auto simp: heap_wf_def hfree_def split: if_splits)

lemma hwrite_wf: "heap_wf h \<Longrightarrow> hblk h i \<noteq> None \<Longrightarrow> heap_wf (hwrite i b h)"
  by (auto simp: heap_wf_def hwrite_def split: if_splits)

lemma hwrite_simps [simp]:
  "hblk (hwrite i b h) j = (if j = i then Some b else hblk h j)"
  "hnext (hwrite i b h) = hnext h"
  "hfail (hwrite i b h) = hfail h"
  by (simp_all add: hwrite_def)

lemma hfree_simps [simp]:
  "hblk (hfree i h) j = (if j = i then None else hblk h j)"
  "hnext (hfree i h) = hnext h"
  "hfail (hfree i h) = hfail h"
  by (simp_all add: hfree_def)

lemma halloc_cases:
  assumes "halloc s b h = (r, h')"
  obtains "r = None" "hblk h' = hblk h"
  | "r = Some (hnext h)" "hblk h' = (hblk h)(hnext h \<mapsto> b)" "\<not> hfail h (hnext h) s"
  using assms by (auto simp: halloc_def split: if_splits)

definition no_oom :: "'b heap \<Rightarrow> bool" where
  "no_oom h \<longleftrightarrow> (\<forall>n s. \<not> hfail h n s)"

lemma halloc_no_oom: "no_oom h \<Longrightarrow> halloc s b h =
   (Some (hnext h), h\<lparr>hblk := (hblk h)(hnext h \<mapsto> b), hnext := Suc (hnext h)\<rparr>)"
  by (simp add: no_oom_def halloc_def)

section \<open>The wrappers\<close>

type_synonym cell = "u8 option"
type_synonym bheap = "cell list heap"

definition HeapAlloc :: "size_t \<Rightarrow> bheap \<Rightarrow> nat option \<times> bheap" where
  "HeapAlloc dwBytes h =
     (let n = (if dwBytes = 0 then 1 else unat dwBytes)
      in halloc n (replicate n None) h)"

text \<open>A pointer that is not a live block is an error of the process heap.\<close>

definition HeapReAlloc :: "nat option \<Rightarrow> size_t \<Rightarrow> bheap \<Rightarrow> nat option res \<times> bheap" where
  "HeapReAlloc lpMem dwBytes h =
     (let n = (if dwBytes = 0 then 1 else unat dwBytes)
      in case lpMem of
           None \<Rightarrow> (Inr None, h)
         | Some i \<Rightarrow>
             (case hblk h i of
                None \<Rightarrow> (Inl UseAfterFree, h)
              | Some old \<Rightarrow>
                  (case halloc n (take n old @ replicate (n - length old) None) h of
                     (None, h') \<Rightarrow> (Inr None, h')
                   | (Some j, h') \<Rightarrow> (Inr (Some j), hfree i h'))))"

definition HeapFree :: "nat option \<Rightarrow> bheap \<Rightarrow> unit res \<times> bheap" where
  "HeapFree lpMem h =
     (case lpMem of
        None \<Rightarrow> (Inr (), h)
      | Some i \<Rightarrow> if hblk h i = None then (Inl UseAfterFree, h) else (Inr (), hfree i h))"

text \<open>
  \<open>_Malloc\<close>, \<open>_Realloc\<close> and \<open>_Free\<close> go to the C runtime's zeroing allocator
  (\<open>calloc\<close>, \<open>_recalloc\<close>, \<open>free\<close>).
\<close>

definition EE_Malloc :: "size_t \<Rightarrow> bheap \<Rightarrow> nat option \<times> bheap" where
  "EE_Malloc stSizeInBytes h =
     (let n = (if stSizeInBytes = 0 then 1 else unat stSizeInBytes)
      in halloc n (replicate n (Some 0)) h)"

definition EE_Free :: "nat option \<Rightarrow> bheap \<Rightarrow> unit res \<times> bheap" where
  "EE_Free pvMem h =
     (case pvMem of
        None \<Rightarrow> (Inr (), h)
      | Some i \<Rightarrow> if hblk h i = None then (Inl UseAfterFree, h) else (Inr (), hfree i h))"

definition EE_Realloc :: "nat option \<Rightarrow> size_t \<Rightarrow> bheap \<Rightarrow> nat option res \<times> bheap" where
  "EE_Realloc pvMem stSizeInBytes h =
     (if stSizeInBytes = 0 \<and> pvMem \<noteq> None then
        (case EE_Free pvMem h of
           (Inl e, h') \<Rightarrow> (Inl e, h')
         | (Inr _, h') \<Rightarrow> (Inr None, h'))
      else (case pvMem of
          None \<Rightarrow> (let (r, h') = EE_Malloc stSizeInBytes h in (Inr r, h'))
        | Some i \<Rightarrow>
            (let n = unat stSizeInBytes
             in case hblk h i of
                  None \<Rightarrow> (Inl UseAfterFree, h)
                | Some old \<Rightarrow>
                    (case halloc n (take n old @ replicate (n - length old) (Some 0)) h of
                       (None, h') \<Rightarrow> (Inr None, h')
                     | (Some j, h') \<Rightarrow> (Inr (Some j), hfree i h')))))"

section \<open>Bytes in a block\<close>

definition load_byte :: "bheap \<Rightarrow> nat option \<Rightarrow> nat \<Rightarrow> cell res" where
  "load_byte h p i =
     (case p of
        None \<Rightarrow> Inl NullDeref
      | Some b \<Rightarrow>
          (case hblk h b of
             None \<Rightarrow> Inl UseAfterFree
           | Some cells \<Rightarrow> of_option OobRead (rd cells i)))"

definition store_byte :: "bheap \<Rightarrow> nat option \<Rightarrow> nat \<Rightarrow> cell \<Rightarrow> bheap res" where
  "store_byte h p i c =
     (case p of
        None \<Rightarrow> Inl NullDeref
      | Some b \<Rightarrow>
          (case hblk h b of
             None \<Rightarrow> Inl UseAfterFree
           | Some cells \<Rightarrow>
               if i < length cells then Inr (hwrite b (cells[i := c]) h) else Inl OobWrite))"

text \<open>
  \<open>for (int i = 0; i < len; ++i) dest[doff + i] = src[soff + i];\<close> from \<open>i\<close> on, \<open>n\<close> bytes.
\<close>

fun copy_bytes :: "nat option \<Rightarrow> nat \<Rightarrow> nat option \<Rightarrow> nat \<Rightarrow> nat \<Rightarrow> bheap \<Rightarrow> bheap res" where
  "copy_bytes d doff s soff 0 h = Inr h"
| "copy_bytes d doff s soff (Suc n) h =
     bindR (load_byte h s soff) (\<lambda>c.
     bindR (store_byte h d doff c) (\<lambda>h'.
     copy_bytes d (Suc doff) s (Suc soff) n h'))"

lemma copy_bytes_spec:
  assumes "hblk h s = Some src" "hblk h d = Some dst" "s \<noteq> d"
    and "soff + n \<le> length src" "doff + n \<le> length dst"
  shows "copy_bytes (Some d) doff (Some s) soff n h =
     Inr (hwrite d (take doff dst @ take n (drop soff src) @ drop (doff + n) dst) h)"
  using assms
proof (induction n arbitrary: h doff soff dst)
  case 0
  then have "hwrite d dst h = h" by (simp add: hwrite_def fun_upd_idem)
  with 0 show ?case by simp
next
  case (Suc n)
  let ?h = "hwrite d (dst[doff := src ! soff]) h"
  have step: "copy_bytes (Some d) doff (Some s) soff (Suc n) h
      = copy_bytes (Some d) (Suc doff) (Some s) (Suc soff) n ?h"
    using Suc.prems by (simp add: load_byte_def store_byte_def rd_Some)
  have "copy_bytes (Some d) (Suc doff) (Some s) (Suc soff) n ?h
      = Inr (hwrite d (take (Suc doff) (dst[doff := src ! soff]) @ take n (drop (Suc soff) src)
          @ drop (Suc doff + n) (dst[doff := src ! soff])) ?h)"
    by (rule Suc.IH) (use Suc.prems in auto)
  moreover have "take (Suc doff) (dst[doff := src ! soff]) = take doff dst @ [src ! soff]"
    using Suc.prems by (simp add: take_Suc_conv_app_nth)
  moreover have "take (Suc n) (drop soff src) = src ! soff # take n (drop (Suc soff) src)"
    using Suc.prems by (simp add: Cons_nth_drop_Suc [symmetric])
  moreover have "hwrite d x ?h = hwrite d x h" for x by (simp add: hwrite_def)
  ultimately show ?case by (simp only: step append.assoc append_Cons append_Nil) simp
qed

text \<open>A copy that succeeds leaves every other block and the allocator alone.\<close>

lemma copy_bytes_frame:
  "copy_bytes d doff s soff n h = Inr h' \<Longrightarrow>
   hnext h' = hnext h \<and> hfail h' = hfail h \<and> (\<forall>i. d \<noteq> Some i \<longrightarrow> hblk h' i = hblk h i)
   \<and> (\<forall>i. (hblk h' i = None) = (hblk h i = None))"
proof (induction n arbitrary: h doff soff)
  case (Suc n)
  from Suc.prems obtain c h1 where l: "load_byte h s soff = Inr c" "store_byte h d doff c = Inr h1"
    and r: "copy_bytes d (Suc doff) s (Suc soff) n h1 = Inr h'"
    by (auto simp: bindR_eq_Inr)
  from l(2) have "hnext h1 = hnext h \<and> hfail h1 = hfail h \<and> (\<forall>i. d \<noteq> Some i \<longrightarrow> hblk h1 i = hblk h i)
      \<and> (\<forall>i. (hblk h1 i = None) = (hblk h i = None))"
    by (auto simp: store_byte_def split: option.splits if_splits)
  with Suc.IH [OF r] show ?case by simp
qed simp

lemma copy_bytes_wf: "heap_wf h \<Longrightarrow> copy_bytes d doff s soff n h = Inr h' \<Longrightarrow> heap_wf h'"
  using copy_bytes_frame [of d doff s soff n h h'] by (auto simp: heap_wf_def)

end
