(* ===== verification/Growable.thy ===== *)
theory Growable
  imports Memory "HOL-Library.Signed_Division"
begin

text \<open>
  ProudNet's growable byte buffers: \<open>src/ProudNet/GrowableBuffer.cpp\<close> (growth policy and
  the two \<open>ensure\<close> operations) and \<open>RecvBuffer::append\<close> of \<open>src/ProudNet/RecvAppend.cpp\<close>.

  An operation returns its result together with the buffer and the heap as it leaves them, also
  when it throws. The sizes are C ints: sums that leave the range end with \<open>SignedOverflow\<close>.

  The locale \<open>ensurer\<close> is the contract the writers of a buffer rely on; it is interpreted by both
  \<open>ensure_size\<close> and \<open>ensure_capacity_copy\<close>.
\<close>

section \<open>The model\<close>

record gbuf =
  data_p :: "nat option"
  gsize :: int
  capacity :: int
  min_capacity :: int
  growth_mode :: int

definition alloc_bytes :: "size_t \<Rightarrow> bheap \<Rightarrow> nat option \<times> bheap" where
  "alloc_bytes bytes h = HeapAlloc bytes h"

definition realloc_bytes :: "nat option \<Rightarrow> size_t \<Rightarrow> bheap \<Rightarrow> nat option res \<times> bheap" where
  "realloc_bytes block bytes h =
     (if block = None then (let (r, h') = HeapAlloc bytes h in (Inr r, h'))
      else HeapReAlloc block bytes h)"

definition free_bytes :: "nat option \<Rightarrow> bheap \<Rightarrow> unit res \<times> bheap" where
  "free_bytes block h = (if block = None then (Inr (), h) else HeapFree block h)"

definition calc_capacity :: "gbuf \<Rightarrow> int \<Rightarrow> int res" where
  "calc_capacity buf need =
     (let size = gsize buf; mode = growth_mode buf; min_cap = min_capacity buf;
          slack = (if mode = 0 then
                     (let s = size sdiv 8
                      in Some (if s < 1024 then (if s \<le> 4 then 4 else s) else 1024))
                   else if mode = 1 then
                     (let s = size sdiv 8 in Some (if s \<le> 64 then 64 else s))
                   else if mode = 2 then Some 0
                   else None)
      in case slack of
           None \<Rightarrow> Inl LengthError
         | Some sl \<Rightarrow>
             bindR (add_i32 need sl) (\<lambda>cap. Inr (if min_cap > cap then min_cap else cap)))"

definition size_t_of_int :: "int \<Rightarrow> size_t" where
  "size_t_of_int i = word_of_int i"

definition ensure_size :: "gbuf \<Rightarrow> int \<Rightarrow> bheap \<Rightarrow> unit res \<times> gbuf \<times> bheap" where
  "ensure_size buf new_size h =
     (if new_size < 0 then (Inl LengthError, buf, h)
      else if new_size = gsize buf then (Inr (), buf, h)
      else if new_size \<le> capacity buf then (Inr (), buf\<lparr>gsize := new_size\<rparr>, h)
      else (case calc_capacity buf new_size of
          Inl e \<Rightarrow> (Inl e, buf, h)
        | Inr new_cap \<Rightarrow>
            (let bytes = size_t_of_int new_cap;
                 (r, h') = (if capacity buf = 0
                            then (let (p, h') = alloc_bytes bytes h in (Inr p, h'))
                            else realloc_bytes (data_p buf) bytes h)
             in case r of
                  Inl e \<Rightarrow> (Inl e, buf, h')
                | Inr None \<Rightarrow> (Inl BadAlloc, buf, h')
                | Inr (Some block) \<Rightarrow>
                    (Inr (), buf\<lparr>data_p := Some block, capacity := new_cap, gsize := new_size\<rparr>, h'))))"

definition ensure_capacity_copy :: "gbuf \<Rightarrow> int \<Rightarrow> bheap \<Rightarrow> unit res \<times> gbuf \<times> bheap" where
  "ensure_capacity_copy buf new_size h =
     (if new_size < 0 then (Inl LengthError, buf, h)
      else if new_size = gsize buf then (Inr (), buf, h)
      else if new_size > capacity buf then
        (case calc_capacity buf new_size of
           Inl e \<Rightarrow> (Inl e, buf, h)
         | Inr new_cap \<Rightarrow>
             (let bytes = size_t_of_int new_cap
              in if capacity buf = 0 then
                   (case alloc_bytes bytes h of
                      (None, h') \<Rightarrow> (Inl BadAlloc, buf, h')
                    | (Some block, h') \<Rightarrow>
                        (Inr (), buf\<lparr>data_p := Some block, capacity := new_cap, gsize := new_size\<rparr>, h'))
                 else
                   (case alloc_bytes bytes h of
                      (None, h') \<Rightarrow> (Inl BadAlloc, buf, h')
                    | (Some block, h') \<Rightarrow>
                        (case copy_bytes (Some block) 0 (data_p buf) 0 (nat (gsize buf)) h' of
                           Inl e \<Rightarrow> (Inl e, buf, h')
                         | Inr h'' \<Rightarrow>
                             (case free_bytes (data_p buf) h'' of
                                (Inl e, h3) \<Rightarrow> (Inl e, buf, h3)
                              | (Inr _, h3) \<Rightarrow>
                                  (Inr (), buf\<lparr>data_p := Some block, capacity := new_cap,
                                              gsize := new_size\<rparr>, h3))))))
      else (Inr (), buf\<lparr>gsize := new_size\<rparr>, h))"

text \<open>
  \<open>append\<close>: \<open>src\<close> is a pointer (a block and an offset in it). The log call that ends the
  function receives the appended bytes and changes neither the buffer nor the heap.
\<close>

definition buf_append :: "gbuf \<Rightarrow> nat option \<Rightarrow> nat \<Rightarrow> int \<Rightarrow> bheap \<Rightarrow> unit res \<times> gbuf \<times> bheap" where
  "buf_append buf src soff len h =
     (if len < 0 then (Inl LengthError, buf, h)
      else if len = 0 then (Inr (), buf, h)
      else (let cur_size = gsize buf
            in case add_i32 cur_size len of
                 Inl e \<Rightarrow> (Inl e, buf, h)
               | Inr new_size \<Rightarrow>
                   (case ensure_capacity_copy buf new_size h of
                      (Inl e, buf', h') \<Rightarrow> (Inl e, buf', h')
                    | (Inr _, buf', h') \<Rightarrow>
                        (let dest = (if gsize buf' \<noteq> 0 then data_p buf' else None)
                         in case copy_bytes dest (nat cur_size) src soff (nat len) h' of
                              Inl e \<Rightarrow> (Inl e, buf', h')
                            | Inr h'' \<Rightarrow> (Inr (), buf', h'')))))"

section \<open>The growth policy\<close>

definition slack_of :: "gbuf \<Rightarrow> int" where
  "slack_of buf =
     (if growth_mode buf = 0 then max 4 (min 1024 (gsize buf sdiv 8))
      else if growth_mode buf = 1 then max 64 (gsize buf sdiv 8) else 0)"

lemma sdiv8_nonneg: "0 \<le> s \<Longrightarrow> s sdiv 8 = s div (8 :: int)"
  by (cases "s = 0") (simp_all add: signed_divide_int_def)

lemma clamp_code:
  "(if s < 1024 then (if s \<le> 4 then 4 else s) else 1024) = max 4 (min 1024 (s :: int))"
  "(if s \<le> 64 then 64 else s) = max 64 (s :: int)"
  by (simp_all add: max_def min_def)

lemma calc_capacity_eq:
  "growth_mode buf \<in> {0, 1, 2} \<Longrightarrow> calc_capacity buf need =
     bindR (add_i32 need (slack_of buf)) (\<lambda>cap. Inr (max (min_capacity buf) cap))"
proof -
  have "(if m > c then m else c) = max m (c :: int)" for m c by (simp add: max_def)
  then show "growth_mode buf \<in> {0, 1, 2} \<Longrightarrow> ?thesis"
    unfolding calc_capacity_def slack_of_def Let_def clamp_code by auto
qed

lemma calc_capacity_mode: "growth_mode buf \<notin> {0, 1, 2} \<Longrightarrow> calc_capacity buf need = Inl LengthError"
  by (auto simp: calc_capacity_def)

lemma slack_of_bounds: "0 \<le> gsize buf \<Longrightarrow> gsize buf \<le> 2 ^ 30 \<Longrightarrow> 0 \<le> slack_of buf \<and> slack_of buf \<le> 2 ^ 27"
  by (auto simp: slack_of_def sdiv8_nonneg)

section \<open>Well-formed buffers and their contents\<close>

definition gbuf_ok :: "gbuf \<Rightarrow> bheap \<Rightarrow> bool" where
  "gbuf_ok buf h \<longleftrightarrow> 0 \<le> gsize buf \<and> gsize buf \<le> capacity buf \<and> i32_ok (capacity buf)
     \<and> growth_mode buf \<in> {0, 1, 2} \<and> i32_ok (min_capacity buf)
     \<and> (capacity buf = 0 \<longrightarrow> data_p buf = None)
     \<and> (capacity buf \<noteq> 0 \<longrightarrow>
         (case data_p buf of None \<Rightarrow> False
          | Some b \<Rightarrow> (case hblk h b of None \<Rightarrow> False | Some cells \<Rightarrow> length cells = nat (capacity buf))))"

definition contents :: "gbuf \<Rightarrow> bheap \<Rightarrow> cell list" where
  "contents buf h =
     (if capacity buf = 0 then []
      else (case data_p buf of None \<Rightarrow> []
        | Some b \<Rightarrow> (case hblk h b of None \<Rightarrow> [] | Some cells \<Rightarrow> take (nat (gsize buf)) cells)))"

lemma gbuf_okE:
  assumes "gbuf_ok buf h"
  obtains (empty) "capacity buf = 0" "gsize buf = 0" "data_p buf = None" "contents buf h = []"
  | (block) b cells where "0 < capacity buf" "data_p buf = Some b" "hblk h b = Some cells"
      "length cells = nat (capacity buf)" "contents buf h = take (nat (gsize buf)) cells"
  using assms by (cases "capacity buf = 0") (auto simp: gbuf_ok_def contents_def split: option.splits intro: that)

lemma gbuf_ok_basic:
  "gbuf_ok buf h \<Longrightarrow> 0 \<le> gsize buf \<and> gsize buf \<le> capacity buf \<and> capacity buf < 2 ^ 31
     \<and> growth_mode buf \<in> {0, 1, 2}"
  by (auto simp: gbuf_ok_def i32_ok_def)

lemma length_contents: "gbuf_ok buf h \<Longrightarrow> length (contents buf h) = nat (gsize buf)"
  using gbuf_ok_basic [of buf h] by (auto elim!: gbuf_okE simp: min_def)

text \<open>
  The contract of \<open>ensure\<close>. Whatever happens, the buffer stays well-formed and the blocks of others
  are untouched; on success the size is the one asked for, the old contents are kept as far as they fit and the block is the
  old one or a fresh one; when it throws, the buffer and its contents are as before.
\<close>

definition other_blocks_kept :: "gbuf \<Rightarrow> bheap \<Rightarrow> bheap \<Rightarrow> bool" where
  "other_blocks_kept buf h h' \<longleftrightarrow>
     (\<forall>i. hblk h i \<noteq> None \<longrightarrow> data_p buf \<noteq> Some i \<longrightarrow> hblk h' i = hblk h i)"

definition ensure_post :: "gbuf \<Rightarrow> int \<Rightarrow> bheap \<Rightarrow> unit res \<times> gbuf \<times> bheap \<Rightarrow> bool" where
  "ensure_post buf n h out = (case out of (r, buf', h') \<Rightarrow>
     gbuf_ok buf' h' \<and> heap_wf h' \<and> hfail h' = hfail h \<and> other_blocks_kept buf h h'
     \<and> (case r of
          Inl e \<Rightarrow> buf' = buf \<and> contents buf' h' = contents buf h
        | Inr _ \<Rightarrow> gsize buf' = n \<and> 0 \<le> n \<and> capacity buf \<le> capacity buf'
            \<and> take (nat (gsize buf)) (contents buf' h') = take (nat n) (contents buf h)
            \<and> (data_p buf' = data_p buf \<or> (\<exists>b. data_p buf' = Some b \<and> hblk h b = None))))"

lemma calc_capacity_ge:
  assumes "calc_capacity buf need = Inr cap" "0 \<le> gsize buf" "i32_ok (min_capacity buf)"
  shows "need \<le> cap \<and> i32_ok cap"
proof -
  have "0 \<le> slack_of buf"
    using assms(2) by (auto simp: slack_of_def sdiv8_nonneg)
  with assms show ?thesis
    by (cases "growth_mode buf \<in> {0, 1, 2}")
      (auto simp: calc_capacity_eq calc_capacity_mode add_i32_def max_def split: if_splits)
qed

lemma heap_size_of_cap:
  assumes "0 < cap" "i32_ok cap"
  shows "size_t_of_int cap \<noteq> 0" "unat (size_t_of_int cap) = nat cap"
proof -
  have "cap < 2 ^ 31" using assms by (simp add: i32_ok_def)
  then show "unat (size_t_of_int cap) = nat cap"
    using assms by (simp add: size_t_of_int_def unat_eq_nat_uint uint_word_of_int take_bit_eq_mod)
  then show "size_t_of_int cap \<noteq> 0" using assms by (auto simp: word_unat_eq_iff)
qed

lemma alloc_bytes_cases:
  assumes "alloc_bytes (size_t_of_int cap) h = (r, h')" "0 < cap" "i32_ok cap" "heap_wf h"
  obtains (fail) "r = None" "hblk h' = hblk h" "heap_wf h'" "hfail h' = hfail h"
  | (ok) "r = Some (hnext h)" "hblk h' = (hblk h)(hnext h \<mapsto> replicate (nat cap) None)" "heap_wf h'"
      "hblk h (hnext h) = None" "hfail h' = hfail h"
proof -
  from assms have a: "halloc (nat cap) (replicate (nat cap) None) h = (r, h')"
    using heap_size_of_cap [of cap] by (simp add: alloc_bytes_def HeapAlloc_def Let_def)
  moreover have "hfail h' = hfail h" using a by (auto simp: halloc_def split: if_splits)
  ultimately show thesis
    using halloc_wf [OF assms(4) a] heap_wf_fresh [OF assms(4)]
    by (elim halloc_cases) (auto intro: that)
qed

section \<open>Both operations meet the contract\<close>

lemma ensure_post_same:
  "gbuf_ok buf h \<Longrightarrow> heap_wf h \<Longrightarrow> hblk h' = hblk h \<Longrightarrow> heap_wf h' \<Longrightarrow> hfail h' = hfail h
   \<Longrightarrow> ensure_post buf n h (Inl e, buf, h')"
  by (auto simp: ensure_post_def other_blocks_kept_def gbuf_ok_def contents_def split: option.splits)

text \<open>Growing or shrinking inside the capacity: the block stays.\<close>

lemma ensure_post_resize:
  assumes "gbuf_ok buf h" "heap_wf h" "0 \<le> n" "n \<le> capacity buf"
  shows "ensure_post buf n h (Inr (), buf\<lparr>gsize := n\<rparr>, h)"
  using assms
  by (cases rule: gbuf_okE [OF assms(1)])
     (auto simp: ensure_post_def other_blocks_kept_def gbuf_ok_def contents_def min.commute)

text \<open>Moving to a larger block that starts with the old contents.\<close>

lemma ensure_post_move:
  assumes ok: "gbuf_ok buf h" and wf': "heap_wf h'" and cap: "n \<le> cap" "capacity buf < n" "i32_ok cap"
    and fl: "hfail h' = hfail h"
    and b: "hblk h b = None" "hblk h' b = Some cells" "length cells = nat cap"
      "take (nat (gsize buf)) cells = contents buf h"
    and others: "\<forall>i. hblk h i \<noteq> None \<longrightarrow> data_p buf \<noteq> Some i \<longrightarrow> hblk h' i = hblk h i"
  shows "ensure_post buf n h (Inr (), buf\<lparr>data_p := Some b, capacity := cap, gsize := n\<rparr>, h')"
proof -
  have basic: "0 \<le> gsize buf" "gsize buf \<le> capacity buf" using gbuf_ok_basic [OF ok] by auto
  have "length (contents buf h) = nat (gsize buf)" by (rule length_contents [OF ok])
  moreover have "take (nat (gsize buf)) (take (nat n) cells) = take (nat (gsize buf)) cells"
    using basic cap by (simp add: min_def)
  ultimately show ?thesis
    using assms basic by (auto simp: ensure_post_def other_blocks_kept_def gbuf_ok_def contents_def)
qed

text \<open>What both have in common: only growing beyond the capacity is different.\<close>

lemma ensure_post_cases:
  assumes ok: "gbuf_ok buf h" and wf: "heap_wf h"
    and neg: "n < 0 \<Longrightarrow> \<exists>e. res = (Inl e, buf, h)"
    and room: "0 \<le> n \<Longrightarrow> n \<le> capacity buf \<Longrightarrow> res = (Inr (), buf\<lparr>gsize := n\<rparr>, h)"
    and mode: "\<And>e. 0 \<le> n \<Longrightarrow> capacity buf < n \<Longrightarrow> calc_capacity buf n = Inl e \<Longrightarrow> res = (Inl e, buf, h)"
    and grow: "\<And>cap. 0 \<le> n \<Longrightarrow> capacity buf < n \<Longrightarrow> calc_capacity buf n = Inr cap \<Longrightarrow> n \<le> cap \<Longrightarrow> i32_ok cap \<Longrightarrow> 0 < cap \<Longrightarrow>
      ensure_post buf n h res"
  shows "ensure_post buf n h res"
proof -
  consider "n < 0" | "0 \<le> n" "n \<le> capacity buf" | "0 \<le> n" "capacity buf < n" by linarith
  then show ?thesis
  proof cases
    case 1
    then show ?thesis using neg ensure_post_same [OF ok wf refl wf refl] by auto
  next
    case 2
    then show ?thesis using room ensure_post_resize [OF ok wf] by simp
  next
    case 3
    show ?thesis
    proof (cases "calc_capacity buf n")
      case (Inl e)
      then show ?thesis using mode 3 ensure_post_same [OF ok wf refl wf refl] by simp
    next
      case (Inr cap)
      have "n \<le> cap" "i32_ok cap" "0 < cap"
        using calc_capacity_ge [OF Inr] ok gbuf_ok_basic [OF ok] 3 by (auto simp: gbuf_ok_def)
      then show ?thesis using grow 3 Inr by blast
    qed
  qed
qed

text \<open>A block that is reallocated keeps what fits.\<close>

lemma realloc_grows:
  assumes ok: "gbuf_ok buf h" and wf: "heap_wf h" and n: "0 \<le> n" "capacity buf < n" and cap: "n \<le> cap" "i32_ok cap" "0 < cap"
    and block: "data_p buf = Some b" "hblk h b = Some cells" "length cells = nat (capacity buf)"
      "contents buf h = take (nat (gsize buf)) cells"
    and re: "realloc_bytes (data_p buf) (size_t_of_int cap) h = (r, h')"
  shows "case r of
      Inl e \<Rightarrow> False
    | Inr None \<Rightarrow> hblk h' = hblk h \<and> heap_wf h' \<and> hfail h' = hfail h
    | Inr (Some k) \<Rightarrow> ensure_post buf n h (Inr (), buf\<lparr>data_p := Some k, capacity := cap, gsize := n\<rparr>, h')"
proof -
  let ?new = "take (nat cap) cells @ replicate (nat cap - length cells) None"
  obtain q h1 where a: "halloc (nat cap) ?new h = (q, h1)" by force
  have "(r, h') = (case q of None \<Rightarrow> (Inr None, h1) | Some j \<Rightarrow> (Inr (Some j), hfree b h1))"
    using block heap_size_of_cap [OF cap(3,2)] a re by (simp add: realloc_bytes_def HeapReAlloc_def Let_def split: option.splits)
  moreover have wf1: "heap_wf h1" "hfail h1 = hfail h"
    using halloc_wf [OF wf a] a by (auto simp: halloc_def split: if_splits)
  moreover have "ensure_post buf n h (Inr (), buf\<lparr>data_p := Some (hnext h), capacity := cap, gsize := n\<rparr>, hfree b h1)"
    if 2: "hblk h1 = (hblk h)(hnext h \<mapsto> ?new)"
  proof -
    have fresh: "hblk h (hnext h) = None" by (rule heap_wf_fresh [OF wf])
    then have bn: "b \<noteq> hnext h" using block by auto
    show ?thesis
      by (rule ensure_post_move [OF ok, where cells = ?new])
        (use 2 cap n block bn fresh wf1 hfree_wf gbuf_ok_basic [OF ok] in \<open>auto simp: min_def\<close>)
  qed
  ultimately show ?thesis by (cases rule: halloc_cases [OF a]) auto
qed

lemma ensure_size_post:
  assumes ok: "gbuf_ok buf h" and wf: "heap_wf h"
  shows "ensure_post buf n h (ensure_size buf n h)"
proof (rule ensure_post_cases [OF ok wf])
  fix cap
  assume n: "0 \<le> n" "capacity buf < n" and Inr: "calc_capacity buf n = Inr cap" and cap: "n \<le> cap" "i32_ok cap" "0 < cap"
  have nn: "n \<noteq> gsize buf" using n gbuf_ok_basic [OF ok] by auto
  from ok show "ensure_post buf n h (ensure_size buf n h)"
  proof (cases rule: gbuf_okE)
    case empty
    obtain r h' where a: "alloc_bytes (size_t_of_int cap) h = (r, h')" by force
    from a cap(3) cap(2) wf show ?thesis
    proof (cases rule: alloc_bytes_cases)
      case fail
      then show ?thesis using n nn Inr a empty ensure_post_same [OF ok wf fail(2-4)]
        by (simp add: ensure_size_def Let_def)
    next
      case ok': ok
      have "ensure_post buf n h (Inr (), buf\<lparr>data_p := Some (hnext h), capacity := cap, gsize := n\<rparr>, h')"
        by (rule ensure_post_move [OF ok, where cells = "replicate (nat cap) None"])
          (use ok' cap n empty in auto)
      then show ?thesis using n nn Inr a empty ok' by (simp add: ensure_size_def Let_def)
    qed
  next
    case (block b cells)
    obtain r h' where re: "realloc_bytes (data_p buf) (size_t_of_int cap) h = (r, h')" by force
    from realloc_grows [OF ok wf n cap block(2-5) re] show ?thesis
      using n nn Inr re block ensure_post_same [OF ok wf, of h']
      by (auto simp: ensure_size_def Let_def split: sum.splits option.splits)
  qed
qed (use gbuf_ok_basic [OF ok] in \<open>auto simp: ensure_size_def\<close>)

lemma ensure_capacity_copy_post:
  assumes ok: "gbuf_ok buf h" and wf: "heap_wf h"
  shows "ensure_post buf n h (ensure_capacity_copy buf n h)"
proof (rule ensure_post_cases [OF ok wf])
  fix cap
  assume n: "0 \<le> n" "capacity buf < n" and Inr: "calc_capacity buf n = Inr cap" and cap: "n \<le> cap" "i32_ok cap" "0 < cap"
  have nn: "n \<noteq> gsize buf" using n gbuf_ok_basic [OF ok] by auto
  obtain r h1 where a: "alloc_bytes (size_t_of_int cap) h = (r, h1)" by force
  from a cap(3) cap(2) wf show "ensure_post buf n h (ensure_capacity_copy buf n h)"
  proof (cases rule: alloc_bytes_cases)
    case fail
    then show ?thesis using n nn Inr a ensure_post_same [OF ok wf fail(2-4)]
      by (simp add: ensure_capacity_copy_def Let_def)
  next
    case new: ok
    from ok show ?thesis
    proof (cases rule: gbuf_okE)
      case empty
      have "ensure_post buf n h (Inr (), buf\<lparr>data_p := Some (hnext h), capacity := cap, gsize := n\<rparr>, h1)"
        by (rule ensure_post_move [OF ok, where cells = "replicate (nat cap) None"])
          (use new cap n empty in auto)
      then show ?thesis using n nn Inr a empty new by (simp add: ensure_capacity_copy_def Let_def)
    next
      case (block b cells)
      let ?s = "nat (gsize buf)"
      let ?new = "take ?s cells @ replicate (nat cap - ?s) None"
      have bn: "b \<noteq> hnext h" using block new by auto
      have s: "?s \<le> length cells" "?s \<le> nat cap" using block gbuf_ok_basic [OF ok] cap n by auto
      have c: "copy_bytes (Some (hnext h)) 0 (data_p buf) 0 ?s h1 = Inr (hwrite (hnext h) ?new h1)"
        using copy_bytes_spec [of h1 b cells "hnext h" "replicate (nat cap) None" 0 ?s 0] block new bn s
        by simp
      have fr: "free_bytes (data_p buf) (hwrite (hnext h) ?new h1)
          = (Inr (), hfree b (hwrite (hnext h) ?new h1))"
        using block new bn by (simp add: free_bytes_def HeapFree_def)
      have "ensure_post buf n h (Inr (), buf\<lparr>data_p := Some (hnext h), capacity := cap, gsize := n\<rparr>,
          hfree b (hwrite (hnext h) ?new h1))"
        by (rule ensure_post_move [OF ok, where cells = ?new])
          (use new cap n block bn s in \<open>auto simp: hfree_wf hwrite_wf\<close>)
      then show ?thesis using n nn Inr a block new c fr by (simp add: ensure_capacity_copy_def Let_def)
    qed
  qed
qed (use gbuf_ok_basic [OF ok] in \<open>auto simp: ensure_capacity_copy_def\<close>)

text \<open>Without allocation failures every request up to a gigabyte is granted.\<close>

lemma calc_capacity_granted:
  assumes ok: "gbuf_ok buf h" and "gsize buf \<le> 2 ^ 30" "0 \<le> n" "n \<le> 2 ^ 30"
  shows "\<exists>cap. calc_capacity buf n = Inr cap"
  using assms slack_of_bounds [of buf] gbuf_ok_basic [OF ok]
  by (auto simp: calc_capacity_eq add_i32_def i32_ok_def)

lemma ensure_size_granted:
  assumes ok: "gbuf_ok buf h" and no: "no_oom h" and sz: "gsize buf \<le> 2 ^ 30" "0 \<le> n" "n \<le> 2 ^ 30"
  shows "fst (ensure_size buf n h) = Inr ()"
  using calc_capacity_granted [OF ok sz] sz no ok
  by (cases rule: gbuf_okE [OF ok])
     (auto simp: ensure_size_def alloc_bytes_def HeapAlloc_def realloc_bytes_def HeapReAlloc_def Let_def halloc_no_oom)

lemma ensure_capacity_copy_granted:
  assumes ok: "gbuf_ok buf h" and wf: "heap_wf h" and no: "no_oom h"
    and sz: "gsize buf \<le> 2 ^ 30" "0 \<le> n" "n \<le> 2 ^ 30"
  shows "fst (ensure_capacity_copy buf n h) = Inr ()"
proof -
  obtain cap where c: "calc_capacity buf n = Inr cap" using calc_capacity_granted [OF ok sz] by blast
  show ?thesis
  proof (cases "n \<le> capacity buf")
    case True
    then show ?thesis using sz by (simp add: ensure_capacity_copy_def)
  next
    case False
    then have cap: "n \<le> cap" "i32_ok cap" "0 < cap"
      using calc_capacity_ge [OF c] ok gbuf_ok_basic [OF ok] by (auto simp: gbuf_ok_def)
    obtain r h1 where a: "alloc_bytes (size_t_of_int cap) h = (r, h1)" by force
    then have r: "r \<noteq> None" using no by (auto simp: alloc_bytes_def HeapAlloc_def Let_def halloc_no_oom)
    from a cap(3) cap(2) wf show ?thesis
    proof (cases rule: alloc_bytes_cases)
      case new: ok
      from ok show ?thesis
      proof (cases rule: gbuf_okE)
        case empty
        then show ?thesis using sz c a new False by (simp add: ensure_capacity_copy_def Let_def)
      next
        case (block b cells)
        let ?s = "nat (gsize buf)"
        have bn: "b \<noteq> hnext h" using block new by auto
        have s: "?s \<le> length cells" "?s \<le> nat cap" using block gbuf_ok_basic [OF ok] cap False by auto
        have c': "copy_bytes (Some (hnext h)) 0 (data_p buf) 0 ?s h1
            = Inr (hwrite (hnext h) (take ?s cells @ replicate (nat cap - ?s) None) h1)"
          using copy_bytes_spec [of h1 b cells "hnext h" "replicate (nat cap) None" 0 ?s 0] block new bn s
          by simp
        then show ?thesis using sz c a new False block bn
          by (simp add: ensure_capacity_copy_def Let_def free_bytes_def HeapFree_def)
      qed
    qed (use r in simp)
  qed
qed

section \<open>The contract as an interface\<close>

locale ensurer =
  fixes ensure :: "gbuf \<Rightarrow> int \<Rightarrow> bheap \<Rightarrow> unit res \<times> gbuf \<times> bheap"
  assumes ensure_meets: "gbuf_ok buf h \<Longrightarrow> heap_wf h \<Longrightarrow> ensure_post buf n h (ensure buf n h)"
    and ensure_granted: "gbuf_ok buf h \<Longrightarrow> heap_wf h \<Longrightarrow> no_oom h \<Longrightarrow> gsize buf \<le> 2 ^ 30 \<Longrightarrow>
      0 \<le> n \<Longrightarrow> n \<le> 2 ^ 30 \<Longrightarrow> fst (ensure buf n h) = Inr ()"
begin

lemma ensure_ok:
  assumes "gbuf_ok buf h" "heap_wf h" "ensure buf n h = (r, buf', h')"
  shows "gbuf_ok buf' h'" "heap_wf h'" "hfail h' = hfail h" "other_blocks_kept buf h h'"
    "r = Inr u \<Longrightarrow> gsize buf' = n \<and> 0 \<le> n"
    "r = Inr u \<Longrightarrow> take (nat (gsize buf)) (contents buf' h') = take (nat n) (contents buf h)"
    "r = Inr u \<Longrightarrow> data_p buf' = data_p buf \<or> (\<exists>b. data_p buf' = Some b \<and> hblk h b = None)"
    "r = Inl e \<Longrightarrow> buf' = buf \<and> contents buf' h' = contents buf h"
  using ensure_meets [OF assms(1,2), of n] assms(3) by (auto simp: ensure_post_def)

text \<open>
  Filling the buffer from \<open>off\<close> on after it has been sized: the writes stay inside the block and
  the contents are what was there up to \<open>off\<close> followed by the source.
\<close>

lemma write_after_ensure:
  assumes ok: "gbuf_ok buf h" "heap_wf h" and en: "ensure buf n h = (Inr u, buf', h')"
    and n: "0 < n" "off \<le> nat n"
    and src: "hblk h s = Some cells" "data_p buf \<noteq> Some s" "soff + (nat n - off) \<le> length cells"
  shows "\<exists>h''. copy_bytes (data_p buf') off (Some s) soff (nat n - off) h' = Inr h''
    \<and> contents buf' h'' = take off (contents buf' h') @ take (nat n - off) (drop soff cells)
    \<and> gbuf_ok buf' h'' \<and> heap_wf h'' \<and> hfail h'' = hfail h \<and> other_blocks_kept buf h h''"
proof -
  note e = ensure_ok [OF ok en]
  have size: "gsize buf' = n" using e(5) by auto
  then have "capacity buf' \<noteq> 0" using n gbuf_ok_basic [OF e(1)] by auto
  with e(1) obtain b dst where b: "data_p buf' = Some b" "hblk h' b = Some dst"
    "length dst = nat (capacity buf')" "contents buf' h' = take (nat n) dst" "0 < capacity buf'"
    using size by (cases rule: gbuf_okE [OF e(1)]) auto
  have sb: "s \<noteq> b" using e(7) src(1,2) b(1) by auto
  have s': "hblk h' s = Some cells" using e(4) src by (simp add: other_blocks_kept_def)
  have nd: "nat n \<le> length dst" using b(3) size gbuf_ok_basic [OF e(1)] by auto
  let ?new = "take off dst @ take (nat n - off) (drop soff cells) @ drop (nat n) dst"
  have c: "copy_bytes (data_p buf') off (Some s) soff (nat n - off) h' = Inr (hwrite b ?new h')"
    using copy_bytes_spec [OF s' b(2) sb, of soff "nat n - off" off] src(3) nd n b(1) by simp
  have len: "length ?new = length dst" using src(3) nd n by simp
  have off: "take off (contents buf' h') = take off dst" using b(4) n by (simp add: min_def)
  have "length (take (nat n - off) (drop soff cells)) = nat n - off" using src(3) by simp
  then have "take (nat n) ?new = take off dst @ take (nat n - off) (drop soff cells)"
    using n nd by simp
  then have cont: "contents buf' (hwrite b ?new h')
      = take off (contents buf' h') @ take (nat n - off) (drop soff cells)"
    using b size off by (simp add: contents_def)
  have "gbuf_ok buf' (hwrite b ?new h')"
    using e(1) b len by (simp add: gbuf_ok_def)
  moreover have "heap_wf (hwrite b ?new h')" using e(2) b by (simp add: hwrite_wf)
  moreover have "other_blocks_kept buf h (hwrite b ?new h')"
    using e(4) e(7) b(1) by (auto simp: other_blocks_kept_def)
  ultimately show ?thesis using c cont e(3) by auto
qed

end

interpretation sized: ensurer ensure_size
  by unfold_locales (auto intro: ensure_size_post ensure_size_granted)

interpretation copied: ensurer ensure_capacity_copy
  by unfold_locales (auto intro: ensure_capacity_copy_post ensure_capacity_copy_granted)

section \<open>Appending\<close>

lemma buf_append_ok:
  assumes ok: "gbuf_ok buf h" "heap_wf h" and len: "0 < len" and i: "i32_ok (gsize buf + len)"
    and src: "hblk h s = Some cells" "data_p buf \<noteq> Some s" "soff + nat len \<le> length cells"
    and out: "buf_append buf (Some s) soff len h = (r, buf', h')"
  shows "gbuf_ok buf' h' \<and> heap_wf h' \<and> hfail h' = hfail h \<and> other_blocks_kept buf h h'
    \<and> (case r of
         Inl e \<Rightarrow> buf' = buf \<and> contents buf' h' = contents buf h
       | Inr _ \<Rightarrow> gsize buf' = gsize buf + len
           \<and> contents buf' h' = contents buf h @ take (nat len) (drop soff cells))"
proof -
  let ?n = "gsize buf + len"
  have n: "0 < ?n" "nat ?n = nat (gsize buf) + nat len" "nat (gsize buf) \<le> nat ?n"
    "nat ?n - nat (gsize buf) = nat len"
    using gbuf_ok_basic [OF ok(1)] len by (auto simp: nat_add_distrib)
  obtain r1 b1 h1 where e: "ensure_capacity_copy buf ?n h = (r1, b1, h1)" by (metis prod_cases3)
  note p = copied.ensure_ok [OF ok e]
  show ?thesis
  proof (cases r1)
    case (Inl x)
    with out e len i have "r = Inl x" "buf' = b1" "h' = h1"
      by (auto simp: buf_append_def add_i32_def Let_def)
    with p(1-4) p(8) [OF Inl] show ?thesis by auto
  next
    case (Inr u)
    from copied.write_after_ensure [OF ok e [unfolded Inr] n(1) n(3) src(1,2), of soff] src(3) n(4)
    obtain h2 where c: "copy_bytes (data_p b1) (nat (gsize buf)) (Some s) soff (nat len) h1 = Inr h2"
      "contents b1 h2 = take (nat (gsize buf)) (contents b1 h1) @ take (nat len) (drop soff cells)"
      "gbuf_ok b1 h2" "heap_wf h2" "hfail h2 = hfail h" "other_blocks_kept buf h h2"
      by auto
    have "take (nat (gsize buf)) (contents b1 h1) = contents buf h"
      using p(6) [OF Inr] length_contents [OF ok(1)] n by simp
    moreover have "r = Inr ()" "buf' = b1" "h' = h2"
      using out e len i Inr p(5) [OF Inr] n(1) c(1) by (auto simp: buf_append_def add_i32_def Let_def)
    ultimately show ?thesis using c p(5) [OF Inr] by simp
  qed
qed

lemma buf_append_granted:
  assumes ok: "gbuf_ok buf h" "heap_wf h" "no_oom h" and len: "0 < len" "gsize buf + len \<le> 2 ^ 30"
    and src: "hblk h s = Some cells" "data_p buf \<noteq> Some s" "soff + nat len \<le> length cells"
  shows "fst (buf_append buf (Some s) soff len h) = Inr ()"
proof -
  let ?n = "gsize buf + len"
  have n: "0 < ?n" "nat (gsize buf) \<le> nat ?n" "nat ?n - nat (gsize buf) = nat len" "i32_ok ?n" "gsize buf \<le> 2 ^ 30"
    using gbuf_ok_basic [OF ok(1)] len by (auto simp: nat_add_distrib i32_ok_def)
  obtain b1 h1 where e: "ensure_capacity_copy buf ?n h = (Inr (), b1, h1)"
    using copied.ensure_granted [OF ok n(5), of ?n] n len(2)
    by (cases "ensure_capacity_copy buf ?n h") auto
  from copied.write_after_ensure [OF ok(1,2) e n(1,2) src(1,2), of soff] src(3) n(3)
  obtain h2 where "copy_bytes (data_p b1) (nat (gsize buf)) (Some s) soff (nat len) h1 = Inr h2" by auto
  moreover have "gsize b1 = ?n" using copied.ensure_ok(5) [OF ok(1,2) e] by auto
  ultimately show ?thesis using e n len by (simp add: buf_append_def add_i32_def Let_def)
qed

section \<open>Runs of appends\<close>

text \<open>Appending whole blocks one after another; the run stops at the first exception.\<close>

fun append_blocks :: "gbuf \<Rightarrow> (nat \<times> int) list \<Rightarrow> bheap \<Rightarrow> unit res \<times> gbuf \<times> bheap" where
  "append_blocks buf [] h = (Inr (), buf, h)"
| "append_blocks buf ((s, len) # cs) h =
     (case buf_append buf (Some s) 0 len h of
        (Inl e, buf', h') \<Rightarrow> (Inl e, buf', h')
      | (Inr _, buf', h') \<Rightarrow> append_blocks buf' cs h')"

definition chunk_ok :: "gbuf \<Rightarrow> bheap \<Rightarrow> nat \<times> int \<Rightarrow> bool" where
  "chunk_ok buf h c \<longleftrightarrow> 0 \<le> snd c \<and> data_p buf \<noteq> Some (fst c)
     \<and> (case hblk h (fst c) of None \<Rightarrow> False | Some cells \<Rightarrow> nat (snd c) \<le> length cells)"

definition chunk_bytes :: "bheap \<Rightarrow> nat \<times> int \<Rightarrow> cell list" where
  "chunk_bytes h c = (case hblk h (fst c) of None \<Rightarrow> [] | Some cells \<Rightarrow> take (nat (snd c)) cells)"

lemma buf_append_data:
  "gbuf_ok buf h \<Longrightarrow> heap_wf h \<Longrightarrow> buf_append buf src soff len h = (r, buf', h') \<Longrightarrow>
   data_p buf' = data_p buf \<or> (\<exists>b. data_p buf' = Some b \<and> hblk h b = None)"
proof -
  assume ok: "gbuf_ok buf h" "heap_wf h" and a: "buf_append buf src soff len h = (r, buf', h')"
  obtain r1 b1 h1 where e: "ensure_capacity_copy buf (gsize buf + len) h = (r1, b1, h1)"
    by (metis prod_cases3)
  have "b1 = buf \<or> data_p b1 = data_p buf \<or> (\<exists>b. data_p b1 = Some b \<and> hblk h b = None)"
    using copied.ensure_ok(7,8) [OF ok e] by (cases r1) auto
  then show ?thesis
    using a e by (auto simp: buf_append_def add_i32_def Let_def split: sum.splits if_splits)
qed

lemma append_blocks_granted:
  "gbuf_ok buf h \<Longrightarrow> heap_wf h \<Longrightarrow> no_oom h \<Longrightarrow> list_all (chunk_ok buf h) cs \<Longrightarrow>
   gsize buf + sum_list (map snd cs) \<le> 2 ^ 30 \<Longrightarrow>
   \<exists>buf' h'. append_blocks buf cs h = (Inr (), buf', h') \<and> gbuf_ok buf' h' \<and> heap_wf h'
     \<and> contents buf' h' = contents buf h @ concat (map (chunk_bytes h) cs)"
proof (induction cs arbitrary: buf h)
  case (Cons c cs)
  obtain s len where c: "c = (s, len)" by force
  have ck: "0 \<le> len" "data_p buf \<noteq> Some s" using Cons.prems(4) by (auto simp: c chunk_ok_def)
  from Cons.prems(4) obtain cells where cells: "hblk h s = Some cells" "nat len \<le> length cells"
    by (auto simp: c chunk_ok_def split: option.splits)
  have nonneg: "0 \<le> sum_list (map snd cs)"
    using Cons.prems(4) by (intro sum_list_nonneg) (auto simp: chunk_ok_def list_all_iff)
  show ?case
  proof (cases "len = 0")
    case True
    then show ?thesis using Cons.IH [OF Cons.prems(1-3)] Cons.prems(4,5)
      by (simp add: c buf_append_def chunk_bytes_def cells)
  next
    case False
    then have len: "0 < len" "gsize buf + len \<le> 2 ^ 30" "i32_ok (gsize buf + len)"
      using ck nonneg Cons.prems(5) gbuf_ok_basic [OF Cons.prems(1)] by (auto simp: c i32_ok_def)
    obtain r buf1 h1 where a: "buf_append buf (Some s) 0 len h = (r, buf1, h1)" by (metis prod_cases3)
    have r: "r = Inr ()"
      using buf_append_granted [OF Cons.prems(1-3) len(1,2) cells(1) ck(2), of 0] cells(2) a by simp
    have ok1: "gbuf_ok buf1 h1" "heap_wf h1" "no_oom h1" "other_blocks_kept buf h h1"
      "gsize buf1 = gsize buf + len" "contents buf1 h1 = contents buf h @ take (nat len) cells"
      using buf_append_ok [OF Cons.prems(1,2) len(1,3) cells(1) ck(2) _ a] cells(2) r Cons.prems(3)
      by (auto simp: no_oom_def)
    have live: "chunk_ok buf1 h1 d \<and> chunk_bytes h1 d = chunk_bytes h d" if "d \<in> set cs" for d
    proof -
      have d: "chunk_ok buf h d" using that Cons.prems(4) by (simp add: list_all_iff)
      then have "hblk h1 (fst d) = hblk h (fst d)" "hblk h (fst d) \<noteq> None"
        using ok1(4) by (auto simp: chunk_ok_def other_blocks_kept_def split: option.splits)
      with d buf_append_data [OF Cons.prems(1,2) a] show ?thesis
        by (auto simp: chunk_ok_def chunk_bytes_def)
    qed
    have "\<exists>buf' h'. append_blocks buf1 cs h1 = (Inr (), buf', h') \<and> gbuf_ok buf' h' \<and> heap_wf h'
        \<and> contents buf' h' = contents buf1 h1 @ concat (map (chunk_bytes h1) cs)"
      by (rule Cons.IH [OF ok1(1-3)]) (use live Cons.prems(5) ok1(5) in \<open>auto simp: c list_all_iff\<close>)
    moreover have "map (chunk_bytes h1) cs = map (chunk_bytes h) cs" using live by simp
    moreover have "chunk_bytes h c = take (nat len) cells" by (simp add: c chunk_bytes_def cells)
    ultimately show ?thesis using ok1(6) a r by (auto simp: c)
  qed
qed simp

section \<open>Properties\<close>

text \<open>The growth policy in closed form: a buffer that must hold \<open>need\<close> bytes gets \<open>need\<close>
  plus an eighth of the old size clamped to 4..1024 (mode 0), at least 64 (mode 1) or
  nothing (mode 2), and never less than \<open>min_capacity_\<close>; another mode throws \<open>length_error\<close>.\<close>

theorem calc_capacity_policy:
  "calc_capacity buf need =
     (if growth_mode buf \<notin> {0, 1, 2} then Inl LengthError
      else if \<not> i32_ok (need + slack_of buf) then Inl SignedOverflow
      else Inr (max (min_capacity buf) (need + slack_of buf)))"
  by (simp add: calc_capacity_eq calc_capacity_mode add_i32_def)

text \<open> C13: Both \<open>ensure_size\<close> and \<open>ensure_capacity_copy\<close> on a well-formed buffer, for every size
  and every behaviour of the allocator: the buffer stays well-formed and nobody else's block
  changes; on success the size is the requested one and the old contents are kept as far as
  they fit; on a throw the buffer is unchanged. Without allocation failures a request up
  to \<open>2 ^ 30\<close> never throws.\<close>

theorem ensure_contract:
  assumes "gbuf_ok buf h" and "heap_wf h"
  shows "ensure_post buf n h (ensure_size buf n h) \<and> ensure_post buf n h (ensure_capacity_copy buf n h)
    \<and> (no_oom h \<longrightarrow> gsize buf \<le> 2 ^ 30 \<longrightarrow> 0 \<le> n \<longrightarrow> n \<le> 2 ^ 30 \<longrightarrow>
        fst (ensure_size buf n h) = Inr () \<and> fst (ensure_capacity_copy buf n h) = Inr ())"
  using sized.ensure_meets copied.ensure_meets sized.ensure_granted copied.ensure_granted assms by blast

definition demo_heap :: bheap where
  "demo_heap = \<lparr>hblk = [0 \<mapsto> [Some 7, Some 8, None, None], 1 \<mapsto> [Some 1, Some 2, Some 3]],
                hnext = 2, hfail = (\<lambda>_ _. False)\<rparr>"

definition demo_buf :: gbuf where
  "demo_buf = \<lparr>data_p = Some 0, gsize = 2, capacity = 4, min_capacity = 0, growth_mode = 0\<rparr>"

lemma demo_ok: "gbuf_ok demo_buf demo_heap" "heap_wf demo_heap" "no_oom demo_heap"
  by (auto simp: gbuf_ok_def demo_buf_def demo_heap_def heap_wf_def no_oom_def i32_ok_def split: if_splits)

theorem ensure_contract_witness:
  "ensure_post demo_buf 9 demo_heap (ensure_size demo_buf 9 demo_heap)
   \<and> fst (ensure_capacity_copy demo_buf 9 demo_heap) = Inr ()"
  using ensure_contract [OF demo_ok(1,2), of 9] demo_ok(3) by (simp add: demo_buf_def)



text \<open>The source of an append must not be the buffer's own block: when the buffer has to grow,
  the block is freed before the copy and the copy reads freed memory; the old buffer is left.\<close>

theorem append_own_block_freed:
  assumes "gbuf_ok buf h" and "heap_wf h" and "no_oom h" and "data_p buf = Some b"
    and "0 < capacity buf" and "capacity buf < gsize buf + len" and "gsize buf + len \<le> 2 ^ 30"
  shows "fst (buf_append buf (Some b) 0 len h) = Inl UseAfterFree"
proof -
  have ok: "0 \<le> gsize buf" "gsize buf \<le> capacity buf" using gbuf_ok_basic [OF assms(1)] by auto
  then have len: "0 < len" "i32_ok (gsize buf + len)" using assms(5-7) by (auto simp: i32_ok_def)
  obtain cap where c: "calc_capacity buf (gsize buf + len) = Inr cap"
    using calc_capacity_granted [OF assms(1), of "gsize buf + len"] ok assms(6,7) len by auto
  obtain b1 h1 where e: "ensure_capacity_copy buf (gsize buf + len) h = (Inr (), b1, h1)"
    using copied.ensure_granted [OF assms(1-3), of "gsize buf + len"] ok len assms(7,6)
    by (cases "ensure_capacity_copy buf (gsize buf + len) h") auto
  then have "hblk h1 b = None" "gsize b1 = gsize buf + len"
    using c ok assms(4-6) len
    by (auto simp: ensure_capacity_copy_def Let_def free_bytes_def HeapFree_def
        split: sum.splits prod.splits option.splits if_splits)
  moreover obtain m where "nat len = Suc m" using len by (metis gr0_implies_Suc zero_less_nat_eq)
  ultimately show ?thesis using e len by (simp add: buf_append_def add_i32_def load_byte_def)
qed

theorem append_own_block_freed_witness:
  "fst (buf_append demo_buf (Some 0) 0 3 demo_heap) = Inl UseAfterFree"
  by (rule append_own_block_freed [OF demo_ok]) (simp_all add: demo_buf_def)

end
