(* ===== verification/Net.thy ===== *)
theory Net
  imports Frame
begin

text \<open>
  Which sockets belong to the game's servers: \<open>src/game/net/socket_trace.cpp\<close> (the table of
  tracked sockets and the last socket object seen), \<open>src/game/server_override.cpp\<close> (the
  redirection of the game server's address) and the port that \<open>src/ProudNet/TcpTrace.cpp\<close>
  logs a chunk under.

  \<open>getpeername\<close> is the argument \<open>gp\<close>: for a socket the address family and the raw
  \<open>sin_port\<close>, or \<open>None\<close> when the call fails. \<open>inet_addr\<close> is an argument too. The hash table is a
  list of ports with the list of sockets of each: the order in which it is iterated is not
  specified, and the theorems hold for every order. A socket object is known by its number.
\<close>

type_synonym socket = u32
type_synonym getpeername = "socket \<Rightarrow> (u16 \<times> u16) option"

definition INVALID_SOCKET :: socket where "INVALID_SOCKET = - 1"
definition AF_INET :: u16 where "AF_INET = 2"

definition ntohs :: "u16 \<Rightarrow> u16" where
  "ntohs w = push_bit 8 w OR drop_bit 8 w"

definition kEntryPort :: u16 where "kEntryPort = 7000"
definition kGameLegPort :: u16 where "kGameLegPort = 27380"
definition kProbePort :: u16 where "kProbePort = 20009"

lemmas net_consts = INVALID_SOCKET_def AF_INET_def kEntryPort_def kGameLegPort_def kProbePort_def

section \<open>Tracked sockets\<close>

record net_state =
  sockets_by_port :: "(u16 \<times> socket list) list"
  last_fast_ctx :: "nat option"

definition is_pn_track_port :: "u16 \<Rightarrow> bool" where
  "is_pn_track_port port \<longleftrightarrow> port = kEntryPort \<or> port = kGameLegPort \<or> port = kProbePort"

definition peer_port :: "getpeername \<Rightarrow> socket \<Rightarrow> u16" where
  "peer_port gp s =
     (if s = INVALID_SOCKET then 0
      else (case gp s of
          None \<Rightarrow> 0
        | Some (family, sin_port) \<Rightarrow> if family \<noteq> AF_INET then 0 else ntohs sin_port))"

definition is_tracked_pn_socket :: "getpeername \<Rightarrow> net_state \<Rightarrow> socket \<Rightarrow> bool" where
  "is_tracked_pn_socket gp st s =
     (if s = INVALID_SOCKET then False
      else if is_pn_track_port (peer_port gp s) then True
      else list_ex (\<lambda>(port, socks). s \<in> set socks) (sockets_by_port st))"

definition pn_log_port :: "getpeername \<Rightarrow> net_state \<Rightarrow> socket \<Rightarrow> u16" where
  "pn_log_port gp st s =
     (let peer = peer_port gp s
      in if peer \<noteq> 0 then peer
         else (case filter (\<lambda>(port, socks). s \<in> set socks) (sockets_by_port st) of
             [] \<Rightarrow> 0 | (port, _) # _ \<Rightarrow> port))"

fun table_insert :: "u16 \<Rightarrow> socket \<Rightarrow> (u16 \<times> socket list) list \<Rightarrow> (u16 \<times> socket list) list" where
  "table_insert port s [] = [(port, [s])]"
| "table_insert port s ((p, socks) # es) =
     (if p = port then (p, List.insert s socks) # es else (p, socks) # table_insert port s es)"

definition track_connect :: "socket \<Rightarrow> u16 \<Rightarrow> net_state \<Rightarrow> net_state" where
  "track_connect s port st =
     (if s \<noteq> INVALID_SOCKET \<and> is_pn_track_port port
      then st\<lparr>sockets_by_port := table_insert port s (sockets_by_port st)\<rparr> else st)"

definition net_log_key :: "getpeername \<Rightarrow> socket \<Rightarrow> int" where
  "net_log_key gp s = (let port = peer_port gp s in if port \<noteq> 0 then uint port else sint s)"

definition is_entry_socket :: "getpeername \<Rightarrow> net_state \<Rightarrow> socket \<Rightarrow> bool" where
  "is_entry_socket gp st s =
     (if s = INVALID_SOCKET then False
      else (case map_of (sockets_by_port st) kEntryPort of
          Some socks \<Rightarrow> s \<in> set socks \<or> peer_port gp s = kEntryPort
        | None \<Rightarrow> peer_port gp s = kEntryPort))"

definition pick_tracked_entry_socket :: "getpeername \<Rightarrow> net_state \<Rightarrow> socket" where
  "pick_tracked_entry_socket gp st =
     (case map_of (sockets_by_port st) kEntryPort of
        None \<Rightarrow> INVALID_SOCKET
      | Some socks \<Rightarrow>
          (case filter (\<lambda>t. peer_port gp t = kEntryPort) socks of
             [] \<Rightarrow> INVALID_SOCKET | t # _ \<Rightarrow> t))"

definition note_fast_socket_ctx :: "nat option \<Rightarrow> net_state \<Rightarrow> net_state" where
  "note_fast_socket_ctx ctx st = st\<lparr>last_fast_ctx := ctx\<rparr>"

text \<open>
  What \<open>VirtualQuery\<close> tells of a page: its protection, or nothing when the call fails. \<open>slot\<close> answers for a socket
  object the page of its handle and the handle.
\<close>

type_synonym page = "u32 option"

definition PAGE_READONLY :: u32 where "PAGE_READONLY = 0x02"
definition PAGE_READWRITE :: u32 where "PAGE_READWRITE = 0x04"
definition PAGE_WRITECOPY :: u32 where "PAGE_WRITECOPY = 0x08"
definition PAGE_EXECUTE_READ :: u32 where "PAGE_EXECUTE_READ = 0x20"
definition PAGE_EXECUTE_READWRITE :: u32 where "PAGE_EXECUTE_READWRITE = 0x40"
definition PAGE_EXECUTE_WRITECOPY :: u32 where "PAGE_EXECUTE_WRITECOPY = 0x80"

lemmas page_defs = PAGE_READONLY_def PAGE_READWRITE_def PAGE_WRITECOPY_def PAGE_EXECUTE_READ_def PAGE_EXECUTE_READWRITE_def
  PAGE_EXECUTE_WRITECOPY_def

definition slot_memory_readable :: "page \<Rightarrow> bool" where
  "slot_memory_readable slot =
     (case slot of
        None \<Rightarrow> False
      | Some p \<Rightarrow> p AND (PAGE_READONLY OR PAGE_READWRITE OR PAGE_EXECUTE_READ OR PAGE_EXECUTE_READWRITE OR PAGE_WRITECOPY
          OR PAGE_EXECUTE_WRITECOPY) \<noteq> 0)"

definition page_writable :: "page \<Rightarrow> bool" where
  "page_writable page =
     (case page of
        None \<Rightarrow> False
      | Some p \<Rightarrow> p AND (PAGE_READWRITE OR PAGE_EXECUTE_READWRITE OR PAGE_WRITECOPY OR PAGE_EXECUTE_WRITECOPY) \<noteq> 0)"

definition can_write_socket_slot :: "page \<Rightarrow> page \<Rightarrow> bool" where
  "can_write_socket_slot ctx slot = (if \<not> page_writable ctx then False else if \<not> page_writable slot then False else True)"

definition read_fast_socket_slot :: "(nat \<Rightarrow> page \<times> socket) \<Rightarrow> nat option \<Rightarrow> socket" where
  "read_fast_socket_slot slot ctx =
     (case ctx of
        None \<Rightarrow> INVALID_SOCKET
      | Some i \<Rightarrow> (let (page, s) = slot i in if \<not> slot_memory_readable page then INVALID_SOCKET else s))"

definition socket_from_last_fast_ctx :: "(nat \<Rightarrow> page \<times> socket) \<Rightarrow> net_state \<Rightarrow> socket" where
  "socket_from_last_fast_ctx slot st = read_fast_socket_slot slot (last_fast_ctx st)"

definition fast_socket_log_port :: "getpeername \<Rightarrow> (nat \<Rightarrow> page \<times> socket) \<Rightarrow> (nat \<Rightarrow> u16) \<Rightarrow> nat option \<Rightarrow> u16" where
  "fast_socket_log_port gp slot addr_port ctx =
     (case ctx of
        None \<Rightarrow> 0
      | Some i \<Rightarrow>
          (let peer = peer_port gp (read_fast_socket_slot slot ctx)
           in if peer \<noteq> 0 then peer else addr_port i))"

definition sync_fast_socket_handle :: "getpeername \<Rightarrow> net_state \<Rightarrow> page \<Rightarrow> page \<Rightarrow> socket \<Rightarrow> socket" where
  "sync_fast_socket_handle gp st ctx_page slot_page slot_sock =
     (if \<not> can_write_socket_slot ctx_page slot_page then slot_sock
      else (let slot_peer = peer_port gp slot_sock
            in if slot_peer = kGameLegPort \<or> slot_peer = kProbePort then slot_sock
               else if slot_peer = kEntryPort then slot_sock
               else (let entry = pick_tracked_entry_socket gp st
                     in if entry = INVALID_SOCKET then slot_sock
                        else if slot_sock = entry then slot_sock
                        else entry)))"

section \<open>Server override\<close>

text \<open>
  The two static variables are filled on first use and then kept: \<open>None\<close> is not yet filled.
\<close>

record override_config =
  server_override :: bool
  server_ip :: string

record override_statics =
  ov_pn_address :: "u32 option"
  ov_target :: "u32 option"

definition kEntryHost :: string where "kEntryHost = ''137.184.201.52''"
definition INADDR_NONE :: u32 where "INADDR_NONE = 0xFFFFFFFF"

definition is_pn_hostname :: "string \<Rightarrow> bool" where
  "is_pn_hostname hostname \<longleftrightarrow> hostname = kEntryHost"

definition is_pn_address :: "(string \<Rightarrow> u32) \<Rightarrow> u32 \<Rightarrow> override_statics \<Rightarrow> bool \<times> override_statics" where
  "is_pn_address inet_addr ipv4 os =
     (case ov_pn_address os of
        Some a \<Rightarrow> (ipv4 = a, os)
      | None \<Rightarrow> (ipv4 = inet_addr kEntryHost, os\<lparr>ov_pn_address := Some (inet_addr kEntryHost)\<rparr>))"

definition is_pn_port :: "u16 \<Rightarrow> bool" where
  "is_pn_port port \<longleftrightarrow> port = kEntryPort \<or> port = kGameLegPort \<or> port = kProbePort"

definition get_target_address :: "(string \<Rightarrow> u32) \<Rightarrow> override_config \<Rightarrow> override_statics \<Rightarrow> u32 \<times> override_statics" where
  "get_target_address inet_addr cfg os =
     (case ov_target os of
        Some a \<Rightarrow> (a, os)
      | None \<Rightarrow> (inet_addr (server_ip cfg), os\<lparr>ov_target := Some (inet_addr (server_ip cfg))\<rparr>))"

definition override_active :: "(string \<Rightarrow> u32) \<Rightarrow> override_config \<Rightarrow> override_statics \<Rightarrow> bool \<times> override_statics" where
  "override_active inet_addr cfg os =
     (if \<not> server_override cfg then (False, os)
      else if server_ip cfg = [] then (False, os)
      else (let (t, os') = get_target_address inet_addr cfg os in (t \<noteq> INADDR_NONE, os')))"

definition remap_host :: "(string \<Rightarrow> u32) \<Rightarrow> override_config \<Rightarrow> string \<Rightarrow> override_statics \<Rightarrow> string \<times> override_statics" where
  "remap_host inet_addr cfg host os =
     (let (active, os') = override_active inet_addr cfg os
      in if \<not> active then (host, os')
         else if is_pn_hostname host then (server_ip cfg, os')
         else (host, os'))"

record sockaddr_in =
  sin_port :: u16
  s_addr :: u32

definition remap_sockaddr_in :: "(string \<Rightarrow> u32) \<Rightarrow> override_config \<Rightarrow> sockaddr_in \<Rightarrow> override_statics
    \<Rightarrow> bool \<times> sockaddr_in \<times> override_statics" where
  "remap_sockaddr_in inet_addr cfg sa os =
     (let (active, os1) = override_active inet_addr cfg os
      in if \<not> active then (False, sa, os1)
         else (let (pn, os2) = is_pn_address inet_addr (s_addr sa) os1
               in if pn \<and> is_pn_port (ntohs (sin_port sa)) then
                    (let (t, os3) = get_target_address inet_addr cfg os2
                     in (True, sa\<lparr>s_addr := t\<rparr>, os3))
                  else (False, sa, os2)))"

section \<open>The port a chunk is logged under\<close>

definition resolve_log_port :: "getpeername \<Rightarrow> (nat \<Rightarrow> page \<times> socket) \<Rightarrow> (nat \<Rightarrow> u16) \<Rightarrow> net_state
    \<Rightarrow> socket \<Rightarrow> nat option \<Rightarrow> u16" where
  "resolve_log_port gp slot addr_port st sock ctx =
     (let port = pn_log_port gp st sock
      in if is_pn_track_port port then port
         else (let port1 = (if ctx \<noteq> None then fast_socket_log_port gp slot addr_port ctx else port)
               in if ctx \<noteq> None \<and> is_pn_track_port port1 then port1
                  else (let last = last_fast_ctx st;
                            port2 = (if last \<noteq> None then fast_socket_log_port gp slot addr_port last else port1)
                        in if last \<noteq> None \<and> is_pn_track_port port2 then port2
                           else if is_tracked_pn_socket gp st sock then pn_log_port gp st sock
                           else port2)))"

definition should_log_pn_chunk :: "getpeername \<Rightarrow> net_state \<Rightarrow> socket \<Rightarrow> u16 \<Rightarrow> nat option \<Rightarrow> bool" where
  "should_log_pn_chunk gp st sock port ctx =
     (if is_pn_track_port port then True
      else if is_tracked_pn_socket gp st sock then True
      else if ctx \<noteq> None then True
      else if last_fast_ctx st \<noteq> None then True
      else False)"

text \<open>
  \<open>log_chunk\<close>: what is written is the line's port, chunk size, the frames found and the
  unparsed rest; nothing is written for the keep-alive when it is silenced.
\<close>

definition kMaxFramesPerLine :: size_t where "kMaxFramesPerLine = 32"
definition kOpKeepalive :: u8 where "kOpKeepalive = 0x1C"

record trace_line =
  tl_port :: u16
  tl_inbound :: bool
  tl_chunk :: size_t
  tl_frames :: "parsed_frame list"
  tl_incomplete :: size_t

definition trace_log_line :: "bool \<Rightarrow> trace_line \<Rightarrow> trace_line option" where
  "trace_log_line silent_keepalive l =
     (if silent_keepalive \<and> (case tl_frames l of [f] \<Rightarrow> opcode (inner f) = kOpKeepalive | _ \<Rightarrow> False)
      then None else Some l)"

definition log_chunk :: "getpeername \<Rightarrow> (nat \<Rightarrow> page \<times> socket) \<Rightarrow> (nat \<Rightarrow> u16) \<Rightarrow> bool \<Rightarrow> net_state
    \<Rightarrow> socket \<Rightarrow> u8 list option \<Rightarrow> size_t \<Rightarrow> bool \<Rightarrow> nat option \<Rightarrow> (trace_line option \<times> net_state) option" where
  "log_chunk gp slot addr_port silent st sock data len inbound ctx =
     (if data = None \<or> len = 0 then Some (None, st)
      else (let port = resolve_log_port gp slot addr_port st sock ctx
            in if \<not> should_log_pn_chunk gp st sock port ctx then Some (None, st)
               else (let st' = (if is_pn_track_port port \<and> sock \<noteq> INVALID_SOCKET
                                   \<and> \<not> is_tracked_pn_socket gp st sock
                                then track_connect sock port st else st)
                     in case scan_frames data len True kMaxFramesPerLine of
                          Scan_Done fs \<Rightarrow>
                            Some (trace_log_line silent
                                \<lparr>tl_port = port, tl_inbound = inbound, tl_chunk = len, tl_frames = fs,
                                 tl_incomplete = trailing_unparsed data len (parsed_wire fs)\<rparr>, st')
                        | _ \<Rightarrow> None)))"

section \<open>Lemmas\<close>

lemma table_insert_ex:
  "list_ex (\<lambda>(p, socks). t \<in> set socks) (table_insert port s es)
     \<longleftrightarrow> t = s \<or> list_ex (\<lambda>(p, socks). t \<in> set socks) es"
  by (induction port s es rule: table_insert.induct) auto

lemma table_insert_lookup:
  "map_of (table_insert port s es) q =
     (if q = port then Some (case map_of es port of None \<Rightarrow> [s] | Some socks \<Rightarrow> List.insert s socks)
      else map_of es q)"
  by (induction port s es rule: table_insert.induct) auto

lemma peer_port_invalid [simp]: "peer_port gp INVALID_SOCKET = 0"
  by (simp add: peer_port_def)

lemma zero_not_track [simp]: "\<not> is_pn_track_port 0"
  by (simp add: is_pn_track_port_def net_consts)

lemma pick_entry_props:
  assumes "pick_tracked_entry_socket gp st = t" "t \<noteq> INVALID_SOCKET"
  shows "peer_port gp t = kEntryPort \<and> is_entry_socket gp st t
    \<and> (\<exists>socks. map_of (sockets_by_port st) kEntryPort = Some socks \<and> t \<in> set socks)"
proof -
  obtain socks where m: "map_of (sockets_by_port st) kEntryPort = Some socks"
    using assms by (auto simp: pick_tracked_entry_socket_def split: option.splits)
  obtain ts where "filter (\<lambda>t. peer_port gp t = kEntryPort) socks = t # ts"
    using assms m by (auto simp: pick_tracked_entry_socket_def split: list.splits)
  then have "t \<in> set (filter (\<lambda>t. peer_port gp t = kEntryPort) socks)" by simp
  then show ?thesis using m assms(2) by (auto simp: is_entry_socket_def)
qed

section \<open>Properties\<close>

lemma writable_readable:
  assumes "page_writable page"
  shows "slot_memory_readable page"
proof -
  obtain p where p: "page = Some p" "p AND 0xCC \<noteq> 0"
    using assms by (auto simp: page_writable_def page_defs split: option.splits)
  have "p AND 0xCC = (p AND 0xEE) AND 0xCC" by (simp add: and.assoc)
  with p show ?thesis by (auto simp: slot_memory_readable_def page_defs)
qed

text \<open>A guard page (\<open>PAGE_GUARD\<close>, 100 hexadecimal, beside \<open>PAGE_READWRITE\<close>) counts as readable; reading it raises an exception.\<close>

lemma guard_page_counts_as_readable: "slot_memory_readable (Some (0x100 OR PAGE_READWRITE))"
  by (simp add: slot_memory_readable_def page_defs)

text \<open>Polling never takes a working leg's handle away: \<open>sync_fast_socket_handle\<close> changes the
  slot only if its page and the object's can be written (and so read) and its peer is none of the three ports, and then to a tracked
  socket whose peer is the entry server; a second synchronisation changes nothing.\<close>

theorem sync_keeps_legs:
  "let s' = sync_fast_socket_handle gp st pc ps s in
     (s' = s \<or> (slot_memory_readable ps \<and> page_writable pc \<and> page_writable ps \<and> \<not> is_pn_track_port (peer_port gp s) \<and> peer_port gp s' = kEntryPort
                \<and> is_entry_socket gp st s'))
     \<and> sync_fast_socket_handle gp st pc ps s' = s'"
proof (cases "sync_fast_socket_handle gp st pc ps s = s")
  case False
  let ?e = "pick_tracked_entry_socket gp st"
  from False have e: "sync_fast_socket_handle gp st pc ps s = ?e" "?e \<noteq> INVALID_SOCKET" "page_writable pc" "page_writable ps"
    "\<not> is_pn_track_port (peer_port gp s)"
    by (auto simp: sync_fast_socket_handle_def can_write_socket_slot_def is_pn_track_port_def Let_def split: if_splits)
  with pick_entry_props [OF refl e(2)] writable_readable [OF e(4)] show ?thesis
    by (auto simp: Let_def sync_fast_socket_handle_def)
qed (simp add: Let_def)

text \<open>\<open>track_connect\<close> makes exactly its socket tracked, and only for the three server ports;
  the tracked status of every other socket stays, whatever \<open>getpeername\<close> answers.\<close>

theorem track_connect_tracks:
  "is_tracked_pn_socket gp (track_connect s port st) t \<longleftrightarrow>
     is_tracked_pn_socket gp st t \<or> t = s \<and> s \<noteq> INVALID_SOCKET \<and> is_pn_track_port port"
  by (auto simp: is_tracked_pn_socket_def track_connect_def table_insert_ex)

text \<open>\<open>remap_sockaddr_in\<close> never changes the port; it changes the address only when the override
  is active, the address is the entry host's and the port one of the three, and then to the
  configured server's address, as frozen by the first use.\<close>

theorem remap_sockaddr_spec:
  assumes "remap_sockaddr_in inet cfg sa os = (changed, sa', os')"
    and "ov_pn_address os = None \<or> ov_pn_address os = Some (inet kEntryHost)"
  shows "sin_port sa' = sin_port sa
    \<and> changed = (fst (override_active inet cfg os) \<and> s_addr sa = inet kEntryHost
                 \<and> is_pn_port (ntohs (sin_port sa)))
    \<and> s_addr sa' = (if changed then (case ov_target os of None \<Rightarrow> inet (server_ip cfg) | Some a \<Rightarrow> a)
                    else s_addr sa)"
  using assms
  by (cases "ov_target os"; cases "ov_pn_address os")
     (auto simp: remap_sockaddr_in_def override_active_def get_target_address_def is_pn_address_def Let_def
        split: if_splits)

theorem remap_sockaddr_spec_witness:
  "s_addr (fst (snd (remap_sockaddr_in (\<lambda>h. if h = kEntryHost then 5 else 9)
      \<lparr>server_override = True, server_ip = ''1.2.3.4''\<rparr> \<lparr>sin_port = 0x581B, s_addr = 5\<rparr>
      \<lparr>ov_pn_address = None, ov_target = None\<rparr>))) = 9"
proof -
  let ?in = "\<lambda>h. if h = kEntryHost then 5 else (9 :: u32)"
  let ?cfg = "\<lparr>server_override = True, server_ip = ''1.2.3.4''\<rparr>"
  let ?os = "\<lparr>ov_pn_address = None, ov_target = None\<rparr>"
  let ?sa = "\<lparr>sin_port = 0x581B, s_addr = 5\<rparr>"
  obtain c sa' os' where r: "remap_sockaddr_in ?in ?cfg ?sa ?os = (c, sa', os')" by (metis prod_cases3)
  have "ntohs 0x581B = 7000" by (simp add: ntohs_def)
  then have "is_pn_port (ntohs 0x581B)" by (simp add: is_pn_port_def net_consts)
  moreover have "fst (override_active ?in ?cfg ?os)"
    by (simp add: override_active_def get_target_address_def INADDR_NONE_def kEntryHost_def)
  ultimately show ?thesis
    using remap_sockaddr_spec [OF r] r by (simp add: kEntryHost_def)
qed

text \<open>Once the override was active, a later change of the configured address reaches host
  names but not socket addresses: \<open>remap_host\<close> answers the new address and
  \<open>remap_sockaddr_in\<close> still the old one.\<close>

theorem override_target_frozen:
  assumes "server_override cfg" and "server_override cfg'" and "server_ip cfg \<noteq> []" and "server_ip cfg' \<noteq> []"
    and "inet (server_ip cfg) \<noteq> INADDR_NONE" and "s_addr sa = inet kEntryHost" and "is_pn_port (ntohs (sin_port sa))"
    and "remap_sockaddr_in inet cfg sa \<lparr>ov_pn_address = None, ov_target = None\<rparr> = (c, sa1, os1)"
  shows "s_addr (fst (snd (remap_sockaddr_in inet cfg' sa os1))) = inet (server_ip cfg)
    \<and> fst (remap_host inet cfg' kEntryHost os1) = server_ip cfg'"
  using assms
  by (auto simp: remap_sockaddr_in_def remap_host_def override_active_def get_target_address_def is_pn_address_def
      is_pn_hostname_def)

theorem override_target_frozen_witness:
  "fst (remap_host (\<lambda>h. if h = ''1.1.1.1'' then 1 else 2) \<lparr>server_override = True, server_ip = ''2.2.2.2''\<rparr> kEntryHost
     \<lparr>ov_pn_address = Some 2, ov_target = Some 1\<rparr>) = ''2.2.2.2''"
proof -
  have "ntohs 0x581B = 7000" by (simp add: ntohs_def)
  then have p: "is_pn_port (ntohs 0x581B)" by (simp add: is_pn_port_def net_consts)
  show ?thesis
    using override_target_frozen [of "\<lparr>server_override = True, server_ip = ''1.1.1.1''\<rparr>"
        "\<lparr>server_override = True, server_ip = ''2.2.2.2''\<rparr>" "\<lambda>h. if h = ''1.1.1.1'' then 1 else 2"
        "\<lparr>sin_port = 0x581B, s_addr = 2\<rparr>" True "\<lparr>sin_port = 0x581B, s_addr = 1\<rparr>"
        "\<lparr>ov_pn_address = Some 2, ov_target = Some 1\<rparr>"] p
    by (simp add: INADDR_NONE_def kEntryHost_def remap_sockaddr_in_def override_active_def get_target_address_def
        is_pn_address_def)
qed

text \<open>Tracing a chunk below 2 GB without wrapping lengths always ends, reads inside the chunk,
  reports at most 32 frames that together fit the chunk, and tracks no socket that was not
  tracked unless its line's port is one of the three.\<close>

theorem log_chunk_safe:
  assumes "length data < 2 ^ 31" and "no_length_wrap data"
  shows "\<exists>out st'. log_chunk gp slot ap silent st sock (Some data) (word_of_nat (length data)) inb ctx = Some (out, st')
    \<and> (case out of None \<Rightarrow> True | Some l \<Rightarrow> length (tl_frames l) \<le> 32
         \<and> sum_list (map (unat \<circ> wire_bytes) (tl_frames l)) \<le> length data)
    \<and> (\<forall>t. is_tracked_pn_socket gp st' t = is_tracked_pn_socket gp st t
         \<or> t = sock \<and> is_pn_track_port (resolve_log_port gp slot ap st sock ctx))"
proof -
  obtain fs where "scan_frames (Some data) (word_of_nat (length data)) True kMaxFramesPerLine = Scan_Done fs"
    "length fs \<le> 32" "sum_list (map (unat \<circ> wire_bytes) fs) \<le> length data"
    using scan_frames_bounds [OF assms, of kMaxFramesPerLine] by (auto simp: kMaxFramesPerLine_def)
  then show ?thesis
    by (auto simp: log_chunk_def Let_def trace_log_line_def track_connect_def is_tracked_pn_socket_def table_insert_ex)
qed

theorem log_chunk_safe_witness:
  "log_chunk (\<lambda>_. None) (\<lambda>_. (None, 0)) (\<lambda>_. 7000) False \<lparr>sockets_by_port = [], last_fast_ctx = None\<rparr> 5
     (Some [0x13, 0x57, 1, 1, 0x1C]) 5 True (Some 3) \<noteq> None"
proof -
  have "no_length_wrap [0x13, 0x57, 1, 1, 0x1C]" by (simp add: no_length_wrap_def header4_at_def)
  then show ?thesis
    using log_chunk_safe [of "[0x13, 0x57, 1, 1, 0x1C]" "\<lambda>_. None" "\<lambda>_. (None, 0)" "\<lambda>_. 7000" False
        "\<lparr>sockets_by_port = [], last_fast_ctx = None\<rparr>" 5 True "Some 3"] by auto
qed

end
