(* ===== verification/FastSocket.thy ===== *)
theory FastSocket
  imports Net Growable
begin

text \<open>
  ProudNet's overlapped socket: \<open>src/ProudNet/FastSocket.cpp\<close> (\<open>recv\<close>, \<open>recv_complete\<close>,
  \<open>send\<close>, \<open>send_complete\<close>) and \<open>src/ProudNet/SocketError.cpp\<close>. The object is laid out by the
  offsets of \<open>include/ProudNet/Layout.hpp\<close>; they are disjoint except for \<open>kRecvPending\<close> and
  \<open>kRecvIssueWarning\<close>, which are the same byte, and \<open>kOverlapped\<close> / \<open>kOverlapInFlight\<close>, the
  OVERLAPPED structure and its first word.

  Winsock is a list of answers: each \<open>WSASend\<close> or \<open>WSARecv\<close> call consumes one pair of return value and
  last error. \<open>Wsa_Waiting\<close> means that the answers ran out while the retry loop was still
  running. Every call to Winsock and every log line is recorded in the trace of the world.
\<close>

section \<open>State\<close>

datatype overlap_slot = Overlapped116 | SendOverlap168

datatype net_event =
    Ev_IssueRecvDup
  | Ev_IssueSendDup
  | Ev_WSARecv socket "nat option" int
  | Ev_WSASend socket "cell list" overlap_slot
  | Ev_Query socket overlap_slot
  | Ev_NetData "nat option" u32
  | Ev_RecvComplete u32
  | Ev_SocketError int
  | Ev_StageConnecting
  | Ev_NetConnect socket string int
  | Ev_Connect socket sockaddr_in
  | Ev_ConnectError int
  | Ev_WSASendBufs socket bool size_t overlap_slot

record world =
  wheap :: bheap
  wnet :: net_state
  wstatics :: override_statics
  wretries :: u32
  wtrace :: "net_event list"

record fast_socket =
  report_enabled :: u8      \<comment> \<open>+21\<close>
  overlap_tag :: u32        \<comment> \<open>+116\<close>
  recv_pending :: u8        \<comment> \<open>+136\<close>
  recv_growable :: gbuf     \<comment> \<open>+140\<close>
  send_warning :: u8        \<comment> \<open>+188\<close>
  send_staging :: gbuf      \<comment> \<open>+192\<close>
  ap_addr :: "u8 list"      \<comment> \<open>+228\<close>
  ap_port :: u16            \<comment> \<open>+244\<close>
  recv_flags :: u32         \<comment> \<open>+248\<close>
  send_op_count :: int      \<comment> \<open>+260\<close>
  send_pending :: u8        \<comment> \<open>+298\<close>
  sock_handle :: socket     \<comment> \<open>+300\<close>

definition log_ev :: "net_event \<Rightarrow> world \<Rightarrow> world" where
  "log_ev e w = w\<lparr>wtrace := wtrace w @ [e]\<rparr>"

definition note_ctx :: "nat \<Rightarrow> world \<Rightarrow> world" where
  "note_ctx self w = w\<lparr>wnet := note_fast_socket_ctx (Some self) (wnet w)\<rparr>"

definition WSAEINVAL :: int where "WSAEINVAL = 10022"
definition WSAEINTR :: int where "WSAEINTR = 10004"
definition WSA_IO_PENDING :: int where "WSA_IO_PENDING = 997"
definition WSAEWOULDBLOCK :: int where "WSAEWOULDBLOCK = 10035"
definition kOverlapInFlightTag :: u32 where "kOverlapInFlightTag = 259"

lemmas wsa_consts = WSAEINVAL_def WSAEINTR_def WSA_IO_PENDING_def WSAEWOULDBLOCK_def

section \<open>Helpers\<close>

definition SocketReportError :: "fast_socket option \<Rightarrow> int \<Rightarrow> world \<Rightarrow> world" where
  "SocketReportError obj err w =
     (case obj of
        None \<Rightarrow> w
      | Some fs \<Rightarrow>
          if err = WSAEWOULDBLOCK \<or> err = WSA_IO_PENDING then w
          else if report_enabled fs \<noteq> 1 then w
          else log_ev (Ev_SocketError err) w)"

text \<open>\<open>getpeername\<close> answers the raw address and port bytes, \<open>None\<close> when it fails.\<close>

definition addr_port_update :: "(u8 list \<times> u16) option \<Rightarrow> fast_socket \<Rightarrow> fast_socket" where
  "addr_port_update peer fs =
     (if sock_handle fs = INVALID_SOCKET then fs
      else (case peer of
          None \<Rightarrow> fs
        | Some (addr, port) \<Rightarrow>
            fs\<lparr>ap_addr := replicate 10 0 @ [0xFF, 0xFF] @ take 4 addr, ap_port := ntohs port\<rparr>))"

definition send_staging_data :: "fast_socket \<Rightarrow> nat option" where
  "send_staging_data fs = (if gsize (send_staging fs) = 0 then None else data_p (send_staging fs))"

definition recv_staging_ptr :: "fast_socket \<Rightarrow> nat option" where
  "recv_staging_ptr fs = (if gsize (recv_growable fs) = 0 then None else data_p (recv_growable fs))"

datatype wsa_outcome = Wsa_Accepted | Wsa_Pending | Wsa_Failed int | Wsa_Waiting

fun wsa_loop :: "(int \<times> int) list \<Rightarrow> wsa_outcome \<times> nat" where
  "wsa_loop [] = (Wsa_Waiting, 0)"
| "wsa_loop ((ret, err) # answers) =
     (if ret \<ge> 0 then (Wsa_Accepted, 0)
      else if err = WSA_IO_PENDING then (Wsa_Pending, 0)
      else if err \<noteq> WSAEINTR then (Wsa_Failed err, 0)
      else (let (out, n) = wsa_loop answers in (out, Suc n)))"

definition note_retries :: "nat \<Rightarrow> world \<Rightarrow> world" where
  "note_retries n w = w\<lparr>wretries := wretries w + word_of_nat n\<rparr>"

text \<open>\<open>memcpy\<close> from bytes outside the heap (the outbound string) into a block.\<close>

definition memcpy_in :: "nat option \<Rightarrow> cell list \<Rightarrow> nat \<Rightarrow> bheap \<Rightarrow> bheap res" where
  "memcpy_in d src n h =
     (case d of
        None \<Rightarrow> Inl NullDeref
      | Some b \<Rightarrow>
          (case hblk h b of
             None \<Rightarrow> Inl UseAfterFree
           | Some dst \<Rightarrow>
               if length src < n then Inl OobRead
               else if length dst < n then Inl OobWrite
               else Inr (hwrite b (take n src @ drop n dst) h)))"

section \<open>Receiving\<close>

text \<open>The answer of \<open>WSAGetOverlappedResult\<close>, with the last error it leaves.\<close>

record overlapped_answer =
  ov_ok :: bool
  ov_transferred :: u32
  ov_flags :: u32
  ov_error :: int

definition recv_complete :: "bool \<Rightarrow> overlapped_answer \<Rightarrow> (u8 list \<times> u16) option \<Rightarrow> nat
    \<Rightarrow> u32 list option \<Rightarrow> fast_socket \<Rightarrow> world \<Rightarrow> int \<times> u32 list option \<times> fast_socket \<times> world" where
  "recv_complete no_network_logs ans peer self out fs w =
     (let w1 = note_ctx self w
      in if overlap_tag fs = kOverlapInFlightTag \<or> recv_pending fs = 0 then (0, out, fs, w1)
         else (let w2 = log_ev (Ev_Query (sock_handle fs) Overlapped116) w1
               in if \<not> ov_ok ans \<and> ov_error ans = WSA_IO_PENDING then (0, out, fs, w2)
                  else (let out' = map_option (\<lambda>o'. o'[0 := ov_flags ans,
                                  1 := (if ov_ok ans then 0 else word_of_int (ov_error ans)),
                                  5 := ov_transferred ans]) out
                        in if \<not> ov_ok ans then (0, out', fs, w2)
                           else (let fs' = addr_port_update peer (fs\<lparr>recv_pending := 0\<rparr>);
                                     w3 = (if \<not> no_network_logs \<and> ov_transferred ans > 0
                                              \<and> recv_staging_ptr fs' \<noteq> None
                                           then log_ev (Ev_NetData (recv_staging_ptr fs') (ov_transferred ans)) w2
                                           else w2)
                                 in (1, out', fs', log_ev (Ev_RecvComplete (ov_transferred ans)) w3)))))"

definition fast_recv :: "(int \<times> int) list \<Rightarrow> nat \<Rightarrow> int \<Rightarrow> fast_socket \<Rightarrow> world
    \<Rightarrow> int option res \<times> fast_socket \<times> world" where
  "fast_recv answers self len fs w =
     (let w1 = note_ctx self w;
          w2 = (if recv_pending fs \<noteq> 0 then log_ev Ev_IssueRecvDup w1 else w1)
      in if len \<le> 0 then (Inr (Some WSAEINVAL), fs, w2)
         else (case ensure_size (recv_growable fs) len (wheap w2) of
             (Inl e, buf, h) \<Rightarrow> (Inl e, fs\<lparr>recv_growable := buf\<rparr>, w2\<lparr>wheap := h\<rparr>)
           | (Inr _, buf, h) \<Rightarrow>
               (let fs1 = fs\<lparr>recv_growable := buf\<rparr>; w3 = w2\<lparr>wheap := h\<rparr>
                in case recv_staging_ptr fs1 of
                     None \<Rightarrow> (Inr (Some WSAEINVAL), fs1, w3)
                   | Some staging \<Rightarrow>
                       (let fs2 = fs1\<lparr>recv_flags := 0, recv_pending := 1\<rparr>;
                            w4 = log_ev (Ev_WSARecv (sock_handle fs2) (Some staging) len) w3;
                            (out, n) = wsa_loop answers;
                            w5 = note_retries n w4
                        in case out of
                             Wsa_Accepted \<Rightarrow> (Inr (Some 0), fs2, w5)
                           | Wsa_Pending \<Rightarrow> (Inr (Some 0), fs2, w5)
                           | Wsa_Failed e \<Rightarrow>
                               (let fs3 = fs2\<lparr>recv_pending := 0\<rparr>
                                in (Inr (Some e), fs3, SocketReportError (Some fs3) e w5))
                           | Wsa_Waiting \<Rightarrow> (Inr None, fs2, w5)))))"

section \<open>Sending\<close>

definition send_complete :: "overlapped_answer \<Rightarrow> u32 list option \<Rightarrow> fast_socket \<Rightarrow> world
    \<Rightarrow> int \<times> u32 list option \<times> fast_socket \<times> world" where
  "send_complete ans out fs w =
     (if send_pending fs = 0 then (0, out, fs, w)
      else (let w1 = log_ev (Ev_Query (sock_handle fs) SendOverlap168) w;
                set = (\<lambda>a b c. map_option (\<lambda>o'. o'[0 := a, 1 := b, 5 := c]) out)
            in if \<not> ov_ok ans then
                 (if ov_error ans = WSA_IO_PENDING then (0, out, fs, w1)
                  else (0, set 0 (word_of_int (ov_error ans)) 0, fs, w1))
               else if ov_transferred ans = 0 then (0, set 0 0 0, fs, w1)
               else (1, set 1 0 (ov_transferred ans), fs\<lparr>send_pending := 0\<rparr>, w1)))"

text \<open>\<open>data\<close> is the memory from the pointer passed on.\<close>

definition fast_send :: "(int \<times> int) list \<Rightarrow> nat \<Rightarrow> cell list \<Rightarrow> int \<Rightarrow> fast_socket \<Rightarrow> world
    \<Rightarrow> int option res \<times> fast_socket \<times> world" where
  "fast_send answers self data len fs w =
     (let w1 = note_ctx self w;
          w2 = (if send_warning fs \<noteq> 0 then log_ev Ev_IssueSendDup w1 else w1)
      in if len \<le> 0 then (Inr (Some WSAEINVAL), fs, w2)
         else (case ensure_size (send_staging fs) len (wheap w2) of
             (Inl e, buf, h) \<Rightarrow> (Inl e, fs\<lparr>send_staging := buf\<rparr>, w2\<lparr>wheap := h\<rparr>)
           | (Inr _, buf, h) \<Rightarrow>
               (let fs1 = fs\<lparr>send_staging := buf\<rparr>; w3 = w2\<lparr>wheap := h\<rparr>
                in case send_staging_data fs1 of
                     None \<Rightarrow> (Inr (Some WSAEINVAL), fs1, w3)
                   | Some staging \<Rightarrow>
                       (case memcpy_in (Some staging) data (nat len) h of
                          Inl e \<Rightarrow> (Inl e, fs1, w3)
                        | Inr h' \<Rightarrow>
                            (let fs2 = fs1\<lparr>send_warning := 1\<rparr>;
                                 w4 = log_ev (Ev_WSASend (sock_handle fs2) (take (nat len) data) Overlapped116)
                                        (w3\<lparr>wheap := h'\<rparr>);
                                 (out, n) = wsa_loop answers;
                                 w5 = note_retries n w4
                             in case out of
                                  Wsa_Accepted \<Rightarrow>
                                    (case add_i32 (send_op_count fs2) 1 of
                                       Inl e \<Rightarrow> (Inl e, fs2\<lparr>send_pending := 1\<rparr>, w5)
                                     | Inr c \<Rightarrow>
                                         (Inr (Some 0), fs2\<lparr>send_pending := 1, send_op_count := c\<rparr>, w5))
                                | Wsa_Pending \<Rightarrow>
                                    (case add_i32 (send_op_count fs2) 1 of
                                       Inl e \<Rightarrow> (Inl e, fs2\<lparr>send_pending := 0\<rparr>, w5)
                                     | Inr c \<Rightarrow>
                                         (Inr (Some 0), fs2\<lparr>send_pending := 0, send_op_count := c\<rparr>, w5))
                                | Wsa_Failed e \<Rightarrow>
                                    (let fs3 = fs2\<lparr>send_warning := 0\<rparr>
                                     in (Inr (Some e), fs3, SocketReportError (Some fs3) e w5))
                                | Wsa_Waiting \<Rightarrow> (Inr None, fs2, w5))))))"

section \<open>The retry loop\<close>

lemma wsa_loop_retries:
  "wsa_loop (replicate n (-1, WSAEINTR) @ answers) = (case wsa_loop answers of (out, k) \<Rightarrow> (out, n + k))"
  by (induction n) (auto simp: wsa_consts split: prod.splits)

lemma wsa_loop_failed: "wsa_loop as = (Wsa_Failed e, n) \<Longrightarrow> e \<noteq> WSA_IO_PENDING \<and> e \<noteq> WSAEINTR"
  by (induction as arbitrary: n rule: wsa_loop.induct) (auto split: if_splits prod.splits)

section \<open>The invariant of the object's two buffers\<close>

definition fs_ok :: "fast_socket \<Rightarrow> bheap \<Rightarrow> bool" where
  "fs_ok fs h \<longleftrightarrow> heap_wf h \<and> gbuf_ok (recv_growable fs) h \<and> gbuf_ok (send_staging fs) h
     \<and> (data_p (recv_growable fs) = data_p (send_staging fs) \<longrightarrow> data_p (recv_growable fs) = None)"

lemma gbuf_ok_live: "gbuf_ok buf h \<Longrightarrow> data_p buf = Some b \<Longrightarrow> hblk h b \<noteq> None"
  by (auto simp: gbuf_ok_def split: option.splits)

lemma gbuf_ok_kept:
  assumes "gbuf_ok other h" "other_blocks_kept buf h h'" "data_p buf = data_p other \<longrightarrow> data_p buf = None"
  shows "gbuf_ok other h' \<and> contents other h' = contents other h"
proof (cases "data_p other")
  case None
  with assms(1) show ?thesis by (auto simp: gbuf_ok_def contents_def)
next
  case (Some b)
  then have "hblk h' b = hblk h b"
    using gbuf_ok_live [OF assms(1)] assms(2,3) by (auto simp: other_blocks_kept_def)
  with assms(1) Some show ?thesis by (simp add: gbuf_ok_def contents_def)
qed

lemma data_p_apart:
  assumes "gbuf_ok other h" "data_p buf = data_p other \<longrightarrow> data_p buf = None"
    and "data_p buf' = data_p buf \<or> (\<exists>b. data_p buf' = Some b \<and> hblk h b = None)"
  shows "data_p buf' = data_p other \<longrightarrow> data_p buf' = None"
  using assms gbuf_ok_live [OF assms(1)] by (cases "data_p other") auto

text \<open>Sizing one of the two buffers leaves the invariant and the other buffer's contents.\<close>

lemma ensure_one_of_two:
  assumes ok: "gbuf_ok buf h" "gbuf_ok other h" "heap_wf h"
    and apart: "data_p buf = data_p other \<longrightarrow> data_p buf = None"
    and e: "ensure_size buf n h = (r, buf', h')"
  shows "gbuf_ok buf' h'" "gbuf_ok other h'" "heap_wf h'" "contents other h' = contents other h"
    "data_p buf' = data_p other \<longrightarrow> data_p buf' = None"
proof -
  note p = sized.ensure_ok [OF ok(1,3) e]
  show "gbuf_ok buf' h'" "heap_wf h'" by (rule p)+
  show "gbuf_ok other h'" "contents other h' = contents other h"
    using gbuf_ok_kept [OF ok(2) p(4) apart] by auto
  have "data_p buf' = data_p buf \<or> (\<exists>b. data_p buf' = Some b \<and> hblk h b = None)"
    using p(7,8) by (cases r) auto
  from data_p_apart [OF ok(2) apart this] show "data_p buf' = data_p other \<longrightarrow> data_p buf' = None" .
qed

lemma sized_block:
  assumes ok: "gbuf_ok buf h" "heap_wf h" and e: "ensure_size buf n h = (Inr u, buf', h')" and n: "0 < n"
  obtains b dst where "data_p buf' = Some b" "hblk h' b = Some dst" "nat n \<le> length dst" "gsize buf' = n"
    "length dst = nat (capacity buf')" "capacity buf' \<noteq> 0"
proof -
  note p = sized.ensure_ok [OF ok e]
  have s: "gsize buf' = n" using p(5) by auto
  from p(1) show thesis
  proof (cases rule: gbuf_okE)
    case empty
    then show ?thesis using s n by simp
  next
    case (block b cells)
    then show ?thesis using s n gbuf_ok_basic [OF p(1)] by (intro that [of b cells]) auto
  qed
qed

lemma gbuf_ok_write:
  assumes "gbuf_ok buf h" "data_p buf = Some b" "hblk h b = Some dst" "length new = length dst"
  shows "gbuf_ok buf (hwrite b new h)"
  using assms by (simp add: gbuf_ok_def)

lemma gbuf_ok_write_other:
  "gbuf_ok other h \<Longrightarrow> data_p other \<noteq> Some b \<Longrightarrow>
   gbuf_ok other (hwrite b new h) \<and> contents other (hwrite b new h) = contents other h"
  by (auto simp: gbuf_ok_def contents_def split: option.splits)

section \<open>Receiving\<close>

lemma wheap_simps [simp]:
  "wheap (log_ev e w) = wheap w" "wheap (note_ctx i w) = wheap w" "wheap (note_retries n w) = wheap w"
  "wheap (SocketReportError obj err w) = wheap w"
  by (auto simp: log_ev_def note_ctx_def note_retries_def SocketReportError_def split: option.splits)

lemma wheap_if [simp]: "wheap (if c then log_ev e w else w) = wheap w"
  "wretries (if c then log_ev e w else w) = wretries w"
  by (simp_all add: log_ev_def)

lemma fs_ok_recv_update:
  "fs_ok fs h \<Longrightarrow> fs_ok (fs\<lparr>recv_pending := a, recv_flags := f\<rparr>) h"
  by (simp add: fs_ok_def)

lemma fast_recv_ok:
  assumes ok: "fs_ok fs (wheap w)" and r: "fast_recv as self len fs w = (r, fs', w')"
  shows "fs_ok fs' (wheap w')
    \<and> contents (send_staging fs') (wheap w') = contents (send_staging fs) (wheap w)
    \<and> sock_handle fs' = sock_handle fs \<and> send_staging fs' = send_staging fs
    \<and> send_pending fs' = send_pending fs"
proof (cases "len \<le> 0")
  case True
  with ok r show ?thesis by (auto simp: fast_recv_def Let_def)
next
  case False
  obtain x buf h where e: "ensure_size (recv_growable fs) len (wheap w) = (x, buf, h)" by (metis prod_cases3)
  from ok have o: "gbuf_ok (recv_growable fs) (wheap w)" "gbuf_ok (send_staging fs) (wheap w)" "heap_wf (wheap w)"
    "data_p (recv_growable fs) = data_p (send_staging fs) \<longrightarrow> data_p (recv_growable fs) = None"
    by (auto simp: fs_ok_def)
  note q = ensure_one_of_two [OF o e]
  have "recv_growable fs' = buf \<and> send_staging fs' = send_staging fs \<and> sock_handle fs' = sock_handle fs
      \<and> send_pending fs' = send_pending fs \<and> wheap w' = h"
    using r False e
    by (auto simp: fast_recv_def Let_def split: sum.splits option.splits wsa_outcome.splits prod.splits)
  then show ?thesis using q by (auto simp: fs_ok_def)
qed

text \<open>What a receive posts: the block it hands to Winsock holds the bytes it may write.\<close>

lemma fast_recv_posts:
  assumes ok: "fs_ok fs (wheap w)" and no: "no_oom (wheap w)"
    and len: "0 < len" "len \<le> 2 ^ 30" "gsize (recv_growable fs) \<le> 2 ^ 30"
  obtains b dst fs2 where
    "fast_recv as self len fs w =
       (case wsa_loop as of (out, n) \<Rightarrow>
          (let w5 = note_retries n (log_ev (Ev_WSARecv (sock_handle fs) (Some b) len)
                 ((if recv_pending fs \<noteq> 0 then log_ev Ev_IssueRecvDup (note_ctx self w) else note_ctx self w)
                    \<lparr>wheap := snd (snd (ensure_size (recv_growable fs) len (wheap w)))\<rparr>))
           in case out of
                Wsa_Failed e \<Rightarrow> (Inr (Some e), fs2\<lparr>recv_pending := 0\<rparr>,
                    SocketReportError (Some (fs2\<lparr>recv_pending := 0\<rparr>)) e w5)
              | Wsa_Waiting \<Rightarrow> (Inr None, fs2, w5)
              | _ \<Rightarrow> (Inr (Some 0), fs2, w5)))"
    "recv_pending fs2 = 1" "data_p (recv_growable fs2) = Some b" "gsize (recv_growable fs2) = len"
    "sock_handle fs2 = sock_handle fs" "send_staging fs2 = send_staging fs"
    "hblk (snd (snd (ensure_size (recv_growable fs) len (wheap w)))) b = Some dst" "nat len \<le> length dst"
proof -
  have o: "gbuf_ok (recv_growable fs) (wheap w)" "heap_wf (wheap w)" using ok by (auto simp: fs_ok_def)
  obtain buf h where e: "ensure_size (recv_growable fs) len (wheap w) = (Inr (), buf, h)"
    using sized.ensure_granted [OF o no len(3), of len] len
    by (cases "ensure_size (recv_growable fs) len (wheap w)") auto
  obtain b dst where b: "data_p buf = Some b" "hblk h b = Some dst" "nat len \<le> length dst" "gsize buf = len"
    by (rule sized_block [OF o e len(1)]) blast
  let ?fs2 = "fs\<lparr>recv_growable := buf, recv_flags := 0, recv_pending := 1\<rparr>"
  have "recv_staging_ptr (fs\<lparr>recv_growable := buf\<rparr>) = Some b"
    using b len(1) by (simp add: recv_staging_ptr_def)
  then show thesis
    by (intro that [of b ?fs2 dst])
      (use b e len(1) in \<open>auto simp: fast_recv_def Let_def split: prod.splits wsa_outcome.splits\<close>)
qed

section \<open>Sending\<close>

lemma fast_send_ok:
  assumes ok: "fs_ok fs (wheap w)" and r: "fast_send as self data len fs w = (r, fs', w')"
  shows "fs_ok fs' (wheap w')
    \<and> contents (recv_growable fs') (wheap w') = contents (recv_growable fs) (wheap w)
    \<and> recv_growable fs' = recv_growable fs \<and> sock_handle fs' = sock_handle fs
    \<and> recv_pending fs' = recv_pending fs"
proof (cases "len \<le> 0")
  case True
  with ok r show ?thesis by (auto simp: fast_send_def Let_def)
next
  case False
  obtain x buf h where e: "ensure_size (send_staging fs) len (wheap w) = (x, buf, h)" by (metis prod_cases3)
  from ok have o: "gbuf_ok (send_staging fs) (wheap w)" "gbuf_ok (recv_growable fs) (wheap w)" "heap_wf (wheap w)"
    "data_p (send_staging fs) = data_p (recv_growable fs) \<longrightarrow> data_p (send_staging fs) = None"
    by (auto simp: fs_ok_def)
  note q = ensure_one_of_two [OF o e]
  have f: "send_staging fs' = buf \<and> recv_growable fs' = recv_growable fs \<and> sock_handle fs' = sock_handle fs
      \<and> recv_pending fs' = recv_pending fs
      \<and> (wheap w' = h \<or> memcpy_in (send_staging_data (fs\<lparr>send_staging := buf\<rparr>)) data (nat len) h = Inr (wheap w'))"
    using r False e
    by (auto simp: fast_send_def Let_def split: sum.splits option.splits wsa_outcome.splits prod.splits)
  have "gbuf_ok buf (wheap w') \<and> gbuf_ok (recv_growable fs) (wheap w') \<and> heap_wf (wheap w')
      \<and> contents (recv_growable fs) (wheap w') = contents (recv_growable fs) h"
  proof (cases "wheap w' = h")
    case True
    then show ?thesis using q by simp
  next
    case False
    with f obtain b dst where m: "data_p buf = Some b" "hblk h b = Some dst" "nat len \<le> length dst" "nat len \<le> length data"
      "wheap w' = hwrite b (take (nat len) data @ drop (nat len) dst) h"
      by (auto simp: memcpy_in_def send_staging_data_def split: option.splits if_splits)
    have "data_p (recv_growable fs) \<noteq> Some b" using q(5) m(1) by auto
    then show ?thesis
      using gbuf_ok_write [OF q(1) m(1,2)] gbuf_ok_write_other [OF q(2)] q(3) m by (auto simp: hwrite_wf)
  qed
  with f q show ?thesis by (auto simp: fs_ok_def)
qed

lemma send_complete_ok:
  "fs_ok fs h \<Longrightarrow> send_complete ans out fs w = (r, out', fs', w') \<Longrightarrow>
   fs_ok fs' h \<and> wheap w' = wheap w \<and> send_staging fs' = send_staging fs \<and> recv_growable fs' = recv_growable fs
   \<and> sock_handle fs' = sock_handle fs"
  by (auto simp: send_complete_def fs_ok_def Let_def split: if_splits)

lemma recv_complete_ok:
  "fs_ok fs h \<Longrightarrow> recv_complete nl ans peer self out fs w = (r, out', fs', w') \<Longrightarrow>
   fs_ok fs' h \<and> wheap w' = wheap w \<and> send_staging fs' = send_staging fs \<and> recv_growable fs' = recv_growable fs
   \<and> sock_handle fs' = sock_handle fs \<and> send_pending fs' = send_pending fs"
  by (auto simp: recv_complete_def addr_port_update_def fs_ok_def Let_def split: if_splits option.splits)

lemma fast_send_stages:
  assumes ok: "fs_ok fs (wheap w)" and no: "no_oom (wheap w)"
    and len: "0 < len" "len \<le> 2 ^ 30" "gsize (send_staging fs) \<le> 2 ^ 30" "nat len \<le> length data"
    and cnt: "i32_ok (send_op_count fs + 1)"
    and r: "fast_send as self data len fs w = (r, fs', w')"
  shows "contents (send_staging fs') (wheap w') = take (nat len) data"
    and "case wsa_loop as of (out, n) \<Rightarrow>
      (case out of
         Wsa_Accepted \<Rightarrow> r = Inr (Some 0) \<and> send_pending fs' = 1 \<and> send_op_count fs' = send_op_count fs + 1
       | Wsa_Pending \<Rightarrow> r = Inr (Some 0) \<and> send_pending fs' = 0 \<and> send_op_count fs' = send_op_count fs + 1
       | Wsa_Failed e \<Rightarrow> r = Inr (Some e) \<and> send_warning fs' = 0 \<and> send_pending fs' = send_pending fs
           \<and> send_op_count fs' = send_op_count fs
       | Wsa_Waiting \<Rightarrow> r = Inr None)
      \<and> wretries w' = wretries w + word_of_nat n
      \<and> Ev_WSASend (sock_handle fs) (take (nat len) data) Overlapped116 \<in> set (wtrace w')"
proof -
  have o: "gbuf_ok (send_staging fs) (wheap w)" "heap_wf (wheap w)" using ok by (auto simp: fs_ok_def)
  obtain buf h where e: "ensure_size (send_staging fs) len (wheap w) = (Inr (), buf, h)"
    using sized.ensure_granted [OF o no len(3), of len] len
    by (cases "ensure_size (send_staging fs) len (wheap w)") auto
  obtain b dst where b: "data_p buf = Some b" "hblk h b = Some dst" "nat len \<le> length dst" "gsize buf = len"
    "capacity buf \<noteq> 0"
    by (rule sized_block [OF o e len(1)]) blast
  have s: "send_staging_data (fs\<lparr>send_staging := buf\<rparr>) = Some b"
    using b len(1) by (simp add: send_staging_data_def)
  let ?h = "hwrite b (take (nat len) data @ drop (nat len) dst) h"
  have m: "memcpy_in (Some b) data (nat len) h = Inr ?h"
    using b len by (simp add: memcpy_in_def)
  have c: "add_i32 (send_op_count fs) 1 = Inr (send_op_count fs + 1)" using cnt by (simp add: add_i32_def)
  note step = r [unfolded fast_send_def Let_def]
  have f: "send_staging fs' = buf \<and> wheap w' = ?h"
    using r len(1) e s m c
    by (auto simp: fast_send_def Let_def split: wsa_outcome.splits prod.splits)
  then show "contents (send_staging fs') (wheap w') = take (nat len) data"
    using b len by (simp add: contents_def)
  show "case wsa_loop as of (out, n) \<Rightarrow>
      (case out of
         Wsa_Accepted \<Rightarrow> r = Inr (Some 0) \<and> send_pending fs' = 1 \<and> send_op_count fs' = send_op_count fs + 1
       | Wsa_Pending \<Rightarrow> r = Inr (Some 0) \<and> send_pending fs' = 0 \<and> send_op_count fs' = send_op_count fs + 1
       | Wsa_Failed e \<Rightarrow> r = Inr (Some e) \<and> send_warning fs' = 0 \<and> send_pending fs' = send_pending fs
           \<and> send_op_count fs' = send_op_count fs
       | Wsa_Waiting \<Rightarrow> r = Inr None)
      \<and> wretries w' = wretries w + word_of_nat n
      \<and> Ev_WSASend (sock_handle fs) (take (nat len) data) Overlapped116 \<in> set (wtrace w')"
    using r len(1) e s m c
    by (auto simp: fast_send_def Let_def log_ev_def note_ctx_def note_retries_def SocketReportError_def
        split: wsa_outcome.splits prod.splits)
qed

section \<open>Runs of the object\<close>

text \<open>
  The four operations in any order with any answers of Winsock, and Winsock filling the receive
  block while an operation is in flight.
\<close>

inductive fs_step :: "fast_socket \<times> world \<Rightarrow> fast_socket \<times> world \<Rightarrow> bool" where
  recv: "fast_recv as self len fs w = (r, fs', w') \<Longrightarrow> fs_step (fs, w) (fs', w')"
| recv_complete: "recv_complete nl ans peer self out fs w = (r, out', fs', w') \<Longrightarrow> fs_step (fs, w) (fs', w')"
| send: "fast_send as self data len fs w = (r, fs', w') \<Longrightarrow> fs_step (fs, w) (fs', w')"
| send_complete: "send_complete ans out fs w = (r, out', fs', w') \<Longrightarrow> fs_step (fs, w) (fs', w')"
| fill: "data_p (recv_growable fs) = Some b \<Longrightarrow> hblk (wheap w) b = Some old \<Longrightarrow>
    length new = length old \<Longrightarrow> fs_step (fs, w) (fs, w\<lparr>wheap := hwrite b new (wheap w)\<rparr>)"

inductive_cases fs_stepE: "fs_step (fs, w) s"

lemma fs_step_ok:
  "fs_step s s' \<Longrightarrow> fs_ok (fst s) (wheap (snd s)) \<Longrightarrow>
   fs_ok (fst s') (wheap (snd s')) \<and> sock_handle (fst s') = sock_handle (fst s)"
proof (induction rule: fs_step.induct)
  case (fill fs b w old new)
  then have o: "gbuf_ok (recv_growable fs) (wheap w)" "gbuf_ok (send_staging fs) (wheap w)" "heap_wf (wheap w)"
    "data_p (send_staging fs) \<noteq> Some b"
    by (auto simp: fs_ok_def)
  show ?case
    using gbuf_ok_write [OF o(1) fill(1-3)] gbuf_ok_write_other [OF o(2,4)] o(3) fill
    by (auto simp: fs_ok_def hwrite_wf)
qed (auto dest: fast_recv_ok fast_send_ok send_complete_ok recv_complete_ok)

section \<open>Properties\<close>

text \<open> C21: In every run of \<open>recv\<close>, \<open>recv_complete\<close>, \<open>send\<close> and \<open>send_complete\<close>, with any
  answers of Winsock and of the allocator, both buffers of the object stay well-formed,
  never share a block, and the socket handle never changes.\<close>

theorem fast_socket_invariant:
  assumes "fs_step\<^sup>*\<^sup>* s s'" and "fs_ok (fst s) (wheap (snd s))"
  shows "fs_ok (fst s') (wheap (snd s')) \<and> sock_handle (fst s') = sock_handle (fst s)"
  using assms(1) by (induction rule: rtranclp_induct) (use assms(2) fs_step_ok in auto)

definition idle_buf :: gbuf where
  "idle_buf = \<lparr>data_p = None, gsize = 0, capacity = 0, min_capacity = 0, growth_mode = 0\<rparr>"

definition idle_socket :: fast_socket where
  "idle_socket = \<lparr>report_enabled = 1, overlap_tag = 0, recv_pending = 0, recv_growable = idle_buf,
     send_warning = 0, send_staging = idle_buf, ap_addr = replicate 16 0, ap_port = 0, recv_flags = 0,
     send_op_count = 0, send_pending = 0, sock_handle = 7\<rparr>"

definition idle_world :: world where
  "idle_world = \<lparr>wheap = \<lparr>hblk = Map.empty, hnext = 0, hfail = (\<lambda>_ _. False)\<rparr>,
     wnet = \<lparr>sockets_by_port = [], last_fast_ctx = None\<rparr>,
     wstatics = \<lparr>ov_pn_address = None, ov_target = None\<rparr>, wretries = 0, wtrace = []\<rparr>"

lemma idle_ok: "fs_ok idle_socket (wheap idle_world)" "no_oom (wheap idle_world)"
  by (simp_all add: fs_ok_def idle_socket_def idle_world_def heap_wf_def gbuf_ok_def idle_buf_def i32_ok_def no_oom_def)

theorem fast_socket_invariant_witness:
  "fs_ok (fst (snd (fast_send [(0, 0)] 1 [Some 65] 1 idle_socket idle_world)))
     (wheap (snd (snd (fast_send [(0, 0)] 1 [Some 65] 1 idle_socket idle_world))))"
proof -
  obtain r fs w where r: "fast_send [(0, 0)] 1 [Some 65] 1 idle_socket idle_world = (r, fs, w)"
    by (metis prod_cases3)
  then have "fs_step\<^sup>*\<^sup>* (idle_socket, idle_world) (fs, w)" by (blast intro: fs_step.send)
  from fast_socket_invariant [OF this] r idle_ok show ?thesis by simp
qed

text \<open>\<open>send\<close> on a well-formed object with room for the message copies exactly the \<open>len\<close>
  bytes into its staging buffer, retries as often as Winsock was interrupted, and ends as
  its last answer says: accepted or pending is 0, another error is returned and disarms the
  duplicate warning.\<close>

theorem fast_send_outcome:
  assumes "fs_ok fs (wheap w)" and "no_oom (wheap w)"
    and "0 < len" and "len \<le> 2 ^ 30" and "gsize (send_staging fs) \<le> 2 ^ 30" and "nat len \<le> length data"
    and "i32_ok (send_op_count fs + 1)"
    and "fast_send (replicate n (-1, WSAEINTR) @ [(ret, err)]) self data len fs w = (r, fs', w')"
    and "err \<noteq> WSAEINTR"
  shows "contents (send_staging fs') (wheap w') = take (nat len) data
    \<and> wretries w' = wretries w + word_of_nat n
    \<and> r = Inr (Some (if ret \<ge> 0 \<or> err = WSA_IO_PENDING then 0 else err))
    \<and> send_pending fs' = (if ret \<ge> 0 then 1 else if err = WSA_IO_PENDING then 0 else send_pending fs)
    \<and> send_op_count fs' = send_op_count fs + (if ret \<ge> 0 \<or> err = WSA_IO_PENDING then 1 else 0)"
  using fast_send_stages [OF assms(1-8)] assms(9)
  by (cases "0 \<le> ret"; cases "err = WSA_IO_PENDING") (simp_all add: wsa_loop_retries)

theorem fast_send_outcome_witness:
  "fst (fast_send [(-1, 10004), (0, 0)] 1 [Some 65, Some 66] 2 idle_socket idle_world) = Inr (Some 0)"
proof -
  obtain r fs w where r: "fast_send [(-1, 10004), (0, 0)] 1 [Some 65, Some 66] 2 idle_socket idle_world = (r, fs, w)"
    by (metis prod_cases3)
  have "fast_send (replicate 1 (-1, WSAEINTR) @ [(0, 0)]) 1 [Some 65, Some 66] 2 idle_socket idle_world = (r, fs, w)"
    using r by (simp add: WSAEINTR_def)
  from fast_send_outcome [OF idle_ok _ _ _ _ _ this] r show ?thesis
    by (simp add: idle_socket_def idle_buf_def i32_ok_def WSAEINTR_def)
qed

text \<open>A send that Winsock queues (\<open>ERROR_IO_PENDING\<close>, the normal case of overlapped
  output) is never seen to complete: the pending byte is cleared, so every later
  \<open>send_complete\<close> answers 0 and changes nothing, whatever Winsock would answer.\<close>

theorem pending_send_never_completes:
  assumes "fs_ok fs (wheap w)" and "no_oom (wheap w)"
    and "0 < len" and "len \<le> 2 ^ 30" and "gsize (send_staging fs) \<le> 2 ^ 30" and "nat len \<le> length data"
    and "i32_ok (send_op_count fs + 1)"
    and "fast_send ((-1, WSA_IO_PENDING) # as) self data len fs w = (r, fs', w')"
  shows "r = Inr (Some 0) \<and> (\<forall>ans out v. send_complete ans out fs' v = (0, out, fs', v))"
  using fast_send_stages [OF assms] by (simp add: send_complete_def wsa_consts)

theorem pending_send_never_completes_witness:
  "\<exists>fs' w'. fast_send [(-1, 997)] 1 [Some 65] 1 idle_socket idle_world = (Inr (Some 0), fs', w')
     \<and> (\<forall>ans out v. send_complete ans out fs' v = (0, out, fs', v))"
proof -
  obtain r fs w where r: "fast_send [(-1, 997)] 1 [Some 65] 1 idle_socket idle_world = (r, fs, w)"
    by (metis prod_cases3)
  then have "fast_send ((-1, WSA_IO_PENDING) # []) 1 [Some 65] 1 idle_socket idle_world = (r, fs, w)"
    by (simp add: WSA_IO_PENDING_def)
  from pending_send_never_completes [OF idle_ok _ _ _ _ _ this] r show ?thesis
    by (auto simp: idle_socket_def idle_buf_def i32_ok_def)
qed

text \<open>An accepted send is issued on the receive's OVERLAPPED structure (offset 116) while its
  completion is asked of the one at offset 168, which no operation of the object issues on.\<close>

theorem send_polls_other_overlapped:
  assumes "fs_ok fs (wheap w)" and "no_oom (wheap w)"
    and "0 < len" and "len \<le> 2 ^ 30" and "gsize (send_staging fs) \<le> 2 ^ 30" and "nat len \<le> length data"
    and "i32_ok (send_op_count fs + 1)" and "0 \<le> ret"
    and "fast_send ((ret, err) # as) self data len fs w = (r, fs', w')"
    and "send_complete ans out fs' w' = (q, out', fs'', w'')"
  shows "\<exists>bytes. Ev_WSASend (sock_handle fs) bytes Overlapped116 \<in> set (wtrace w'')
    \<and> last (wtrace w'') = Ev_Query (sock_handle fs) SendOverlap168"
proof -
  have "send_pending fs' = 1"
    and "Ev_WSASend (sock_handle fs) (take (nat len) data) Overlapped116 \<in> set (wtrace w')"
    using fast_send_stages [OF assms(1-7,9)] assms(8) by simp_all
  moreover have "sock_handle fs' = sock_handle fs" using fast_send_ok [OF assms(1,9)] by simp
  ultimately show ?thesis
    using assms(10) by (auto simp: send_complete_def Let_def log_ev_def split: if_splits)
qed

theorem send_polls_other_overlapped_witness:
  "\<exists>r fs' w' q out' fs'' w''. fast_send [(0, 0)] 1 [Some 65] 1 idle_socket idle_world = (r, fs', w')
     \<and> send_complete \<lparr>ov_ok = True, ov_transferred = 1, ov_flags = 0, ov_error = 0\<rparr> None fs' w' = (q, out', fs'', w'')
     \<and> last (wtrace w'') = Ev_Query 7 SendOverlap168"
proof -
  obtain r fs w where r: "fast_send [(0, 0)] 1 [Some 65] 1 idle_socket idle_world = (r, fs, w)"
    by (metis prod_cases3)
  obtain q out' fs'' w'' where
    q: "send_complete \<lparr>ov_ok = True, ov_transferred = 1, ov_flags = 0, ov_error = 0\<rparr> None fs w = (q, out', fs'', w'')"
    by (metis prod_cases4)
  from send_polls_other_overlapped [OF idle_ok _ _ _ _ _ _ r q] r q show ?thesis
    by (auto simp: idle_socket_def idle_buf_def i32_ok_def)
qed

text \<open> C29: A receive is completed at most once: \<open>recv_complete\<close> answers 1 only for a receive in
  flight and disarms it, so until the next \<open>recv\<close> every further call answers 0 and leaves
  object, output and heap alone.\<close>

theorem recv_complete_once:
  assumes "recv_complete nl ans peer self out fs w = (1, out', fs', w')"
  shows "recv_pending fs \<noteq> 0 \<and> ov_ok ans
    \<and> (\<forall>nl2 ans2 peer2 out2 v. \<exists>v'. recv_complete nl2 ans2 peer2 self out2 fs' v = (0, out2, fs', v')
         \<and> wheap v' = wheap v)"
proof -
  have "recv_pending fs \<noteq> 0 \<and> ov_ok ans \<and> recv_pending fs' = 0"
    using assms by (auto simp: recv_complete_def addr_port_update_def Let_def split: if_splits option.splits)
  then show ?thesis by (simp add: recv_complete_def Let_def)
qed

theorem recv_complete_once_witness:
  "\<exists>out' fs' w'. recv_complete True \<lparr>ov_ok = True, ov_transferred = 3, ov_flags = 0, ov_error = 0\<rparr> None 1 None
       (idle_socket\<lparr>recv_pending := 1\<rparr>) idle_world = (1, out', fs', w')
     \<and> (\<forall>out2 v. \<exists>v'. recv_complete True \<lparr>ov_ok = True, ov_transferred = 3, ov_flags = 0, ov_error = 0\<rparr> None 1 out2 fs' v
          = (0, out2, fs', v'))"
proof -
  obtain q out' fs' w' where q: "recv_complete True \<lparr>ov_ok = True, ov_transferred = 3, ov_flags = 0, ov_error = 0\<rparr>
      None 1 None (idle_socket\<lparr>recv_pending := 1\<rparr>) idle_world = (q, out', fs', w')"
    by (metis prod_cases4)
  then have "q = 1" by (simp add: recv_complete_def idle_socket_def kOverlapInFlightTag_def Let_def)
  with q recv_complete_once [of True _ None 1 None "idle_socket\<lparr>recv_pending := 1\<rparr>" idle_world out' fs' w']
  show ?thesis by (metis (no_types, lifting))
qed

end
