(* ===== verification/TcpSocket.thy ===== *)
theory TcpSocket
  imports FastSocket
begin

text \<open>
  The engine's socket class, \<open>src/game/engine/TCPSocket.cpp\<close>. It has the layout of the ProudNet socket
  object (the connection casts one to the other), so the model works on the same record.

  What the system answers is one record: \<open>inet_addr\<close>, \<open>gethostbyname\<close> (the address, or the last
  error), the result of \<open>connect\<close> and the conversion of the host name to the thread's code page.
\<close>

record tcp_answers =
  tc_inet_addr :: "string \<Rightarrow> u32"
  tc_resolve :: "string \<Rightarrow> u32 + int"
  tc_connect :: "int option"      \<comment> \<open>None: success, Some e: SOCKET_ERROR with last error e\<close>
  tc_narrow :: "u16 list \<Rightarrow> string"
  tc_cfg :: override_config
  tc_no_net_logs :: bool

definition htons :: "u16 \<Rightarrow> u16" where "htons w = ntohs w"

text \<open>\<open>to_ip_string\<close>: the four bytes in memory order, in decimal, with dots.\<close>

fun digits :: "nat \<Rightarrow> nat \<Rightarrow> string" where
  "digits 0 n = []"
| "digits (Suc fuel) n =
     (if n < 10 then [char_of (48 + n)] else digits fuel (n div 10) @ [char_of (48 + n mod 10)])"

definition to_string :: "nat \<Rightarrow> string" where
  "to_string n = digits (Suc n) n"

definition addr_bytes :: "u32 \<Rightarrow> nat list" where
  "addr_bytes a = map (\<lambda>k. unat (drop_bit (8 * k) a AND 0xFF)) [0, 1, 2, 3]"

definition to_ip_string :: "u32 \<Rightarrow> string" where
  "to_ip_string a =
     (case addr_bytes a of [a0, a1, a2, a3] \<Rightarrow>
        to_string a0 @ ''.'' @ to_string a1 @ ''.'' @ to_string a2 @ ''.'' @ to_string a3)"

definition connect_tracks :: "fast_socket \<Rightarrow> int \<Rightarrow> world \<Rightarrow> world" where
  "connect_tracks fs port w =
     (let w0 = (if port = 7000 then log_ev Ev_StageConnecting w else w)
      in if is_pn_track_port (word_of_int port)
         then w0\<lparr>wnet := track_connect (sock_handle fs) (word_of_int port) (wnet w0)\<rparr> else w0)"

definition tcp_connect :: "tcp_answers \<Rightarrow> fast_socket \<Rightarrow> u16 list \<Rightarrow> int \<Rightarrow> world \<Rightarrow> int \<times> world" where
  "tcp_connect an fs wideHostname port w =
     (let w1 = connect_tracks fs port w;
          host0 = tc_narrow an wideHostname;
          (host, os1) = remap_host (tc_inet_addr an) (tc_cfg an) host0 (wstatics w1);
          w2 = w1\<lparr>wstatics := os1\<rparr>;
          literal = tc_inet_addr an host
      in case (if literal = INADDR_NONE then tc_resolve an host else Inl literal) of
           Inr error \<Rightarrow> (error, SocketReportError (Some fs) error w2)
         | Inl addr \<Rightarrow>
             (let sa = \<lparr>sin_port = htons (word_of_int port), s_addr = addr\<rparr>;
                  (_, sa', os2) = remap_sockaddr_in (tc_inet_addr an) (tc_cfg an) sa (wstatics w2);
                  w3 = w2\<lparr>wstatics := os2\<rparr>;
                  w4 = (if tc_no_net_logs an then w3
                        else log_ev (Ev_NetConnect (sock_handle fs) (to_ip_string (s_addr sa')) port) w3);
                  w5 = log_ev (Ev_Connect (sock_handle fs) sa') w4
              in case tc_connect an of
                   None \<Rightarrow> (0, w5)
                 | Some error \<Rightarrow>
                     (let w6 = SocketReportError (Some fs) error w5
                      in (error,
                          if error \<noteq> WSAEWOULDBLOCK \<and> error \<noteq> WSA_IO_PENDING \<and> \<not> tc_no_net_logs an
                          then log_ev (Ev_ConnectError error) w6 else w6))))"

record message_to_send =
  msg_data_size :: int
  msg_buffer_count :: size_t
  msg_buffer_type :: int

definition tcp_send :: "(int \<times> int) list \<Rightarrow> bool \<Rightarrow> message_to_send \<Rightarrow> fast_socket \<Rightarrow> world
    \<Rightarrow> int option res \<times> fast_socket \<times> world" where
  "tcp_send answers no_network_logs msg fs w =
     (let w1 = (if send_warning fs \<noteq> 0 \<and> \<not> no_network_logs then log_ev Ev_IssueSendDup w else w)
      in if msg_data_size msg \<le> 0 then (Inr (Some WSAEINVAL), fs, w1)
         else (let fs1 = fs\<lparr>send_warning := 1\<rparr>
               in if (unat (msg_buffer_count msg) + 0x80000000) div 2 ^ 32 \<noteq> 0
                  then (Inl OutOfRange, fs1, w1)
                  else (let w2 = log_ev (Ev_WSASendBufs (sock_handle fs1) (msg_buffer_type msg > 100)
                                           (msg_buffer_count msg) SendOverlap168) w1;
                            (out, n) = wsa_loop answers;
                            w3 = note_retries n w2
                        in case out of
                             Wsa_Accepted \<Rightarrow>
                               (case add_i32 (send_op_count fs1) 1 of
                                  Inl e \<Rightarrow> (Inl e, fs1, w3)
                                | Inr c \<Rightarrow> (Inr (Some 0), fs1\<lparr>send_op_count := c, send_pending := 1\<rparr>, w3))
                           | Wsa_Pending \<Rightarrow>
                               (case add_i32 (send_op_count fs1) 1 of
                                  Inl e \<Rightarrow> (Inl e, fs1, w3)
                                | Inr c \<Rightarrow> (Inr (Some 0), fs1\<lparr>send_op_count := c, send_pending := 0\<rparr>, w3))
                           | Wsa_Failed e \<Rightarrow>
                               (let fs2 = fs1\<lparr>send_warning := 0\<rparr>
                                in (Inr (Some e), fs2, SocketReportError (Some fs2) e w3))
                           | Wsa_Waiting \<Rightarrow> (Inr None, fs1, w3))))"

section \<open>Properties\<close>

lemma SocketReportError_frame [simp]:
  "wnet (SocketReportError obj err w) = wnet w" "wstatics (SocketReportError obj err w) = wstatics w"
  by (auto simp: SocketReportError_def log_ev_def split: option.splits)

lemma log_ev_frame [simp]:
  "wnet (log_ev e w) = wnet w" "wstatics (log_ev e w) = wstatics w" "wtrace (log_ev e w) = wtrace w @ [e]"
  by (simp_all add: log_ev_def)

text \<open>A connect to one of the three server ports tracks the socket before anything else,
  also when the connection then fails, and a connect to another port tracks nothing.\<close>

theorem tcp_connect_tracks:
  assumes "tcp_connect an fs host port w = (err, w')"
  shows "is_tracked_pn_socket gp (wnet w') t \<longleftrightarrow>
     is_tracked_pn_socket gp (wnet w) t
     \<or> t = sock_handle fs \<and> sock_handle fs \<noteq> INVALID_SOCKET \<and> is_pn_track_port (word_of_int port)"
proof -
  have "wnet w' = (if is_pn_track_port (word_of_int port)
      then track_connect (sock_handle fs) (word_of_int port) (wnet w) else wnet w)"
    using assms
    by (auto simp: tcp_connect_def connect_tracks_def Let_def split: sum.splits prod.splits option.splits if_splits)
  then show ?thesis
    by (auto simp: is_tracked_pn_socket_def track_connect_def table_insert_ex)
qed

definition demo_answers :: tcp_answers where
  "demo_answers = \<lparr>tc_inet_addr = (\<lambda>_. 9), tc_resolve = (\<lambda>_. Inr 11001), tc_connect = Some 10061,
     tc_narrow = map (\<lambda>c. char_of (unat c)), tc_cfg = \<lparr>server_override = False, server_ip = []\<rparr>,
     tc_no_net_logs = True\<rparr>"

theorem tcp_connect_tracks_witness:
  "is_tracked_pn_socket (\<lambda>_. None) (wnet (snd (tcp_connect demo_answers idle_socket [49] 7000 idle_world))) 7"
proof -
  obtain e w where r: "tcp_connect demo_answers idle_socket [49] 7000 idle_world = (e, w)" by force
  from tcp_connect_tracks [OF r, of "\<lambda>_. None" 7] r show ?thesis
    by (simp add: idle_socket_def net_consts is_pn_track_port_def)
qed

text \<open>With the override active and its target resolvable, a connect to the entry host on a server
  port reaches the configured server: host name and address are both replaced, the port is kept.\<close>

theorem tcp_connect_redirects:
  assumes "server_override (tc_cfg an)" and "server_ip (tc_cfg an) \<noteq> []"
    and "tc_inet_addr an (server_ip (tc_cfg an)) \<noteq> INADDR_NONE"
    and "wstatics w = \<lparr>ov_pn_address = None, ov_target = None\<rparr>"
    and "tc_narrow an host = kEntryHost"
    and "tcp_connect an fs host port w = (err, w')"
  shows "Ev_Connect (sock_handle fs)
     \<lparr>sin_port = htons (word_of_int port), s_addr = tc_inet_addr an (server_ip (tc_cfg an))\<rparr> \<in> set (wtrace w')"
proof -
  let ?inet = "tc_inet_addr an" and ?cfg = "tc_cfg an"
  let ?T = "?inet (server_ip ?cfg)"
  let ?sa = "\<lparr>sin_port = htons (word_of_int port), s_addr = ?T\<rparr>"
  let ?os = "\<lparr>ov_pn_address = None, ov_target = Some ?T\<rparr>"
  have st: "wstatics (connect_tracks fs port w) = \<lparr>ov_pn_address = None, ov_target = None\<rparr>"
    using assms(4) by (simp add: connect_tracks_def Let_def)
  have rh: "remap_host ?inet ?cfg kEntryHost \<lparr>ov_pn_address = None, ov_target = None\<rparr> = (server_ip ?cfg, ?os)"
    using assms(1-3) by (simp add: remap_host_def override_active_def get_target_address_def is_pn_hostname_def)
  have "fst (snd (remap_sockaddr_in ?inet ?cfg ?sa ?os)) = ?sa"
    using assms(1-3) by (simp add: remap_sockaddr_in_def override_active_def get_target_address_def is_pn_address_def)
  then obtain b os2 where rs: "remap_sockaddr_in ?inet ?cfg ?sa ?os = (b, ?sa, os2)"
    by (cases "remap_sockaddr_in ?inet ?cfg ?sa ?os") auto
  show ?thesis
    using assms(6) unfolding tcp_connect_def Let_def assms(5) st rh
    using assms(3) rs
    by (cases "tc_connect an") (auto simp: SocketReportError_def)
qed

theorem tcp_connect_redirects_witness:
  "Ev_Connect 7 \<lparr>sin_port = htons 7000, s_addr = 9\<rparr> \<in> set (wtrace (snd (tcp_connect
     (demo_answers\<lparr>tc_narrow := (\<lambda>_. kEntryHost), tc_cfg := \<lparr>server_override = True, server_ip = ''1.2.3.4''\<rparr>\<rparr>)
     idle_socket [49] 7000 idle_world)))"
proof -
  let ?an = "demo_answers\<lparr>tc_narrow := (\<lambda>_. kEntryHost), tc_cfg := \<lparr>server_override = True, server_ip = ''1.2.3.4''\<rparr>\<rparr>"
  obtain e w where r: "tcp_connect ?an idle_socket [49] 7000 idle_world = (e, w)" by force
  from tcp_connect_redirects [OF _ _ _ _ _ r] r show ?thesis
    by (simp add: idle_socket_def idle_world_def demo_answers_def INADDR_NONE_def)
qed

text \<open>\<open>TCPSocket::Send\<close> answers by the range of its arguments and Winsock's last answer; it
  issues on the send's own OVERLAPPED structure, unlike \<open>CFastSocket::send\<close>, and clears the pending byte when
  the output is queued.\<close>

theorem tcp_send_outcome:
  "tcp_send (replicate n (-1, WSAEINTR) @ [(ret, err)]) nl msg fs w =
     (let w1 = (if send_warning fs \<noteq> 0 \<and> \<not> nl then log_ev Ev_IssueSendDup w else w);
          fs1 = fs\<lparr>send_warning := 1\<rparr>;
          w3 = note_retries (if ret < 0 \<and> err = WSAEINTR then Suc n else n)
                 (log_ev (Ev_WSASendBufs (sock_handle fs) (msg_buffer_type msg > 100)
                   (msg_buffer_count msg) SendOverlap168) w1)
      in if msg_data_size msg \<le> 0 then (Inr (Some WSAEINVAL), fs, w1)
         else if 2 ^ 31 \<le> unat (msg_buffer_count msg) then (Inl OutOfRange, fs1, w1)
         else if 0 \<le> ret \<or> err = WSA_IO_PENDING then
           (if i32_ok (send_op_count fs + 1)
            then (Inr (Some 0), fs1\<lparr>send_op_count := send_op_count fs + 1,
                                   send_pending := (if 0 \<le> ret then 1 else 0)\<rparr>, w3)
            else (Inl SignedOverflow, fs1, w3))
         else if err = WSAEINTR then (Inr None, fs1, w3)
         else (Inr (Some err), fs\<lparr>send_warning := 0\<rparr>, SocketReportError (Some (fs\<lparr>send_warning := 0\<rparr>)) err w3))"
proof -
  have b: "(unat (msg_buffer_count msg) + 0x80000000) div 2 ^ 32 \<noteq> 0 \<longleftrightarrow> 2 ^ 31 \<le> unat (msg_buffer_count msg)"
    using unat_u32_less [of "msg_buffer_count msg"] by (simp add: div_eq_0_iff) arith
  have e: "WSA_IO_PENDING \<noteq> WSAEINTR" by (simp add: wsa_consts)
  show ?thesis
    unfolding tcp_send_def Let_def b wsa_loop_retries
    using e by (cases "0 \<le> ret"; cases "err = WSA_IO_PENDING"; cases "err = WSAEINTR") (simp_all add: add_i32_def)
qed

end
