(* ===== verification/Connection.thy ===== *)
theory Connection
  imports TcpSocket
begin

text \<open>
  The connection's state machine: \<open>src/ProudNet/ConnectionNode.cpp\<close> over the socket object, the
  select set of \<open>src/ProudNet/SelectFd.cpp\<close> and the poll of \<open>src/ProudNet/SelectContext.cpp\<close>.

  \<open>ConnectionNode\<close> overlays \<open>SendArm\<close> at offset 4, so \<open>SendArm::send_offset\<close> is the word at offset 20
  and \<open>kRecvPending\<close>, a byte at offset 20, is its low byte: the model keeps one word,
  \<open>send_offset\<close>, and \<open>set_recv_pending_byte\<close> writes its low byte. \<open>SendArm::fast_socket\<close> (offset 4)
  and \<open>ConnectionNode::fast_socket\<close> (offset 8) are two pointers to pointers; each is modelled by the
  object it leads to, if any. Socket objects live in the store \<open>cw_socks\<close>. The outbound
  string is its \<open>GetLength()\<close> bytes.

  The system's answers of a step (\<open>select\<close>, \<open>getsockopt\<close>, those of \<open>TCPSocket::Connect\<close>,
  the overlapped results and the send or receive answers) are one record argument. Log lines of the
  states themselves are left out.
\<close>

section \<open>Select sets\<close>

definition FD_SETSIZE :: nat where "FD_SETSIZE = 64"

text \<open>The context's three sets; each has \<open>FD_SETSIZE\<close> slots behind its count.\<close>

record select_ctx =
  sel_read0 :: "socket list"     \<comment> \<open>words 0..64, passed to select as the read set\<close>
  sel_read :: "socket list"      \<comment> \<open>words 65..129\<close>
  sel_except :: "socket list"    \<comment> \<open>words 130..194\<close>

definition add_socket_to_set :: "socket list \<Rightarrow> socket \<Rightarrow> socket list" where
  "add_socket_to_set fds sock =
     (if sock \<in> set fds then fds
      else if length fds < FD_SETSIZE then fds @ [sock] else fds)"

definition sel_init :: select_ctx where
  "sel_init = \<lparr>sel_read0 = [], sel_read = [], sel_except = []\<rparr>"

definition add_read :: "select_ctx \<Rightarrow> fast_socket option \<Rightarrow> select_ctx" where
  "add_read ctx fast =
     (case fast of None \<Rightarrow> ctx
      | Some fs \<Rightarrow> ctx\<lparr>sel_read := add_socket_to_set (sel_read ctx) (sock_handle fs)\<rparr>)"

definition add_except :: "select_ctx \<Rightarrow> fast_socket option \<Rightarrow> select_ctx" where
  "add_except ctx fast =
     (case fast of None \<Rightarrow> ctx
      | Some fs \<Rightarrow> ctx\<lparr>sel_except := add_socket_to_set (sel_except ctx) (sock_handle fs)\<rparr>)"

text \<open>
  \<open>select\<close> leaves in each set the members that are ready: \<open>ready\<close> are the sockets with input or
  room for output, \<open>failed\<close> those with an error; a failing call leaves the sets as they were.
\<close>

record select_answer =
  sa_ok :: bool
  sa_ready :: "socket list"
  sa_failed :: "socket list"

definition select_timeout :: "u32 \<Rightarrow> (u32 \<times> u32) option" where
  "select_timeout timeout_ms =
     (if timeout_ms \<noteq> - 1 then Some (timeout_ms div 1000, (timeout_ms mod 1000) * 1000) else None)"

definition sel_wait :: "select_answer \<Rightarrow> select_ctx \<Rightarrow> select_ctx" where
  "sel_wait a ctx =
     (if \<not> sa_ok a then ctx
      else \<lparr>sel_read0 = filter (\<lambda>s. s \<in> set (sa_ready a)) (sel_read0 ctx),
            sel_read = filter (\<lambda>s. s \<in> set (sa_ready a)) (sel_read ctx),
            sel_except = filter (\<lambda>s. s \<in> set (sa_failed a)) (sel_except ctx)\<rparr>)"

section \<open>Connection state\<close>

record conn =
  arm_fast :: "nat option"       \<comment> \<open>*SendArm::fast_socket\<close>
  own_fast :: "nat option"       \<comment> \<open>*ConnectionNode::fast_socket\<close>
  outbound :: "cell list"
  conn_send_pending :: u8        \<comment> \<open>+16\<close>
  send_offset :: u32             \<comment> \<open>+20; its low byte is kRecvPending\<close>
  send_bytes_done :: int         \<comment> \<open>+24\<close>
  recv_bytes_total :: int        \<comment> \<open>+28\<close>
  recv_buf :: gbuf               \<comment> \<open>+32\<close>
  fsm_state :: int               \<comment> \<open>+64\<close>
  upnp_submode :: int            \<comment> \<open>+68\<close>
  gateway_ctx :: "(u16 list \<times> u16) option"   \<comment> \<open>+72: host name and port\<close>

datatype conn_event =
    Ce_NonBlock socket
  | Ce_UpnpAdd
  | Ce_UpnpDelete

record cworld =
  cw_world :: world
  cw_socks :: "nat \<Rightarrow> fast_socket"
  cw_trace :: "conn_event list"

definition clog :: "conn_event \<Rightarrow> cworld \<Rightarrow> cworld" where
  "clog e cw = cw\<lparr>cw_trace := cw_trace cw @ [e]\<rparr>"

definition set_recv_pending_byte :: "u8 \<Rightarrow> conn \<Rightarrow> conn" where
  "set_recv_pending_byte b c =
     c\<lparr>send_offset := (send_offset c AND NOT 0xFF) OR ucast b\<rparr>"

definition offset_int :: "conn \<Rightarrow> int" where
  "offset_int c = sint (send_offset c)"

definition fast :: "conn \<Rightarrow> nat option" where
  "fast c = own_fast c"

text \<open>\<open>static_cast<int>\<close> of the string's length; lengths from 2 GB on come out negative.\<close>

definition int_of_size :: "nat \<Rightarrow> int" where
  "int_of_size n = sint (word_of_nat n :: size_t)"

definition sub_i32 :: "int \<Rightarrow> int \<Rightarrow> int res" where
  "sub_i32 a b = (if i32_ok (a - b) then Inr (a - b) else Inl SignedOverflow)"

definition outbound_remaining :: "conn \<Rightarrow> int res" where
  "outbound_remaining c = sub_i32 (int_of_size (length (outbound c))) (offset_int c)"

section \<open>Steps\<close>

record step_answers =
  an_select :: select_answer
  an_so_error :: "int option"         \<comment> \<open>getsockopt(SO_ERROR), None when it fails\<close>
  an_tcp :: tcp_answers
  an_overlapped :: overlapped_answer
  an_peer :: "(u8 list \<times> u16) option"
  an_wsa :: "(int \<times> int) list"
  an_gp :: getpeername
  an_ctx_page :: page            \<comment> \<open>\<open>VirtualQuery\<close> on the socket object and on its handle\<close>
  an_slot_page :: page
  an_no_net_logs :: bool

definition sync_handle :: "step_answers \<Rightarrow> nat \<Rightarrow> cworld \<Rightarrow> cworld" where
  "sync_handle an i cw =
     (let fs = cw_socks cw i
      in cw\<lparr>cw_socks := (cw_socks cw)(i := fs\<lparr>sock_handle :=
            sync_fast_socket_handle (an_gp an) (wnet (cw_world cw)) (an_ctx_page an) (an_slot_page an) (sock_handle fs)\<rparr>)\<rparr>)"

text \<open>The result is the function's value and \<open>*out\<close>, which starts as 0.\<close>

definition sel_poll :: "step_answers \<Rightarrow> select_ctx \<Rightarrow> nat \<Rightarrow> cworld \<Rightarrow> int \<times> u32 \<times> cworld" where
  "sel_poll an ctx i cw =
     (let cw1 = cw\<lparr>cw_world := note_ctx i (cw_world cw)\<rparr>;
          (active, os) = override_active (tc_inet_addr (an_tcp an)) (tc_cfg (an_tcp an)) (wstatics (cw_world cw1));
          cw1' = cw1\<lparr>cw_world := (cw_world cw1)\<lparr>wstatics := os\<rparr>\<rparr>;
          cw2 = (if active then sync_handle an i cw1' else cw1');
          sock = sock_handle (cw_socks cw2 i)
      in if sock \<in> set (sel_read ctx) then (1, 0, cw2)
         else if sock \<in> set (sel_except ctx) then
           (1, word_of_int (case an_so_error an of None \<Rightarrow> 0 | Some e \<Rightarrow> e), cw2)
         else (0, 0, cw2))"

definition arm_send :: "(int \<times> int) list \<Rightarrow> conn \<Rightarrow> cworld \<Rightarrow> bool option res \<times> conn \<times> cworld" where
  "arm_send answers c cw =
     (case sub_i32 (int_of_size (length (outbound c))) (offset_int c) of
        Inl e \<Rightarrow> (Inl e, c, cw)
      | Inr slc \<Rightarrow>
          if slc \<le> 0 then (Inr (Some False), c, cw)
          else (case arm_fast c of
              None \<Rightarrow> (Inr (Some False), c, cw)
            | Some i \<Rightarrow>
                if offset_int c < 0 then (Inl OobRead, c\<lparr>conn_send_pending := 1\<rparr>, cw)
                else
                (let c1 = c\<lparr>conn_send_pending := 1\<rparr>;
                     (r, fs', w') = fast_send answers i (drop (nat (offset_int c)) (outbound c)) slc
                                      (cw_socks cw i) (cw_world cw);
                     cw1 = cw\<lparr>cw_socks := (cw_socks cw)(i := fs'), cw_world := w'\<rparr>
                 in case r of
                      Inl e \<Rightarrow> (Inl e, c1, cw1)
                    | Inr None \<Rightarrow> (Inr None, c1, cw1)
                    | Inr (Some x) \<Rightarrow>
                        if x \<noteq> 0 then (Inr (Some False), c1\<lparr>conn_send_pending := 0\<rparr>, cw1)
                        else (Inr (Some True), c1, cw1))))"

definition retry_connect_on_poll_except :: "step_answers \<Rightarrow> conn \<Rightarrow> cworld \<Rightarrow> int \<times> conn \<times> cworld" where
  "retry_connect_on_poll_except an c cw =
     (case gateway_ctx c of
        None \<Rightarrow> (0, c\<lparr>fsm_state := 5\<rparr>, cw)
      | Some (host, port) \<Rightarrow>
          (case fast c of
             None \<Rightarrow> (0, c\<lparr>fsm_state := 5\<rparr>, cw)
           | Some i \<Rightarrow>
               (let hostname = takeWhile (\<lambda>ch. ch \<noteq> 0) host;
                    (err, w') = tcp_connect (an_tcp an) (cw_socks cw i) hostname (uint port) (cw_world cw);
                    cw1 = cw\<lparr>cw_world := w'\<rparr>
                in if err = 0 \<or> err = WSAEWOULDBLOCK then (1, c, cw1)
                   else (0, c\<lparr>fsm_state := 5\<rparr>, cw1))))"

definition run_state_1 :: "step_answers \<Rightarrow> conn \<Rightarrow> cworld \<Rightarrow> int option res \<times> conn \<times> cworld" where
  "run_state_1 an c cw =
     (let sel0 = sel_init;
          sel1 = (case fast c of
                    None \<Rightarrow> sel0
                  | Some i \<Rightarrow> add_except (add_read sel0 (Some (cw_socks cw i))) (Some (cw_socks cw i)));
          sel2 = sel_wait (an_select an) sel1
      in case fast c of
           None \<Rightarrow> (Inr (Some 0), c, cw)
         | Some i \<Rightarrow>
             (case sel_poll an sel2 i cw of (ready, poll_out, cw1) \<Rightarrow>
                if ready = 0 then (Inr (Some 0), c, cw1)
                else if poll_out \<noteq> 0 then
                  (case retry_connect_on_poll_except an c cw1 of (r, c', cw') \<Rightarrow> (Inr (Some r), c', cw'))
                else
                  (let cw2 = clog (Ce_NonBlock (sock_handle (cw_socks cw1 i))) cw1
                   in if upnp_submode c \<noteq> 1 \<and> upnp_submode c \<noteq> 0 then
                        (Inr (Some 0), c\<lparr>fsm_state := 5\<rparr>, cw2)
                      else
                        (let cw3 = clog (if upnp_submode c = 1 then Ce_UpnpDelete else Ce_UpnpAdd) cw2
                         in case arm_send (an_wsa an) c cw3 of
                              (Inl e, c', cw') \<Rightarrow> (Inl e, c', cw')
                            | (Inr None, c', cw') \<Rightarrow> (Inr None, c', cw')
                            | (Inr (Some armed), c', cw') \<Rightarrow>
                                (Inr (Some (if armed then 1 else 0)),
                                 c'\<lparr>fsm_state := (if armed then 2 else 5)\<rparr>, cw')))))"

definition run_state_2 :: "step_answers \<Rightarrow> conn \<Rightarrow> cworld \<Rightarrow> int option res \<times> conn \<times> cworld" where
  "run_state_2 an c cw =
     (case fast c of
        None \<Rightarrow> (Inr (Some 0), c, cw)
      | Some i \<Rightarrow>
          (case send_complete (an_overlapped an) (Some (replicate 8 0)) (cw_socks cw i) (cw_world cw) of
             (ok, out, fs', w') \<Rightarrow>
               (let cw1 = cw\<lparr>cw_socks := (cw_socks cw)(i := fs'), cw_world := w'\<rparr>
                in if ok = 0 then (Inr (Some 0), c, cw1)
                   else
                     (let c1 = c\<lparr>conn_send_pending := 0\<rparr>;
                          bytes = sint ((case out of Some o' \<Rightarrow> o' ! 5 | None \<Rightarrow> 0) :: u32)
                      in if bytes < 0 then (Inr (Some 0), c1\<lparr>fsm_state := 5\<rparr>, cw1)
                         else
                         (case (add_i32 (offset_int c1) bytes, add_i32 (send_bytes_done c1) bytes) of
                            (Inr off, Inr done_tot) \<Rightarrow>
                              (let c2 = c1\<lparr>send_offset := word_of_int off, send_bytes_done := done_tot\<rparr>
                               in case outbound_remaining c2 of
                                    Inl e \<Rightarrow> (Inl e, c2, cw1)
                                  | Inr rem \<Rightarrow>
                                      if rem > 0 then
                                        (case arm_send (an_wsa an) c2 cw1 of
                                           (Inl e, c', cw') \<Rightarrow> (Inl e, c', cw')
                                         | (Inr None, c', cw') \<Rightarrow> (Inr None, c', cw')
                                         | (Inr (Some armed), c', cw') \<Rightarrow>
                                             if armed then (Inr (Some 1), c', cw')
                                             else (Inr (Some 0), c'\<lparr>fsm_state := 5\<rparr>, cw'))
                                      else
                                        (let c3 = set_recv_pending_byte 1 c2;
                                             (r, fs'', w'') = fast_recv (an_wsa an) i 0x8000
                                                                (cw_socks cw1 i) (cw_world cw1);
                                             cw2 = cw1\<lparr>cw_socks := (cw_socks cw1)(i := fs''), cw_world := w''\<rparr>
                                         in case r of
                                              Inl e \<Rightarrow> (Inl e, c3, cw2)
                                            | Inr None \<Rightarrow> (Inr None, c3, cw2)
                                            | Inr (Some x) \<Rightarrow>
                                                if x = 0 then (Inr (Some 0), c3\<lparr>fsm_state := 3\<rparr>, cw2)
                                                else (Inr (Some 0),
                                                      (set_recv_pending_byte 0 c3)\<lparr>fsm_state := 5\<rparr>, cw2)))
                          | (Inl e, _) \<Rightarrow> (Inl e, c1, cw1)
                          | (_, Inl e) \<Rightarrow> (Inl e, c1, cw1))))))"

definition run_state_3 :: "step_answers \<Rightarrow> conn \<Rightarrow> cworld \<Rightarrow> int option res \<times> conn \<times> cworld" where
  "run_state_3 an c cw =
     (case fast c of
        None \<Rightarrow> (Inr (Some 0), c, cw)
      | Some i \<Rightarrow>
          (case recv_complete (an_no_net_logs an) (an_overlapped an) (an_peer an) i
                  (Some (replicate 8 0)) (cw_socks cw i) (cw_world cw) of
             (ok, out, fs', w') \<Rightarrow>
               (let cw1 = cw\<lparr>cw_socks := (cw_socks cw)(i := fs'), cw_world := w'\<rparr>
                in if ok = 0 then (Inr (Some 0), c, cw1)
                   else
                     (let chunk = sint ((case out of Some o' \<Rightarrow> o' ! 5 | None \<Rightarrow> 0) :: u32);
                          c1 = set_recv_pending_byte 0 c
                      in if chunk \<le> 0 then (Inr (Some 0), c1\<lparr>fsm_state := 4\<rparr>, cw1)
                         else
                         (let src = recv_staging_ptr fs';
                              (ra, buf, h) = (if src \<noteq> None
                                then buf_append (recv_buf c1) src 0 chunk (wheap w')
                                else (Inr (), recv_buf c1, wheap w'));
                              c2 = c1\<lparr>recv_buf := buf\<rparr>;
                              cw2 = cw1\<lparr>cw_world := w'\<lparr>wheap := h\<rparr>\<rparr>
                          in case bindR ra (\<lambda>_. add_i32 (recv_bytes_total c2) chunk) of
                               Inl e \<Rightarrow> (Inl e, c2, cw2)
                             | Inr tot \<Rightarrow>
                                 (let c3 = c2\<lparr>recv_bytes_total := tot\<rparr>
                                  in case sub_i32 0x8000 tot of
                                       Inl e \<Rightarrow> (Inl e, c3, cw2)
                                     | Inr remaining \<Rightarrow>
                                         if remaining \<le> 0 then (Inr (Some 0), c3\<lparr>fsm_state := 4\<rparr>, cw2)
                                         else
                                           (let c4 = set_recv_pending_byte 1 c3;
                                                (r, fs'', w'') = fast_recv (an_wsa an) i remaining
                                                                   (cw_socks cw2 i) (cw_world cw2);
                                                cw3 = cw2\<lparr>cw_socks := (cw_socks cw2)(i := fs''), cw_world := w''\<rparr>
                                            in case r of
                                                 Inl e \<Rightarrow> (Inl e, c4, cw3)
                                               | Inr None \<Rightarrow> (Inr None, c4, cw3)
                                               | Inr (Some x) \<Rightarrow>
                                                   if x \<noteq> 0 then (Inr (Some 0), c4\<lparr>fsm_state := 5\<rparr>, cw3)
                                                   else (Inr (Some 0), c4, cw3))))))))"

section \<open>The states\<close>

lemma set_byte_frame [simp]:
  "fsm_state (set_recv_pending_byte b c) = fsm_state c" "own_fast (set_recv_pending_byte b c) = own_fast c"
  "arm_fast (set_recv_pending_byte b c) = arm_fast c" "recv_buf (set_recv_pending_byte b c) = recv_buf c"
  "recv_bytes_total (set_recv_pending_byte b c) = recv_bytes_total c"
  "outbound (set_recv_pending_byte b c) = outbound c"
  by (simp_all add: set_recv_pending_byte_def)

lemma arm_send_frame:
  "arm_send as c cw = (r, c', cw') \<Longrightarrow>
   fsm_state c' = fsm_state c \<and> own_fast c' = own_fast c \<and> arm_fast c' = arm_fast c \<and> recv_buf c' = recv_buf c
   \<and> send_offset c' = send_offset c \<and> outbound c' = outbound c \<and> recv_bytes_total c' = recv_bytes_total c"
  by (auto simp: arm_send_def Let_def split: sum.splits option.splits if_splits prod.splits)

lemma retry_state:
  "retry_connect_on_poll_except an c cw = (r, c', cw') \<Longrightarrow> fsm_state c' = fsm_state c \<or> fsm_state c' = 5"
  by (auto simp: retry_connect_on_poll_except_def Let_def split: option.splits if_splits prod.splits)

lemma run_state_1_edges:
  assumes "run_state_1 an c cw = (r, c', cw')"
  shows "fsm_state c' = fsm_state c \<or> fsm_state c' \<in> {2, 5}"
proof (cases "fast c")
  case None
  with assms show ?thesis by (simp add: run_state_1_def)
next
  case (Some i)
  define sel where "sel = sel_wait (an_select an)
    (add_except (add_read sel_init (Some (cw_socks cw i))) (Some (cw_socks cw i)))"
  obtain rdy po cw1 where p: "sel_poll an sel i cw = (rdy, po, cw1)" by (metis prod_cases3)
  show ?thesis
    using assms Some p retry_state [of an c cw1]
    by (auto simp: run_state_1_def sel_def [symmetric] Let_def split: if_splits prod.splits sum.splits option.splits
        dest!: arm_send_frame)
qed

lemma run_state_2_edges:
  assumes "run_state_2 an c cw = (r, c', cw')"
  shows "fsm_state c' = fsm_state c \<or> fsm_state c' \<in> {3, 5}"
  using assms
  by (auto simp: run_state_2_def Let_def split: if_splits prod.splits sum.splits option.splits
        dest!: arm_send_frame)

lemma run_state_3_edges:
  assumes "run_state_3 an c cw = (r, c', cw')"
  shows "fsm_state c' = fsm_state c \<or> fsm_state c' \<in> {4, 5}"
  using assms
  by (auto simp: run_state_3_def Let_def split: if_splits prod.splits sum.splits option.splits)

text \<open>The worker runs the function of the node's state; other states have none.\<close>

inductive conn_step :: "conn \<times> cworld \<Rightarrow> conn \<times> cworld \<Rightarrow> bool" where
  state1: "fsm_state c = 1 \<Longrightarrow> run_state_1 an c cw = (r, c', cw') \<Longrightarrow> conn_step (c, cw) (c', cw')"
| state2: "fsm_state c = 2 \<Longrightarrow> run_state_2 an c cw = (r, c', cw') \<Longrightarrow> conn_step (c, cw) (c', cw')"
| state3: "fsm_state c = 3 \<Longrightarrow> run_state_3 an c cw = (r, c', cw') \<Longrightarrow> conn_step (c, cw) (c', cw')"

inductive_cases conn_stepE: "conn_step (c, cw) s"

lemma conn_step_edges:
  "conn_step s s' \<Longrightarrow>
   (fsm_state (fst s), fsm_state (fst s')) \<in> {(1, 1), (1, 2), (1, 5), (2, 2), (2, 3), (2, 5), (3, 3), (3, 4), (3, 5)}"
  by (induction rule: conn_step.induct) (auto dest!: run_state_1_edges run_state_2_edges run_state_3_edges)

section \<open>Memory of a connection\<close>

definition apart :: "gbuf \<Rightarrow> gbuf \<Rightarrow> bool" where
  "apart a b \<longleftrightarrow> (data_p a = data_p b \<longrightarrow> data_p a = None)"

definition conn_ok :: "nat \<Rightarrow> conn \<Rightarrow> cworld \<Rightarrow> bool" where
  "conn_ok i c cw \<longleftrightarrow> own_fast c = Some i \<and> (arm_fast c = None \<or> arm_fast c = Some i)
     \<and> fs_ok (cw_socks cw i) (wheap (cw_world cw))
     \<and> gbuf_ok (recv_buf c) (wheap (cw_world cw))
     \<and> apart (recv_buf c) (recv_growable (cw_socks cw i))
     \<and> apart (recv_buf c) (send_staging (cw_socks cw i))"

text \<open>A receive leaves a third buffer alone, and so does a send.\<close>

lemma fast_recv_other:
  assumes ok: "fs_ok fs (wheap w)" and o: "gbuf_ok other (wheap w)" "apart other (recv_growable fs)"
    and r: "fast_recv as self len fs w = (r, fs', w')"
  shows "gbuf_ok other (wheap w') \<and> contents other (wheap w') = contents other (wheap w)
    \<and> apart other (recv_growable fs')"
proof (cases "len \<le> 0")
  case True
  with o r show ?thesis by (auto simp: fast_recv_def Let_def)
next
  case False
  obtain x buf h where e: "ensure_size (recv_growable fs) len (wheap w) = (x, buf, h)" by (metis prod_cases3)
  have p: "gbuf_ok (recv_growable fs) (wheap w)" "heap_wf (wheap w)"
    "data_p (recv_growable fs) = data_p other \<longrightarrow> data_p (recv_growable fs) = None"
    using ok o(2) by (auto simp: fs_ok_def apart_def)
  note q = ensure_one_of_two [OF p(1) o(1) p(2) p(3) e]
  have "recv_growable fs' = buf \<and> wheap w' = h"
    using r False e
    by (auto simp: fast_recv_def Let_def split: sum.splits option.splits wsa_outcome.splits prod.splits)
  with q show ?thesis by (auto simp: apart_def)
qed

lemma fast_send_other:
  assumes ok: "fs_ok fs (wheap w)" and o: "gbuf_ok other (wheap w)" "apart other (send_staging fs)"
    and r: "fast_send as self data len fs w = (r, fs', w')"
  shows "gbuf_ok other (wheap w') \<and> contents other (wheap w') = contents other (wheap w)
    \<and> apart other (send_staging fs')"
proof (cases "len \<le> 0")
  case True
  with o r show ?thesis by (auto simp: fast_send_def Let_def)
next
  case False
  obtain x buf h where e: "ensure_size (send_staging fs) len (wheap w) = (x, buf, h)" by (metis prod_cases3)
  have p: "gbuf_ok (send_staging fs) (wheap w)" "heap_wf (wheap w)"
    "data_p (send_staging fs) = data_p other \<longrightarrow> data_p (send_staging fs) = None"
    using ok o(2) by (auto simp: fs_ok_def apart_def)
  note q = ensure_one_of_two [OF p(1) o(1) p(2) p(3) e]
  have f: "send_staging fs' = buf
      \<and> (wheap w' = h \<or> memcpy_in (send_staging_data (fs\<lparr>send_staging := buf\<rparr>)) data (nat len) h = Inr (wheap w'))"
    using r False e
    by (auto simp: fast_send_def Let_def split: sum.splits option.splits wsa_outcome.splits prod.splits)
  show ?thesis
  proof (cases "wheap w' = h")
    case True
    with q f show ?thesis by (auto simp: apart_def)
  next
    case False
    with f obtain b new where m: "data_p buf = Some b" "hwrite b new h = wheap w'"
      by (auto simp: memcpy_in_def send_staging_data_def split: option.splits if_splits)
    have "data_p other \<noteq> Some b" using q(5) m(1) by auto
    with q f m(1) show ?thesis using gbuf_ok_write_other [OF q(2)] m(2) [symmetric] by (auto simp: apart_def)
  qed
qed

lemma fast_recv_posted_size:
  "fs_ok fs (wheap w) \<Longrightarrow> fast_recv as self len fs w = (Inr x, fs', w') \<Longrightarrow> 0 < len \<Longrightarrow>
   gsize (recv_growable fs') = len"
proof -
  assume ok: "fs_ok fs (wheap w)" and r: "fast_recv as self len fs w = (Inr x, fs', w')" and l: "0 < len"
  obtain y buf h where e: "ensure_size (recv_growable fs) len (wheap w) = (y, buf, h)" by (metis prod_cases3)
  have p: "gbuf_ok (recv_growable fs) (wheap w)" "heap_wf (wheap w)" using ok by (auto simp: fs_ok_def)
  have "recv_growable fs' = buf \<and> (\<exists>u. y = Inr u)"
    using r l e
    by (auto simp: fast_recv_def Let_def split: sum.splits option.splits wsa_outcome.splits prod.splits)
  with sized.ensure_ok(5) [OF p e] show ?thesis by auto
qed

lemma conn_ok_arm_send:
  assumes "conn_ok i c cw" "arm_send as c cw = (r, c', cw')"
  shows "conn_ok i c' cw'"
proof -
  note f = arm_send_frame [OF assms(2)]
  show ?thesis
  proof (cases "cw' = cw")
    case True
    with f assms(1) show ?thesis by (simp add: conn_ok_def)
  next
    case False
    have "\<exists>fs' w' as data len r'. fast_send as i data len (cw_socks cw i) (cw_world cw) = (r', fs', w')
        \<and> cw' = cw\<lparr>cw_socks := (cw_socks cw)(i := fs'), cw_world := w'\<rparr>"
      using assms False
      by (auto simp: arm_send_def Let_def conn_ok_def split: sum.splits option.splits if_splits prod.splits)
        blast+
    then obtain fs' w' as data len r' where s: "fast_send as i data len (cw_socks cw i) (cw_world cw) = (r', fs', w')"
      "cw' = cw\<lparr>cw_socks := (cw_socks cw)(i := fs'), cw_world := w'\<rparr>" by blast
    have ok: "fs_ok (cw_socks cw i) (wheap (cw_world cw))" "gbuf_ok (recv_buf c) (wheap (cw_world cw))"
      "apart (recv_buf c) (send_staging (cw_socks cw i))"
      using assms(1) by (auto simp: conn_ok_def)
    from fast_send_ok [OF ok(1) s(1)] fast_send_other [OF ok s(1)] s(2) f assms(1) show ?thesis
      by (simp add: conn_ok_def)
  qed
qed

lemma conn_ok_recv:
  assumes "conn_ok i c cw" "fast_recv as i len (cw_socks cw i) (cw_world cw) = (r, fs', w')"
  shows "conn_ok i c (cw\<lparr>cw_socks := (cw_socks cw)(i := fs'), cw_world := w'\<rparr>)"
    "contents (recv_buf c) (wheap w') = contents (recv_buf c) (wheap (cw_world cw))"
proof -
  have ok: "fs_ok (cw_socks cw i) (wheap (cw_world cw))" "gbuf_ok (recv_buf c) (wheap (cw_world cw))"
    "apart (recv_buf c) (recv_growable (cw_socks cw i))"
    using assms(1) by (auto simp: conn_ok_def)
  show "conn_ok i c (cw\<lparr>cw_socks := (cw_socks cw)(i := fs'), cw_world := w'\<rparr>)"
    "contents (recv_buf c) (wheap w') = contents (recv_buf c) (wheap (cw_world cw))"
    using fast_recv_ok [OF ok(1) assms(2)] fast_recv_other [OF ok assms(2)] assms(1) by (auto simp: conn_ok_def)
qed

lemma conn_ok_upd:
  "conn_ok i c cw \<Longrightarrow> conn_ok i (c\<lparr>fsm_state := s\<rparr>) cw"
  "conn_ok i c cw \<Longrightarrow> conn_ok i (set_recv_pending_byte b c) cw"
  "conn_ok i c cw \<Longrightarrow> conn_ok i (c\<lparr>conn_send_pending := p\<rparr>) cw"
  "conn_ok i c cw \<Longrightarrow> conn_ok i (c\<lparr>send_offset := off, send_bytes_done := d\<rparr>) cw"
  "conn_ok i c cw \<Longrightarrow> conn_ok i (c\<lparr>recv_bytes_total := t\<rparr>) cw"
  by (simp_all add: conn_ok_def set_recv_pending_byte_def)

section \<open>Receiving in state 3\<close>

text \<open>
  A completed receive of \<open>chunk\<close> bytes, no more than were posted: the chunk is appended.
\<close>

lemma state3_append:
  assumes ok: "conn_ok i c cw" and no: "no_oom (wheap (cw_world cw))"
    and ans: "ov_ok (an_overlapped an)" "recv_pending (cw_socks cw i) \<noteq> 0" "overlap_tag (cw_socks cw i) \<noteq> 259"
    and chunk: "chunk = sint (ov_transferred (an_overlapped an))" "0 < chunk"
      "chunk \<le> gsize (recv_growable (cw_socks cw i))"
    and room: "gsize (recv_buf c) + chunk \<le> 2 ^ 30" "0 \<le> recv_bytes_total c" "recv_bytes_total c + chunk \<le> 2 ^ 30"
  obtains fs1 w1 buf h where
    "recv_complete (an_no_net_logs an) (an_overlapped an) (an_peer an) i (Some (replicate 8 0))
       (cw_socks cw i) (cw_world cw)
     = (1, Some ([ov_flags (an_overlapped an), 0, 0, 0, 0, ov_transferred (an_overlapped an), 0, 0]), fs1, w1)"
    "recv_staging_ptr fs1 \<noteq> None"
    "buf_append (recv_buf c) (recv_staging_ptr fs1) 0 chunk (wheap w1) = (Inr (), buf, h)"
    "conn_ok i (c\<lparr>recv_buf := buf\<rparr>) (cw\<lparr>cw_socks := (cw_socks cw)(i := fs1), cw_world := w1\<lparr>wheap := h\<rparr>\<rparr>)"
    "contents buf h = contents (recv_buf c) (wheap (cw_world cw))
       @ take (nat chunk) (contents (recv_growable (cw_socks cw i)) (wheap (cw_world cw)))"
    "no_oom h" "gsize buf = gsize (recv_buf c) + chunk" "recv_growable fs1 = recv_growable (cw_socks cw i)"
proof -
  let ?fs = "cw_socks cw i" and ?w = "cw_world cw"
  obtain q out fs1 w1 where rc: "recv_complete (an_no_net_logs an) (an_overlapped an) (an_peer an) i
      (Some (replicate 8 0)) ?fs ?w = (q, out, fs1, w1)" by (metis prod_cases4)
  have q: "q = 1" "out = Some [ov_flags (an_overlapped an), 0, 0, 0, 0, ov_transferred (an_overlapped an), 0, 0]"
    using rc ans by (auto simp: recv_complete_def Let_def kOverlapInFlightTag_def eval_nat_numeral)
  have fs: "fs_ok ?fs (wheap ?w)" "gbuf_ok (recv_buf c) (wheap ?w)" "heap_wf (wheap ?w)"
    "apart (recv_buf c) (recv_growable ?fs)" "apart (recv_buf c) (send_staging ?fs)"
    using ok by (auto simp: conn_ok_def fs_ok_def)
  note f1 = recv_complete_ok [OF fs(1) rc]
  have g: "gbuf_ok (recv_growable ?fs) (wheap ?w)" "gbuf_ok (send_staging ?fs) (wheap ?w)" using fs(1) by (auto simp: fs_ok_def)
  from g(1) obtain b cells where b: "data_p (recv_growable ?fs) = Some b" "hblk (wheap ?w) b = Some cells"
    "length cells = nat (capacity (recv_growable ?fs))"
    "contents (recv_growable ?fs) (wheap ?w) = take (nat (gsize (recv_growable ?fs))) cells"
    using chunk(2,3) by (cases rule: gbuf_okE) auto
  have sp: "recv_staging_ptr fs1 = Some b"
    using f1 b chunk(2,3) by (auto simp: recv_staging_ptr_def)
  have ab: "data_p (recv_buf c) \<noteq> Some b" using fs(4) b(1) by (auto simp: apart_def)
  have "chunk \<le> capacity (recv_growable ?fs)" using chunk(3) gbuf_ok_basic [OF g(1)] by auto
  then have cl: "0 + nat chunk \<le> length cells" using b(3) by (simp add: nat_mono)
  have i: "i32_ok (gsize (recv_buf c) + chunk)"
    using room(1) chunk(2) gbuf_ok_basic [OF fs(2)] by (simp add: i32_ok_def)
  obtain r buf h where a: "buf_append (recv_buf c) (Some b) 0 chunk (wheap ?w) = (r, buf, h)" by (metis prod_cases3)
  have r: "r = Inr ()"
    using buf_append_granted [OF fs(2,3) no chunk(2) room(1) b(2) ab cl] a by simp
  note ap = buf_append_ok [OF fs(2,3) chunk(2) i b(2) ab cl a]
  have kept: "other_blocks_kept (recv_buf c) (wheap ?w) h" using ap by blast
  have new: "data_p buf = data_p (recv_buf c) \<or> (\<exists>d. data_p buf = Some d \<and> hblk (wheap ?w) d = None)"
    by (rule buf_append_data [OF fs(2,3) a])
  have others: "gbuf_ok (recv_growable ?fs) h" "gbuf_ok (send_staging ?fs) h"
    using gbuf_ok_kept [OF g(1) kept] gbuf_ok_kept [OF g(2) kept] fs(4,5) by (auto simp: apart_def)
  have aps: "apart buf (recv_growable ?fs)" "apart buf (send_staging ?fs)"
    using data_p_apart [OF g(1) _ new] data_p_apart [OF g(2) _ new] fs(4,5) by (auto simp: apart_def)
  have ok': "conn_ok i (c\<lparr>recv_buf := buf\<rparr>) (cw\<lparr>cw_socks := (cw_socks cw)(i := fs1), cw_world := w1\<lparr>wheap := h\<rparr>\<rparr>)"
    using ok f1 ap others aps by (auto simp: conn_ok_def fs_ok_def)
  have cont: "contents buf h = contents (recv_buf c) (wheap ?w)
      @ take (nat chunk) (contents (recv_growable ?fs) (wheap ?w))"
    using ap r b(4) chunk(3) by (simp add: min_def)
  show thesis
    by (rule that [OF rc [unfolded q] _ _ ok' cont])
      (use sp a r f1 ap no in \<open>auto simp: no_oom_def\<close>)
qed

section \<open>Properties\<close>


definition idle_conn :: conn where
  "idle_conn = \<lparr>arm_fast = Some 0, own_fast = Some 0, outbound = [Some 65, Some 66], conn_send_pending = 0,
     send_offset = 0, send_bytes_done = 0, recv_bytes_total = 0, recv_buf = idle_buf, fsm_state = 1,
     upnp_submode = 0, gateway_ctx = None\<rparr>"

definition idle_cworld :: cworld where
  "idle_cworld = \<lparr>cw_world = idle_world, cw_socks = (\<lambda>_. idle_socket), cw_trace = []\<rparr>"

definition idle_answers :: step_answers where
  "idle_answers = \<lparr>an_select = \<lparr>sa_ok = True, sa_ready = [7], sa_failed = []\<rparr>, an_so_error = None,
     an_tcp = demo_answers, an_overlapped = \<lparr>ov_ok = True, ov_transferred = 2, ov_flags = 0, ov_error = 0\<rparr>,
     an_peer = None, an_wsa = [(-1, 997)], an_gp = (\<lambda>_. None), an_ctx_page = None, an_slot_page = None, an_no_net_logs = True\<rparr>"


text \<open>What posting a receive answers: Winsock's error, a wait that is still on, or 0.\<close>

lemma fast_recv_answer:
  assumes "fs_ok fs (wheap w)" "no_oom (wheap w)" "0 < len" "len \<le> 2 ^ 30" "gsize (recv_growable fs) \<le> 2 ^ 30"
    and "fast_recv wsa i len fs w = (y, fs', w')" "wsa_loop wsa = (out, n)"
  shows "y = (case out of Wsa_Failed e \<Rightarrow> Inr (Some e) | Wsa_Waiting \<Rightarrow> Inr None | _ \<Rightarrow> Inr (Some 0))"
proof -
  obtain b dst fs3 where "fast_recv wsa i len fs w =
     (case wsa_loop wsa of (out, n) \<Rightarrow>
      (let w5 = note_retries n (log_ev (Ev_WSARecv (sock_handle fs) (Some b) len)
             ((if recv_pending fs \<noteq> 0 then log_ev Ev_IssueRecvDup (note_ctx i w) else note_ctx i w)
                \<lparr>wheap := snd (snd (ensure_size (recv_growable fs) len (wheap w)))\<rparr>))
       in case out of
            Wsa_Failed e \<Rightarrow> (Inr (Some e), fs3\<lparr>recv_pending := 0\<rparr>,
                SocketReportError (Some (fs3\<lparr>recv_pending := 0\<rparr>)) e w5)
          | Wsa_Waiting \<Rightarrow> (Inr None, fs3, w5)
          | _ \<Rightarrow> (Inr (Some 0), fs3, w5)))"
    by (rule fast_recv_posts [OF assms(1), of len wsa i]) (use assms(2-5) in auto)
  with assms(6,7) show ?thesis by (cases out) (auto simp: Let_def)
qed

text \<open>What state 3 does once the bytes of a completed receive are in its buffer: the end at 8000 bytes (hexadecimal), or a
  receive for the rest.\<close>

lemma state3_at_end:
  assumes "fast c = Some i" "0 < chunk"
    and "recv_complete (an_no_net_logs an) (an_overlapped an) (an_peer an) i (Some (replicate 8 0)) (cw_socks cw i) (cw_world cw)
       = (1, Some [ov_flags (an_overlapped an), 0, 0, 0, 0, ov_transferred (an_overlapped an), 0, 0], fs1, w1)"
    and "recv_staging_ptr fs1 \<noteq> None" "chunk = sint (ov_transferred (an_overlapped an))"
    and "buf_append (recv_buf c) (recv_staging_ptr fs1) 0 chunk (wheap w1) = (Inr (), buf, h)"
    and "0 \<le> recv_bytes_total c" "recv_bytes_total c + chunk \<le> 2 ^ 30" "0x8000 \<le> recv_bytes_total c + chunk"
  shows "run_state_3 an c cw =
    (Inr (Some 0), (set_recv_pending_byte 0 (c\<lparr>recv_buf := buf, recv_bytes_total := recv_bytes_total c + chunk\<rparr>))\<lparr>fsm_state := 4\<rparr>,
     cw\<lparr>cw_socks := (cw_socks cw)(i := fs1), cw_world := w1\<lparr>wheap := h\<rparr>\<rparr>)"
  using assms
  by (auto simp: run_state_3_def Let_def set_recv_pending_byte_def add_i32_def sub_i32_def i32_ok_def)

lemma state3_goes_on:
  assumes "fast c = Some i" "0 < chunk"
    and "recv_complete (an_no_net_logs an) (an_overlapped an) (an_peer an) i (Some (replicate 8 0)) (cw_socks cw i) (cw_world cw)
       = (1, Some [ov_flags (an_overlapped an), 0, 0, 0, 0, ov_transferred (an_overlapped an), 0, 0], fs1, w1)"
    and "recv_staging_ptr fs1 \<noteq> None" "chunk = sint (ov_transferred (an_overlapped an))"
    and "buf_append (recv_buf c) (recv_staging_ptr fs1) 0 chunk (wheap w1) = (Inr (), buf, h)"
    and "0 \<le> recv_bytes_total c" "recv_bytes_total c + chunk \<le> 2 ^ 30" "recv_bytes_total c + chunk < 0x8000"
    and "fast_recv (an_wsa an) i (0x8000 - (recv_bytes_total c + chunk)) fs1 (w1\<lparr>wheap := h\<rparr>) = (Inr x, fs2, w2)"
  shows "run_state_3 an c cw =
    (let c4 = set_recv_pending_byte 1 (set_recv_pending_byte 0 (c\<lparr>recv_buf := buf, recv_bytes_total := recv_bytes_total c + chunk\<rparr>));
         cw2 = cw\<lparr>cw_socks := (cw_socks cw)(i := fs2), cw_world := w2\<rparr>
     in case x of None \<Rightarrow> (Inr None, c4, cw2)
        | Some e \<Rightarrow> (Inr (Some 0), if e \<noteq> 0 then c4\<lparr>fsm_state := 5\<rparr> else c4, cw2))"
  using assms
  by (auto simp: run_state_3_def Let_def set_recv_pending_byte_def add_i32_def sub_i32_def i32_ok_def split: option.split)

text \<open>A receive that is posted: its answer, its size, and what stays.\<close>

lemma posted_receive:
  assumes "conn_ok i c cw" "no_oom (wheap (cw_world cw))" "0 < len" "len \<le> 2 ^ 30" "gsize (recv_growable (cw_socks cw i)) \<le> 2 ^ 30"
    and "fast_recv wsa i len (cw_socks cw i) (cw_world cw) = (y, fs2, w2)" "wsa_loop wsa = (out, n)"
  obtains x where "y = Inr x" "x = (case out of Wsa_Failed e \<Rightarrow> Some e | Wsa_Waiting \<Rightarrow> None | _ \<Rightarrow> Some 0)"
    "gsize (recv_growable fs2) = len" "conn_ok i c (cw\<lparr>cw_socks := (cw_socks cw)(i := fs2), cw_world := w2\<rparr>)"
    "contents (recv_buf c) (wheap w2) = contents (recv_buf c) (wheap (cw_world cw))"
proof -
  have ok: "fs_ok (cw_socks cw i) (wheap (cw_world cw))" using assms(1) by (simp add: conn_ok_def)
  obtain x where x: "y = Inr x" "x = (case out of Wsa_Failed e \<Rightarrow> Some e | Wsa_Waiting \<Rightarrow> None | _ \<Rightarrow> Some 0)"
    using fast_recv_answer [OF ok assms(2-7)] by (cases out) auto
  have "gsize (recv_growable fs2) = len" by (rule fast_recv_posted_size [OF ok assms(6) [unfolded x(1)]]) (use assms(3) in simp)
  then show ?thesis using that [OF x] conn_ok_recv [OF assms(1,6)] by blast
qed


definition full_cworld :: cworld where
  "full_cworld = idle_cworld\<lparr>cw_world := idle_world\<lparr>wheap := \<lparr>hblk = [0 \<mapsto> [Some 1, Some 2, Some 3, None]],
       hnext = 1, hfail = (\<lambda>_ _. False)\<rparr>\<rparr>,
     cw_socks := (\<lambda>_. idle_socket\<lparr>recv_pending := 1, recv_growable := \<lparr>data_p = Some 0, gsize = 4, capacity = 4,
       min_capacity = 0, growth_mode = 0\<rparr>\<rparr>)\<rparr>"

lemma full_ok: "conn_ok 0 (idle_conn\<lparr>fsm_state := 3\<rparr>) full_cworld" "no_oom (wheap (cw_world full_cworld))"
  by (auto simp: conn_ok_def full_cworld_def idle_cworld_def idle_world_def idle_socket_def idle_conn_def fs_ok_def
      gbuf_ok_def idle_buf_def heap_wf_def apart_def i32_ok_def no_oom_def split: if_splits)


text \<open>A receive that fails for good is never noticed: when the overlapped result is an error, state
  3 returns 0 and the node and its socket stay exactly as they are, so the connection neither
  ends nor receives again.\<close>

theorem state3_error_ignored:
  assumes "own_fast c = Some i" and "\<not> ov_ok (an_overlapped an)"
  shows "\<exists>w'. run_state_3 an c cw = (Inr (Some 0), c, cw\<lparr>cw_world := w'\<rparr>) \<and> wheap w' = wheap (cw_world cw)"
proof -
  obtain q out fs' w' where rc: "recv_complete (an_no_net_logs an) (an_overlapped an) (an_peer an) i
      (Some (replicate 8 0)) (cw_socks cw i) (cw_world cw) = (q, out, fs', w')" by (metis prod_cases4)
  with assms(2) have "q = 0" "fs' = cw_socks cw i" "wheap w' = wheap (cw_world cw)"
    by (auto simp: recv_complete_def Let_def split: if_splits)
  then show ?thesis using rc assms(1) by (intro exI [of _ w']) (simp add: run_state_3_def fast_def Let_def)
qed

theorem state3_error_ignored_witness:
  "\<exists>cw'. run_state_3 (idle_answers\<lparr>an_overlapped := \<lparr>ov_ok = False, ov_transferred = 0, ov_flags = 0, ov_error = 10054\<rparr>\<rparr>)
     (idle_conn\<lparr>fsm_state := 3\<rparr>) full_cworld = (Inr (Some 0), idle_conn\<lparr>fsm_state := 3\<rparr>, cw')"
  using state3_error_ignored [of "idle_conn\<lparr>fsm_state := 3\<rparr>" 0
      "idle_answers\<lparr>an_overlapped := \<lparr>ov_ok = False, ov_transferred = 0, ov_flags = 0, ov_error = 10054\<rparr>\<rparr>" full_cworld]
  by (auto simp: idle_conn_def)

section \<open>Sending\<close>

lemma arm_send_outcome:
  assumes ok: "conn_ok i c cw" and arm: "arm_fast c = Some i" and no: "no_oom (wheap (cw_world cw))"
    and len: "length (outbound c) \<le> 2 ^ 30" "0 \<le> offset_int c" "nat (offset_int c) < length (outbound c)"
    and st: "gsize (send_staging (cw_socks cw i)) \<le> 2 ^ 30" "i32_ok (send_op_count (cw_socks cw i) + 1)"
    and r: "arm_send as c cw = (r, c', cw')" and w: "wsa_loop as = (out, n)"
  shows "r = Inr (case out of Wsa_Failed e \<Rightarrow> Some (e = 0) | Wsa_Waiting \<Rightarrow> None | _ \<Rightarrow> Some True)"
    and "contents (send_staging (cw_socks cw' i)) (wheap (cw_world cw')) = drop (nat (offset_int c)) (outbound c)"
    and "out = Wsa_Pending \<Longrightarrow> FastSocket.send_pending (cw_socks cw' i) = 0"
    and "Ev_WSASend (sock_handle (cw_socks cw i)) (drop (nat (offset_int c)) (outbound c)) Overlapped116
           \<in> set (wtrace (cw_world cw'))"
    and "conn_ok i c' cw'"
proof -
  let ?d = "drop (nat (offset_int c)) (outbound c)"
  have il: "int_of_size (length (outbound c)) = int (length (outbound c))"
    using len(1) by (simp add: int_of_size_def sint_u32_of_nat)
  define slc where "slc = int (length (outbound c)) - offset_int c"
  have slc: "0 < slc" "slc \<le> 2 ^ 30" "nat slc = length ?d" "sub_i32 (int_of_size (length (outbound c))) (offset_int c) = Inr slc"
    using len il by (auto simp: slc_def sub_i32_def i32_ok_def)
  obtain x fs' w' where s: "fast_send as i ?d slc (cw_socks cw i) (cw_world cw) = (x, fs', w')" by (metis prod_cases3)
  have ok': "fs_ok (cw_socks cw i) (wheap (cw_world cw))" using ok by (simp add: conn_ok_def)
  have "nat slc \<le> length ?d" using slc(3) by simp
  note fs = fast_send_stages [OF ok' no slc(1,2) st(1) this st(2) s]
  have x: "x = Inr (case out of Wsa_Failed e \<Rightarrow> Some e | Wsa_Waiting \<Rightarrow> None | _ \<Rightarrow> Some 0)"
    using fs(2) w by (cases out) auto
  have cw': "cw_socks cw' i = fs'" "cw_world cw' = w'"
    and r': "r = Inr (case out of Wsa_Failed e \<Rightarrow> Some (e = 0) | Wsa_Waiting \<Rightarrow> None | _ \<Rightarrow> Some True)"
    using r slc(1,4) arm s x len(2) by (auto simp: arm_send_def Let_def split: wsa_outcome.splits if_splits)
  show "r = Inr (case out of Wsa_Failed e \<Rightarrow> Some (e = 0) | Wsa_Waiting \<Rightarrow> None | _ \<Rightarrow> Some True)" by (rule r')
  show "contents (send_staging (cw_socks cw' i)) (wheap (cw_world cw')) = ?d"
    using fs(1) cw' slc(3) by simp
  show "out = Wsa_Pending \<Longrightarrow> FastSocket.send_pending (cw_socks cw' i) = 0"
    using fs(2) w cw' by simp
  show "Ev_WSASend (sock_handle (cw_socks cw i)) ?d Overlapped116 \<in> set (wtrace (cw_world cw'))"
    using fs(2) w cw' slc(3) by simp
  show "conn_ok i c' cw'" by (rule conn_ok_arm_send [OF ok r])
qed

text \<open>Arming a send hands Winsock exactly the part of the outbound string from the send offset
  on, copied to the staging buffer, and keeps the connection's memory well-formed; it succeeds
  exactly when Winsock accepts or queues the output.\<close>

theorem arm_send_hands_rest:
  assumes "conn_ok i c cw" and "arm_fast c = Some i" and "no_oom (wheap (cw_world cw))"
    and "length (outbound c) \<le> 2 ^ 30" and "0 \<le> offset_int c" and "nat (offset_int c) < length (outbound c)"
    and "gsize (send_staging (cw_socks cw i)) \<le> 2 ^ 30" and "i32_ok (send_op_count (cw_socks cw i) + 1)"
    and "arm_send as c cw = (r, c', cw')" and "wsa_loop as = (out, n)"
  shows "conn_ok i c' cw'
    \<and> contents (send_staging (cw_socks cw' i)) (wheap (cw_world cw')) = drop (nat (offset_int c)) (outbound c)
    \<and> Ev_WSASend (sock_handle (cw_socks cw i)) (drop (nat (offset_int c)) (outbound c)) Overlapped116
        \<in> set (wtrace (cw_world cw'))
    \<and> r = Inr (case out of Wsa_Failed e \<Rightarrow> Some (e = 0) | Wsa_Waiting \<Rightarrow> None | _ \<Rightarrow> Some True)"
  using arm_send_outcome [OF assms] by blast

lemma idle_conn_ok: "conn_ok 0 idle_conn idle_cworld" "no_oom (wheap (cw_world idle_cworld))"
  "send_staging (cw_socks idle_cworld 0) = idle_buf" "send_op_count (cw_socks idle_cworld 0) = 0"
  using idle_ok by (auto simp: conn_ok_def idle_conn_def idle_cworld_def idle_socket_def apart_def idle_buf_def gbuf_ok_def i32_ok_def)

theorem arm_send_hands_rest_witness:
  "\<exists>r c' cw'. arm_send [(0, 0)] idle_conn idle_cworld = (r, c', cw') \<and> r = Inr (Some True)
     \<and> contents (send_staging (cw_socks cw' 0)) (wheap (cw_world cw')) = [Some 65, Some 66]"
proof -
  obtain r c' cw' where r: "arm_send [(0, 0)] idle_conn idle_cworld = (r, c', cw')" by (metis prod_cases3)
  have w: "wsa_loop [(0, 0)] = (Wsa_Accepted, 0)" by simp
  have o: "offset_int idle_conn = 0" by (simp add: offset_int_def idle_conn_def)
  have b: "gsize idle_buf = 0" by (simp add: idle_buf_def)
  have "outbound idle_conn = [Some 65, Some 66]" "arm_fast idle_conn = Some 0" by (simp_all add: idle_conn_def)
  then show ?thesis
    using arm_send_hands_rest [OF idle_conn_ok(1) _ idle_conn_ok(2) _ _ _ _ _ r w] r o b idle_conn_ok(3,4)
    by (simp add: i32_ok_def)
qed

text \<open> C30: A connection whose send is queued never leaves state 2: once \<open>arm_send\<close> ended with
  \<open>ERROR_IO_PENDING\<close>, every further run of state 2 returns 0 and changes nothing, whatever the system
  answers.\<close>

theorem queued_send_stalls_state2:
  assumes "conn_ok i c cw" and "arm_fast c = Some i" and "no_oom (wheap (cw_world cw))"
    and "length (outbound c) \<le> 2 ^ 30" and "0 \<le> offset_int c" and "nat (offset_int c) < length (outbound c)"
    and "gsize (send_staging (cw_socks cw i)) \<le> 2 ^ 30" and "i32_ok (send_op_count (cw_socks cw i) + 1)"
    and "arm_send ((-1, WSA_IO_PENDING) # as) c cw = (r, c', cw')"
  shows "r = Inr (Some True) \<and> (\<forall>an. run_state_2 an c' cw' = (Inr (Some 0), c', cw'))"
proof -
  have w: "wsa_loop ((-1, WSA_IO_PENDING) # as) = (Wsa_Pending, 0)" by simp
  note a = arm_send_outcome [OF assms w]
  have "own_fast c' = Some i" using a(5) by (simp add: conn_ok_def)
  then show ?thesis
    using a(1,3) by (simp add: run_state_2_def send_complete_def fast_def Let_def)
qed

theorem queued_send_stalls_state2_witness:
  "\<exists>c' cw'. arm_send [(-1, 997)] idle_conn idle_cworld = (Inr (Some True), c', cw')
     \<and> run_state_2 idle_answers c' cw' = (Inr (Some 0), c', cw')"
proof -
  obtain r c' cw' where r: "arm_send [(-1, 997)] idle_conn idle_cworld = (r, c', cw')" by (metis prod_cases3)
  then have r': "arm_send ((-1, WSA_IO_PENDING) # []) idle_conn idle_cworld = (r, c', cw')"
    by (simp add: WSA_IO_PENDING_def)
  have o: "offset_int idle_conn = 0" by (simp add: offset_int_def idle_conn_def)
  have b: "gsize idle_buf = 0" by (simp add: idle_buf_def)
  have "outbound idle_conn = [Some 65, Some 66]" "arm_fast idle_conn = Some 0" by (simp_all add: idle_conn_def)
  then show ?thesis
    using queued_send_stalls_state2 [OF idle_conn_ok(1) _ idle_conn_ok(2) _ _ _ _ _ r'] r o b idle_conn_ok(3,4)
    by (simp add: i32_ok_def)
qed

text \<open>\<open>kRecvPending\<close> is the low byte of \<open>send_offset\<close>: when the last piece of the outbound
  string has been sent and state 2 posts its receive, the offset is overwritten, and what
  \<open>outbound_remaining\<close> computes from then on is wrong unless the length ends in the byte 1.\<close>

theorem state2_corrupts_send_offset:
  assumes "own_fast c = Some i" and "FastSocket.send_pending (cw_socks cw i) \<noteq> 0" and "ov_ok (an_overlapped an)"
    and "bytes = sint (ov_transferred (an_overlapped an))" and "0 < bytes"
    and "offset_int c + bytes = int (length (outbound c))" and "length (outbound c) \<le> 2 ^ 30"
    and "i32_ok (send_bytes_done c + bytes)"
    and "run_state_2 an c cw = (Inr (Some x), c', cw')" and "fsm_state c' = 3" and "fsm_state c = 2"
  shows "send_offset c' = (word_of_nat (length (outbound c)) AND NOT 0xFF) OR 1
    \<and> (send_offset c' = word_of_nat (length (outbound c)) \<longleftrightarrow> length (outbound c) mod 256 = 1)"
proof -
  let ?L = "length (outbound c)"
  let ?w = "word_of_nat ?L :: u32"
  obtain q out fs' w' where sc: "send_complete (an_overlapped an) (Some (replicate 8 0)) (cw_socks cw i) (cw_world cw)
      = (q, out, fs', w')" by (metis prod_cases4)
  have t: "ov_transferred (an_overlapped an) \<noteq> 0" using assms(4,5) by auto
  have q: "q = 1" "out = Some [1, 0, 0, 0, 0, ov_transferred (an_overlapped an), 0, 0]"
    using sc assms(2,3) t by (auto simp: send_complete_def Let_def eval_nat_numeral)
  have il: "int_of_size ?L = int ?L" "sint ?w = int ?L"
    using assms(7) by (simp_all add: int_of_size_def sint_u32_of_nat)
  have off: "add_i32 (offset_int c) bytes = Inr (int ?L)" "add_i32 (send_bytes_done c) bytes = Inr (send_bytes_done c + bytes)"
    using assms(6-8) by (auto simp: add_i32_def i32_ok_def)
  let ?c2 = "c\<lparr>conn_send_pending := 0, send_offset := ?w, send_bytes_done := send_bytes_done c + bytes\<rparr>"
  have rem: "outbound_remaining ?c2 = Inr 0"
    using il by (simp add: outbound_remaining_def sub_i32_def i32_ok_def offset_int_def)
  have so: "send_offset c' = (?w AND NOT 0xFF) OR 1"
    using assms(9,10) assms(1,4,5) sc q off rem assms(11)
    by (auto simp: run_state_2_def fast_def Let_def offset_int_def set_recv_pending_byte_def split: prod.splits sum.splits option.splits if_splits)
  have m: "(0xFF :: u32) = mask 8" by (simp add: mask_eq_exp_minus_1)
  have "(?w AND NOT 0xFF) OR 1 = ?w \<longleftrightarrow> ?w AND 0xFF = 1"
  proof
    assume "(?w AND NOT 0xFF) OR 1 = ?w"
    then have "((?w AND NOT 0xFF) OR 1) AND 0xFF = ?w AND 0xFF" by simp
    moreover have "((?w AND NOT 0xFF) OR 1) AND 0xFF = 1"
      by (simp add: bit.conj_disj_distrib2 and.assoc)
    ultimately show "?w AND 0xFF = 1" by simp
  next
    assume a: "?w AND 0xFF = 1"
    have "(?w AND NOT 0xFF) OR (?w AND 0xFF) = ?w"
      by (simp flip: bit.conj_disj_distrib)
    with a show "(?w AND NOT 0xFF) OR 1 = ?w" by simp
  qed
  also have "\<dots> \<longleftrightarrow> ?L mod 256 = 1"
  proof -
    have "?w AND 0xFF = take_bit 8 ?w" by (simp add: m take_bit_eq_mask)
    then have "unat (?w AND 0xFF) = take_bit 8 (unat ?w)" by (simp add: unsigned_take_bit_eq)
    also have "\<dots> = ?L mod 256" using assms(7) by (simp add: unat_u32_of_nat take_bit_eq_mod)
    finally have "unat (?w AND 0xFF) = ?L mod 256" .
    then show ?thesis by (auto simp: word_unat_eq_iff)
  qed
  finally show ?thesis using so by simp
qed

theorem state2_corrupts_send_offset_witness:
  "\<exists>x c' cw'. run_state_2 idle_answers (idle_conn\<lparr>fsm_state := 2\<rparr>)
       (idle_cworld\<lparr>cw_socks := (\<lambda>_. idle_socket\<lparr>FastSocket.send_pending := 1\<rparr>)\<rparr>) = (Inr (Some x), c', cw')
     \<and> send_offset c' = 1"
proof -
  let ?c = "idle_conn\<lparr>fsm_state := 2\<rparr>"
  let ?cw = "idle_cworld\<lparr>cw_socks := (\<lambda>_. idle_socket\<lparr>FastSocket.send_pending := 1\<rparr>)\<rparr>"
  let ?fs = "idle_socket\<lparr>FastSocket.send_pending := 0\<rparr>"
  let ?w = "log_ev (Ev_Query 7 SendOverlap168) idle_world"
  have sc: "send_complete (an_overlapped idle_answers) (Some (replicate 8 0)) (cw_socks ?cw 0) (cw_world ?cw)
      = (1, Some [1, 0, 0, 0, 0, 2, 0, 0], ?fs, ?w)"
    by (simp add: send_complete_def idle_answers_def idle_cworld_def idle_socket_def Let_def eval_nat_numeral)
  have ok: "fs_ok ?fs (wheap ?w)" "no_oom (wheap ?w)" using idle_ok by (simp_all add: fs_ok_def)
  obtain r fs' w' where fr: "fast_recv [(-1, 997)] 0 0x8000 ?fs ?w = (r, fs', w')" by (metis prod_cases3)
  have g: "gsize (recv_growable ?fs) \<le> 2 ^ 30" by (simp add: idle_socket_def idle_buf_def)
  have "r = Inr (Some 0)"
  proof -
    obtain b dst fs2 where f: "fast_recv [(-1, 997)] 0 0x8000 ?fs ?w =
       (case wsa_loop [(-1, 997)] of (out, n) \<Rightarrow>
          (let w5 = note_retries n (log_ev (Ev_WSARecv (sock_handle ?fs) (Some b) 0x8000)
                 ((if recv_pending ?fs \<noteq> 0 then log_ev Ev_IssueRecvDup (note_ctx 0 ?w) else note_ctx 0 ?w)
                    \<lparr>wheap := snd (snd (ensure_size (recv_growable ?fs) 0x8000 (wheap ?w)))\<rparr>))
           in case out of
                Wsa_Failed e \<Rightarrow> (Inr (Some e), fs2\<lparr>recv_pending := 0\<rparr>,
                    SocketReportError (Some (fs2\<lparr>recv_pending := 0\<rparr>)) e w5)
              | Wsa_Waiting \<Rightarrow> (Inr None, fs2, w5)
              | _ \<Rightarrow> (Inr (Some 0), fs2, w5)))"
      by (rule fast_recv_posts [OF ok _ _ g, where len = "0x8000" and as = "[(-1, 997)]" and self = 0]) simp_all
    have "wsa_loop [(-1, 997)] = (Wsa_Pending, 0)" by (simp add: WSA_IO_PENDING_def)
    with f fr show ?thesis by (simp add: Let_def)
  qed
  with fr sc have e: "run_state_2 idle_answers ?c ?cw
      = (Inr (Some 0), (set_recv_pending_byte 1 (idle_conn\<lparr>conn_send_pending := 0, send_offset := 2, send_bytes_done := 2,
           fsm_state := 2\<rparr>))\<lparr>fsm_state := 3\<rparr>,
         ?cw\<lparr>cw_socks := (cw_socks ?cw)(0 := fs'), cw_world := w'\<rparr>)" (is "_ = (_, ?c', ?cw')")
    by (simp add: run_state_2_def fast_def idle_conn_def Let_def offset_int_def add_i32_def i32_ok_def
        outbound_remaining_def sub_i32_def int_of_size_def idle_answers_def set_recv_pending_byte_def)
  have "send_offset ?c' = (word_of_nat (length (outbound ?c)) AND NOT 0xFF) OR 1
    \<and> (send_offset ?c' = word_of_nat (length (outbound ?c)) \<longleftrightarrow> length (outbound ?c) mod 256 = 1)"
    by (rule state2_corrupts_send_offset [OF _ _ _ _ _ _ _ _ e, where i = 0 and bytes = 2])
      (simp_all add: idle_conn_def idle_cworld_def idle_socket_def idle_answers_def offset_int_def i32_ok_def)
  then show ?thesis using e by (simp add: idle_conn_def)
qed

end
