(* ===== verification/Dispatch.thy ===== *)
theory Dispatch
  imports Prelude
begin

text \<open>
  The dispatch of a received ProudNet message by its type:
  \<open>src/ProudNet/ProcessProudNetLayer.cpp\<close> and \<open>include/ProudNet/MessageType.hpp\<close>.

  The functions of the game the dispatcher calls through fixed addresses are the fields of the record
  \<open>game\<close>, over a worker state \<open>'w\<close> the model does not look into. A message is its read offset (in
  bits), its buffer and the metadata words the dispatcher copies. Every call is recorded in a trace.
  Wrapped messages make the dispatcher call itself; the model takes fuel for the nesting, and
  \<open>None\<close> is a nesting that the fuel does not reach.
\<close>

section \<open>Message types\<close>

datatype message_type =
    Rmi | UserMessage | Hla | ConnectServerTimedout | NotifyStartupEnvironment | GameNotify6
  | GameReserved7 | GameNotify8 | GameNotify9 | GameNotify10 | NotifyProtocolVersionMismatch
  | NotifyServerDeniedConnection | NotifyServerConnectSuccess | GameReserved14
  | NotifyAutoConnectionRecoverySuccess | NotifyAutoConnectionRecoveryFailed
  | RequestStartServerHolepunch | GameReserved18 | ServerHolepunchAck | GameReserved20
  | NotifyClientServerUdpMatched | GameReserved22 | PeerUdp_ServerHolepunchAck | GameNotify24
  | GameNotify25 | GameNotify26 | GameReserved27 | GameReserved28 | GameNotify29 | GameNoop30
  | GameNotify31 | GameNotify32 | GameNotify33 | GameNotify34 | GameNotify35 | GameNotify36
  | GameCompressed37 | GameCompressed38 | GameEncrypted39 | GameNotify40 | GameNotify41
  | GameEncrypted42 | GameEncrypted43 | GameEncrypted44 | GameEncrypted45 | GameEncrypted46
  | MessageType_Compressed | GameNoop48 | GameNotify49 | GameNotify50
  | S2CMulticast54 | S2CMulticast55 | S2CMulticast56

text \<open>The enumerators in the order of the source, with their ordinals.\<close>

definition all_types :: "(message_type \<times> u8) list" where
  "all_types =
    [(Rmi, 1), (UserMessage, 2), (Hla, 3), (ConnectServerTimedout, 4), (NotifyStartupEnvironment, 5),
     (GameNotify6, 6), (GameReserved7, 7), (GameNotify8, 8), (GameNotify9, 9), (GameNotify10, 10),
     (NotifyProtocolVersionMismatch, 11), (NotifyServerDeniedConnection, 12),
     (NotifyServerConnectSuccess, 13), (GameReserved14, 14), (NotifyAutoConnectionRecoverySuccess, 15),
     (NotifyAutoConnectionRecoveryFailed, 16), (RequestStartServerHolepunch, 17), (GameReserved18, 18),
     (ServerHolepunchAck, 19), (GameReserved20, 20), (NotifyClientServerUdpMatched, 21),
     (GameReserved22, 22), (PeerUdp_ServerHolepunchAck, 23), (GameNotify24, 24), (GameNotify25, 25),
     (GameNotify26, 26), (GameReserved27, 27), (GameReserved28, 28), (GameNotify29, 29), (GameNoop30, 30),
     (GameNotify31, 31), (GameNotify32, 32), (GameNotify33, 33), (GameNotify34, 34), (GameNotify35, 35),
     (GameNotify36, 36), (GameCompressed37, 37), (GameCompressed38, 38), (GameEncrypted39, 39),
     (GameNotify40, 40), (GameNotify41, 41), (GameEncrypted42, 42), (GameEncrypted43, 43),
     (GameEncrypted44, 44), (GameEncrypted45, 45), (GameEncrypted46, 46), (MessageType_Compressed, 47),
     (GameNoop48, 48), (GameNotify49, 49), (GameNotify50, 50), (S2CMulticast54, 54), (S2CMulticast55, 55),
     (S2CMulticast56, 56)]"

text \<open>\<open>static_cast<Type>\<close> of a byte; a byte that is no enumerator matches no case.\<close>

definition type_of_byte :: "u8 \<Rightarrow> message_type option" where
  "type_of_byte b = map_of (map (\<lambda>(t, n). (n, t)) all_types) b"

fun is_game_noop :: "message_type \<Rightarrow> bool" where
  "is_game_noop GameReserved7 = True"
| "is_game_noop GameReserved14 = True"
| "is_game_noop GameReserved18 = True"
| "is_game_noop GameReserved20 = True"
| "is_game_noop GameReserved22 = True"
| "is_game_noop GameReserved27 = True"
| "is_game_noop GameReserved28 = True"
| "is_game_noop GameNoop30 = True"
| "is_game_noop GameNoop48 = True"
| "is_game_noop _ = False"

section \<open>Messages and the game's functions\<close>

record msg =
  read_off :: int              \<comment> \<open>+0, in bits\<close>
  buf_data :: "u8 list option" \<comment> \<open>+0x0C\<close>
  buf_len :: u32               \<comment> \<open>+0x10\<close>
  host :: u32                  \<comment> \<open>+0x1C\<close>
  word24 :: u32                \<comment> \<open>+0x24\<close>
  word28 :: u16                \<comment> \<open>+0x28\<close>
  byte2c :: u8                 \<comment> \<open>+0x2C\<close>

datatype dispatch_event =
    De_RmiLog u32 u32 u32
  | De_Rmi | De_User
  | De_Handler nat
  | De_WstrHandler nat
  | De_Ctor | De_Dtor
  | De_RestoreHook nat | De_MakeHook nat
  | De_RestoreOffset int

record 'w game =
  g_read :: "msg \<Rightarrow> bool \<times> u32 \<times> msg"
  g_restore :: "msg \<Rightarrow> int \<Rightarrow> msg"
  g_peer :: "'w \<Rightarrow> msg \<Rightarrow> bool"
  g_handler :: "nat \<Rightarrow> 'w \<Rightarrow> msg \<Rightarrow> 'w \<times> msg"
  g_wstr_handler :: "nat \<Rightarrow> 'w \<Rightarrow> msg \<Rightarrow> 'w \<times> msg"
  g_rmi :: "'w \<Rightarrow> msg \<Rightarrow> 'w \<times> msg \<times> u8"
  g_user :: "'w \<Rightarrow> msg \<Rightarrow> 'w \<times> msg"
  g_stack_ctor :: msg
  g_compressed :: "u32 \<Rightarrow> 'w \<Rightarrow> msg \<Rightarrow> msg \<Rightarrow> bool \<times> 'w \<times> msg \<times> msg"
  g_encrypted :: "'w \<Rightarrow> msg \<Rightarrow> msg \<Rightarrow> bool \<times> 'w \<times> msg \<times> msg"

record 'w dstate =
  dw :: 'w
  dtrace :: "dispatch_event list"

definition dlog :: "dispatch_event list \<Rightarrow> 'w dstate \<Rightarrow> 'w dstate" where
  "dlog es s = s\<lparr>dtrace := dtrace s @ es\<rparr>"

definition kProcessCompressed :: nat where "kProcessCompressed = 0xD5DC10"
definition kProcessEncrypted :: nat where "kProcessEncrypted = 0xD5CA30"

section \<open>Wrappers\<close>

definition log_incoming_rmi :: "msg \<Rightarrow> 'w dstate \<Rightarrow> 'w dstate res" where
  "log_incoming_rmi m s =
     (case buf_data m of
        None \<Rightarrow> Inr s
      | Some bytes \<Rightarrow>
          if buf_len m < 3 then Inr s
          else (case (rd bytes 1, rd bytes 2) of
              (Some b1, Some b2) \<Rightarrow>
                Inr (dlog [De_RmiLog (ucast b1 OR push_bit 8 (ucast b2)) (buf_len m) (host m)] s)
            | _ \<Rightarrow> Inl OobRead))"

definition call_worker_msg_handler :: "'w game \<Rightarrow> nat \<Rightarrow> msg \<Rightarrow> 'w dstate \<Rightarrow> msg \<times> 'w dstate" where
  "call_worker_msg_handler g rva m s =
     (let (w', m') = g_handler g rva (dw s) m in (m', dlog [De_Handler rva] (s\<lparr>dw := w'\<rparr>)))"

definition dispatch_with_peer_guard :: "'w game \<Rightarrow> nat \<Rightarrow> msg \<Rightarrow> 'w dstate \<Rightarrow> bool \<times> msg \<times> 'w dstate" where
  "dispatch_with_peer_guard g rva m s =
     (if \<not> g_peer g (dw s) m
      then (let (m', s') = call_worker_msg_handler g rva m s in (True, m', s'))
      else (True, m, s))"

definition dispatch_worker_wstr_msg :: "'w game \<Rightarrow> nat \<Rightarrow> msg \<Rightarrow> 'w dstate \<Rightarrow> bool \<times> msg \<times> 'w dstate" where
  "dispatch_worker_wstr_msg g rva m s =
     (let (w', m') = g_wstr_handler g rva (dw s) m
      in (True, m', dlog [De_WstrHandler rva] (s\<lparr>dw := w'\<rparr>)))"

definition guarded_wstr :: "'w game \<Rightarrow> nat \<Rightarrow> msg \<Rightarrow> 'w dstate \<Rightarrow> bool \<times> msg \<times> 'w dstate" where
  "guarded_wstr g rva m s =
     (if \<not> g_peer g (dw s) m then dispatch_worker_wstr_msg g rva m s else (True, m, s))"

definition plain_handler :: "'w game \<Rightarrow> nat \<Rightarrow> msg \<Rightarrow> 'w dstate \<Rightarrow> bool \<times> msg \<times> 'w dstate" where
  "plain_handler g rva m s = (let (m', s') = call_worker_msg_handler g rva m s in (True, m', s'))"

definition call_process_compressed :: "'w game \<Rightarrow> u32 \<Rightarrow> msg \<Rightarrow> msg \<Rightarrow> 'w dstate
    \<Rightarrow> bool \<times> msg \<times> msg \<times> 'w dstate" where
  "call_process_compressed g type_raw m st s =
     (let s1 = dlog [De_RestoreHook kProcessCompressed] s;
          (r, w', m', st') = g_compressed g type_raw (dw s1) m st
      in (r, m', st', dlog [De_MakeHook kProcessCompressed] (s1\<lparr>dw := w'\<rparr>)))"

definition call_process_encrypted :: "'w game \<Rightarrow> msg \<Rightarrow> msg \<Rightarrow> 'w dstate
    \<Rightarrow> bool \<times> msg \<times> msg \<times> 'w dstate" where
  "call_process_encrypted g m st s =
     (let s1 = dlog [De_RestoreHook kProcessEncrypted] s;
          (r, w', m', st') = g_encrypted g (dw s1) m st
      in (r, m', st', dlog [De_MakeHook kProcessEncrypted] (s1\<lparr>dw := w'\<rparr>)))"

definition copy_received_metadata :: "msg \<Rightarrow> msg \<Rightarrow> msg" where
  "copy_received_metadata dst src =
     dst\<lparr>host := host src, word24 := word24 src, word28 := word28 src, byte2c := byte2c src\<rparr>"

section \<open>The switch\<close>

text \<open>The cases that call one handler and break; \<open>None\<close> for the cases written out below.\<close>

definition simple_case :: "'w game \<Rightarrow> message_type \<Rightarrow> (msg \<Rightarrow> 'w dstate \<Rightarrow> bool \<times> msg \<times> 'w dstate) option" where
  "simple_case g t = (case t of
       Hla \<Rightarrow> Some (dispatch_with_peer_guard g 0xD5FFD0)
     | ConnectServerTimedout \<Rightarrow> Some (dispatch_with_peer_guard g 0xD62930)
     | GameNotify6 \<Rightarrow> Some (dispatch_with_peer_guard g 0xD62FD0)
     | GameNotify8 \<Rightarrow> Some (dispatch_with_peer_guard g 0xD60020)
     | GameNotify9 \<Rightarrow> Some (dispatch_with_peer_guard g 0xD60070)
     | GameNotify10 \<Rightarrow> Some (dispatch_with_peer_guard g 0xD64760)
     | NotifyProtocolVersionMismatch \<Rightarrow> Some (dispatch_with_peer_guard g 0xD5FF60)
     | NotifyServerConnectSuccess \<Rightarrow> Some (dispatch_with_peer_guard g 0xD61490)
     | NotifyAutoConnectionRecoverySuccess \<Rightarrow> Some (dispatch_with_peer_guard g 0xD645C0)
     | RequestStartServerHolepunch \<Rightarrow> Some (dispatch_with_peer_guard g 0xD608D0)
     | ServerHolepunchAck \<Rightarrow> Some (dispatch_worker_wstr_msg g 0xD63510)
     | GameNotify24 \<Rightarrow> Some (dispatch_with_peer_guard g 0xD63750)
     | GameNotify25 \<Rightarrow> Some (guarded_wstr g 0xD60A50)
     | GameNotify26 \<Rightarrow> Some (guarded_wstr g 0xD63A70)
     | GameNotify29 \<Rightarrow> Some (dispatch_with_peer_guard g 0xD64D60)
     | GameNotify31 \<Rightarrow> Some (plain_handler g 0xD5FCD0)
     | GameNotify32 \<Rightarrow> Some (plain_handler g 0xD5FD00)
     | GameNotify33 \<Rightarrow> Some (plain_handler g 0xD61F20)
     | GameNotify34 \<Rightarrow> Some (plain_handler g 0xD60E10)
     | GameNotify35 \<Rightarrow> Some (guarded_wstr g 0xD625E0)
     | GameNotify36 \<Rightarrow> Some (dispatch_worker_wstr_msg g 0xD61760)
     | GameNotify40 \<Rightarrow> Some (dispatch_worker_wstr_msg g 0xD62110)
     | GameNotify41 \<Rightarrow> Some (plain_handler g 0xD60FB0)
     | GameNotify49 \<Rightarrow> Some (plain_handler g 0xD62330)
     | GameNotify50 \<Rightarrow> Some (plain_handler g 0xD61120)
     | _ \<Rightarrow> None)"

definition is_wrapped :: "message_type option \<Rightarrow> bool" where
  "is_wrapped t \<longleftrightarrow> t = Some GameCompressed37 \<or> t = Some GameCompressed38 \<or> t = Some GameEncrypted39"

text \<open>Everything but the wrapped types: the value of \<open>message_processed\<close> after the switch.\<close>

definition switch_flat :: "'w game \<Rightarrow> message_type option \<Rightarrow> msg \<Rightarrow> 'w dstate
    \<Rightarrow> (bool \<times> msg \<times> 'w dstate) res" where
  "switch_flat g t m s =
     (case t of
        None \<Rightarrow> Inr (False, m, s)
      | Some Rmi \<Rightarrow>
          bindR (log_incoming_rmi m s) (\<lambda>s1.
            let (w', m', flag) = g_rmi g (dw s1) m
            in Inr (flag \<noteq> 0, m', dlog [De_Rmi] (s1\<lparr>dw := w'\<rparr>)))
      | Some UserMessage \<Rightarrow>
          (let (w', m') = g_user g (dw s) m
           in Inr (False, m', dlog [De_User] (s\<lparr>dw := w'\<rparr>)))
      | Some t' \<Rightarrow>
          (case simple_case g t' of
             Some f \<Rightarrow> Inr (f m s)
           | None \<Rightarrow> Inr (is_game_noop t', m, s)))"

definition finish :: "'w game \<Rightarrow> int \<Rightarrow> bool \<times> msg \<times> 'w dstate \<Rightarrow> bool \<times> msg \<times> 'w dstate" where
  "finish g saved r =
     (case r of (processed, m, s) \<Rightarrow>
        if \<not> processed then (False, g_restore g m saved, dlog [De_RestoreOffset saved] s)
        else (True, m, s))"

fun process_layer :: "nat \<Rightarrow> 'w game \<Rightarrow> msg \<Rightarrow> 'w dstate \<Rightarrow> (bool \<times> msg \<times> 'w dstate) res option" where
  "process_layer 0 g m s = None"
| "process_layer (Suc fuel) g m s =
     (let saved = read_off m div 8
      in case g_read g m of
           (False, _, m1) \<Rightarrow> Some (Inr (finish g saved (False, m1, s)))
         | (True, type_raw, m1) \<Rightarrow>
             (let t = type_of_byte (ucast type_raw)
              in if is_wrapped t then
                   \<comment> \<open>dispatch_compressed_or_encrypted\<close>
                   (let s1 = dlog [De_Ctor] s;
                        (unwrapped, m2, st, s2) =
                          (if t = Some GameEncrypted39
                           then call_process_encrypted g m1 (g_stack_ctor g) s1
                           else call_process_compressed g (ucast (ucast type_raw :: u8)) m1 (g_stack_ctor g) s1)
                    in if \<not> unwrapped then Some (Inr (False, m2, dlog [De_Dtor] s2))
                       else (case process_layer fuel g (copy_received_metadata st m2) s2 of
                           None \<Rightarrow> None
                         | Some (Inl e) \<Rightarrow> Some (Inl e)
                         | Some (Inr (processed, _, s3)) \<Rightarrow> Some (Inr (processed, m2, dlog [De_Dtor] s3))))
                 else Some (bindR (switch_flat g t m1 s) (\<lambda>r. Inr (finish g saved r)))))"

section \<open>Lemmas\<close>

lemma dlog_simps [simp]:
  "dw (dlog es s) = dw s" "dtrace (dlog es s) = dtrace s @ es"
  by (simp_all add: dlog_def)

lemma ordinals_distinct: "distinct (map snd all_types)" "distinct (map fst all_types)"
  by (simp_all add: all_types_def)

lemma type_of_byte_ordinal: "(t, n) \<in> set all_types \<Longrightarrow> type_of_byte n = Some t"
  unfolding type_of_byte_def
  using ordinals_distinct(1) by (intro map_of_is_SomeI) (force simp: o_def case_prod_beta)+

text \<open>What a run adds to the trace.\<close>

definition hook_balanced :: "dispatch_event list \<Rightarrow> bool" where
  "hook_balanced es \<longleftrightarrow> count_list es De_Ctor = count_list es De_Dtor
     \<and> (\<forall>k. count_list es (De_RestoreHook k) = count_list es (De_MakeHook k))"

lemma hook_balanced_append: "hook_balanced a \<Longrightarrow> hook_balanced b \<Longrightarrow> hook_balanced (a @ b)"
  by (simp add: hook_balanced_def)

definition neutral :: "dispatch_event \<Rightarrow> bool" where
  "neutral e \<longleftrightarrow> (case e of De_Ctor \<Rightarrow> False | De_Dtor \<Rightarrow> False | De_RestoreHook _ \<Rightarrow> False | De_MakeHook _ \<Rightarrow> False
                    | _ \<Rightarrow> True)"

lemma neutral_balanced: "list_all neutral es \<Longrightarrow> hook_balanced es"
proof (induction es)
  case (Cons e es)
  then show ?case by (cases e) (auto simp: hook_balanced_def neutral_def)
qed (simp add: hook_balanced_def)

lemma simple_case_trace:
  "simple_case g t = Some f \<Longrightarrow> f m s = (p, m', s') \<Longrightarrow>
   p \<and> (\<exists>es. dtrace s' = dtrace s @ es \<and> list_all neutral es)"
  by (cases t)
     (auto simp: simple_case_def dispatch_with_peer_guard_def dispatch_worker_wstr_msg_def guarded_wstr_def
        plain_handler_def call_worker_msg_handler_def Let_def neutral_def split: prod.splits if_splits)

lemma switch_flat_other:
  "t \<noteq> Rmi \<Longrightarrow> t \<noteq> UserMessage \<Longrightarrow> switch_flat g (Some t) m s =
     (case simple_case g t of Some f \<Rightarrow> Inr (f m s) | None \<Rightarrow> Inr (is_game_noop t, m, s))"
  by (cases t) (simp_all add: switch_flat_def simple_case_def)

lemma switch_flat_trace:
  assumes "switch_flat g t m s = Inr (p, m', s')"
  shows "\<exists>es. dtrace s' = dtrace s @ es \<and> list_all neutral es"
proof (cases t)
  case None
  with assms show ?thesis by (auto simp: switch_flat_def)
next
  case (Some t')
  consider "t' = Rmi" | "t' = UserMessage" | "t' \<noteq> Rmi" "t' \<noteq> UserMessage" by blast
  then show ?thesis
  proof cases
    case 3
    then have "switch_flat g t m s = (case simple_case g t' of
        Some f \<Rightarrow> Inr (f m s) | None \<Rightarrow> Inr (is_game_noop t', m, s))"
      using Some by (simp add: switch_flat_other)
    with assms show ?thesis
      using simple_case_trace [of g t'] by (cases "simple_case g t'") auto
  qed (use assms Some in \<open>auto simp: switch_flat_def bindR_eq_Inr log_incoming_rmi_def Let_def neutral_def
        split: option.splits if_splits prod.splits\<close>)
qed

lemma finish_trace: "finish g k (p, m, s) = (p', m', s') \<Longrightarrow> p' = p \<and>
   (\<exists>es. dtrace s' = dtrace s @ es \<and> list_all neutral es)"
  by (auto simp: finish_def neutral_def split: if_splits)

lemma process_layer_trace:
  "process_layer fuel g m s = Some (Inr (p, m', s')) \<Longrightarrow> \<exists>es. dtrace s' = dtrace s @ es \<and> hook_balanced es"
proof (induction fuel arbitrary: m s p m' s')
  case (Suc fuel)
  obtain ok raw m1 where rd: "g_read g m = (ok, raw, m1)" by (metis prod_cases3)
  let ?t = "type_of_byte (ucast raw)"
  show ?case
  proof (cases "ok \<and> is_wrapped ?t")
    case False
    then obtain p0 m0 s0 k where "finish g k (p0, m0, s0) = (p, m', s')"
      "\<exists>es. dtrace s0 = dtrace s @ es \<and> list_all neutral es"
      using Suc.prems rd switch_flat_trace [of g ?t m1 s]
      by (cases ok) (auto simp: Let_def bindR_eq_Inr)
    with finish_trace [of g k p0 m0 s0] obtain es es2 where
      "dtrace s' = (dtrace s @ es) @ es2" "list_all neutral es" "list_all neutral es2" by force
    then show ?thesis by (intro exI [of _ "es @ es2"]) (simp add: neutral_balanced)
  next
    case True
    define k where "k = (if ?t = Some GameEncrypted39 then kProcessEncrypted else kProcessCompressed)"
    obtain un m2 st s2 where u: "(if ?t = Some GameEncrypted39
        then call_process_encrypted g m1 (g_stack_ctor g) (dlog [De_Ctor] s)
        else call_process_compressed g (ucast (ucast raw :: u8)) m1 (g_stack_ctor g) (dlog [De_Ctor] s))
      = (un, m2, st, s2)" by (metis prod_cases4)
    then have t2: "dtrace s2 = dtrace s @ [De_Ctor, De_RestoreHook k, De_MakeHook k]"
      by (auto simp: k_def call_process_encrypted_def call_process_compressed_def Let_def split: if_splits prod.splits)
    show ?thesis
    proof (cases un)
      case False
      then have "dtrace s' = dtrace s @ [De_Ctor, De_RestoreHook k, De_MakeHook k, De_Dtor]"
        using Suc.prems rd True u t2 by auto
      then show ?thesis by (auto simp: hook_balanced_def)
    next
      case un: True
      then obtain q mx s3 where r: "process_layer fuel g (copy_received_metadata st m2) s2 = Some (Inr (q, mx, s3))"
        "s' = dlog [De_Dtor] s3"
        using Suc.prems rd True u by (auto split: option.splits sum.splits)
      from Suc.IH [OF r(1)] obtain es where es: "dtrace s3 = dtrace s2 @ es" "hook_balanced es" by blast
      have "dtrace s' = dtrace s @ ([De_Ctor, De_RestoreHook k, De_MakeHook k] @ es @ [De_Dtor])"
        using r(2) es(1) t2 by simp
      moreover have "hook_balanced ([De_Ctor, De_RestoreHook k, De_MakeHook k] @ es @ [De_Dtor])"
        using es(2) by (simp add: hook_balanced_def)
      ultimately show ?thesis by blast
    qed
  qed
qed simp

section \<open>Properties\<close>

text \<open> C2: Whatever the game's functions do, a dispatch that returns constructed and destroyed the
  same number of stack messages and put each hook it lifted back, at every depth of nesting and on every
  early return.\<close>

theorem dispatch_balanced:
  assumes "process_layer fuel g m s = Some (Inr (processed, m', s'))"
  shows "\<exists>es. dtrace s' = dtrace s @ es \<and> hook_balanced es"
  by (rule process_layer_trace [OF assms])

definition demo_msg :: msg where
  "demo_msg = \<lparr>read_off = 16, buf_data = None, buf_len = 0, host = 1, word24 = 2, word28 = 3, byte2c = 4\<rparr>"

text \<open>A game whose next message type is the given one, and whose unwrapping always succeeds.\<close>

definition demo_game :: "(msg \<Rightarrow> u32) \<Rightarrow> bool \<Rightarrow> nat game" where
  "demo_game ty peer = \<lparr>g_read = (\<lambda>m. (True, ty m, m\<lparr>read_off := read_off m + 8\<rparr>)),
     g_restore = (\<lambda>m k. m\<lparr>read_off := 8 * k\<rparr>), g_peer = (\<lambda>_ _. peer),
     g_handler = (\<lambda>_ w m. (w, m)), g_wstr_handler = (\<lambda>_ w m. (w, m)), g_rmi = (\<lambda>w m. (w, m, 1)),
     g_user = (\<lambda>w m. (w, m)), g_stack_ctor = demo_msg\<lparr>read_off := 0\<rparr>,
     g_compressed = (\<lambda>_ w m st. (True, w, m, st)), g_encrypted = (\<lambda>w m st. (True, w, m, st))\<rparr>"

lemma byte_types [simp]:
  "type_of_byte 2 = Some UserMessage" "type_of_byte 3 = Some Hla" "type_of_byte 5 = Some NotifyStartupEnvironment"
  "type_of_byte 7 = Some GameReserved7" "type_of_byte 37 = Some GameCompressed37" "type_of_byte 200 = None"
  by (simp_all add: type_of_byte_def all_types_def)

lemma demo_facts [simp]:
  "g_read (demo_game ty peer) m = (True, ty m, m\<lparr>read_off := read_off m + 8\<rparr>)"
  "g_restore (demo_game ty peer) m k = m\<lparr>read_off := 8 * k\<rparr>"
  "g_peer (demo_game ty peer) w m = peer"
  "g_stack_ctor (demo_game ty peer) = demo_msg\<lparr>read_off := 0\<rparr>"
  "g_compressed (demo_game ty peer) t w m st = (True, w, m, st)"
  "g_encrypted (demo_game ty peer) w m st = (True, w, m, st)"
  by (simp_all add: demo_game_def)

lemma simple_cases [simp]:
  "simple_case g Hla = Some (dispatch_with_peer_guard g 0xD5FFD0)"
  "simple_case g GameReserved7 = None" "simple_case g NotifyStartupEnvironment = None"
  by (simp_all add: simple_case_def)

definition guarded_types :: "message_type list" where
  "guarded_types = [Hla, ConnectServerTimedout, GameNotify6, GameNotify8, GameNotify9, GameNotify10,
     NotifyProtocolVersionMismatch, NotifyServerConnectSuccess, NotifyAutoConnectionRecoverySuccess,
     RequestStartServerHolepunch, GameNotify24, GameNotify25, GameNotify26, GameNotify29, GameNotify35]"

lemma simple_case_guarded:
  "t \<in> set guarded_types \<Longrightarrow> g_peer g (dw s) m \<Longrightarrow> switch_flat g (Some t) m s = Inr (True, m, s)"
  by (cases t)
     (auto simp: guarded_types_def switch_flat_def simple_case_def dispatch_with_peer_guard_def guarded_wstr_def)

theorem dispatch_balanced_witness:
  "\<exists>s' es. process_layer (Suc (Suc 0)) (demo_game (\<lambda>m. if read_off m = 16 then 37 else 3) True) demo_msg \<lparr>dw = 0, dtrace = []\<rparr>
      = Some (Inr (True, demo_msg\<lparr>read_off := 24\<rparr>, s')) \<and> dtrace s' = es \<and> hook_balanced es"
proof -
  let ?g = "demo_game (\<lambda>m. if read_off m = 16 then 37 else 3) True"
  let ?st = "copy_received_metadata (demo_msg\<lparr>read_off := 0\<rparr>) (demo_msg\<lparr>read_off := 24\<rparr>)"
  have off: "read_off demo_msg = 16" "read_off ?st = 0" by (simp_all add: demo_msg_def copy_received_metadata_def)
  have inner: "process_layer (Suc 0) ?g ?st s2 = Some (Inr (True, ?st\<lparr>read_off := 8\<rparr>, s2))" for s2
    by (simp add: off is_wrapped_def simple_case_guarded guarded_types_def finish_def Let_def)
  have "\<exists>s'. process_layer (Suc (Suc 0)) ?g demo_msg \<lparr>dw = 0, dtrace = []\<rparr>
      = Some (Inr (True, demo_msg\<lparr>read_off := 24\<rparr>, s'))"
    by (subst process_layer.simps(2))
      (simp add: off is_wrapped_def call_process_compressed_def inner Let_def del: process_layer.simps)
  then obtain s' where r: "process_layer (Suc (Suc 0)) ?g demo_msg \<lparr>dw = 0, dtrace = []\<rparr>
      = Some (Inr (True, demo_msg\<lparr>read_off := 24\<rparr>, s'))" ..
  obtain es where "dtrace s' = es" "hook_balanced es"
    using dispatch_balanced [OF r] by auto
  with r show ?thesis by (intro exI [of _ s'] exI [of _ es]) (simp del: process_layer.simps)
qed



text \<open>A message the dispatcher does not process is left where it was: if the game's restore sets
  the offset it is given and messages start on a byte, an unprocessed message has its old read offset, except
  that the wrapped types 37, 38 and 39 return without restoring.\<close>

theorem unprocessed_offset_restored:
  assumes "\<And>m k. read_off (g_restore g m k) = 8 * k" and "read_off m mod 8 = 0"
    and "process_layer fuel g m s = Some (Inr (False, m', s'))"
    and "g_read g m = (ok, raw, m1)"
  shows "read_off m' = read_off m \<or> ok \<and> is_wrapped (type_of_byte (ucast raw))"
proof (cases "ok \<and> is_wrapped (type_of_byte (ucast raw))")
  case False
  obtain f where "fuel = Suc f" using assms(3) by (cases fuel) auto
  with assms(3,4) False have "\<exists>m0. m' = g_restore g m0 (read_off m div 8)"
    by (cases ok) (auto simp: Let_def bindR_eq_Inr finish_def split: if_splits)
  with assms(1,2) show ?thesis by (auto simp: minus_mod_eq_mult_div [symmetric])
qed simp

theorem unprocessed_offset_restored_witness:
  "\<exists>m' s'. process_layer 1 (demo_game (\<lambda>_. 5) False) demo_msg \<lparr>dw = 0, dtrace = []\<rparr> = Some (Inr (False, m', s'))
     \<and> read_off m' = 16"
proof -
  have r: "process_layer 1 (demo_game (\<lambda>_. 5) False) demo_msg \<lparr>dw = 0, dtrace = []\<rparr>
      = Some (Inr (False, demo_msg, \<lparr>dw = 0, dtrace = [De_RestoreOffset 2]\<rparr>))"
    by (simp add: demo_msg_def is_wrapped_def switch_flat_other finish_def dlog_def)
  have "read_off demo_msg = read_off demo_msg \<or> True \<and> is_wrapped (type_of_byte (ucast (5 :: u32)))"
    by (rule unprocessed_offset_restored [OF _ _ r, of True 5 "demo_msg\<lparr>read_off := 24\<rparr>"])
      (simp_all add: demo_msg_def)
  with r show ?thesis by (auto simp: demo_msg_def is_wrapped_def)
qed

text \<open>Exactly which types run which kind of handler: a type outside the switch, an enumerator
  without a case and a byte that is no enumerator leave the worker untouched, and of these only
  the nine reserved types count as processed.\<close>

theorem unhandled_types:
  assumes "g_read g m = (True, raw, m1)" and "\<not> is_wrapped (type_of_byte (ucast raw))"
    and "type_of_byte (ucast raw) \<notin> {Some Rmi, Some UserMessage}"
    and "case type_of_byte (ucast raw) of None \<Rightarrow> True | Some t \<Rightarrow> simple_case g t = None"
  shows "process_layer (Suc fuel) g m s = Some (Inr (
     if (case type_of_byte (ucast raw) of None \<Rightarrow> False | Some t \<Rightarrow> is_game_noop t) then (True, m1, s)
     else (False, g_restore g m1 (read_off m div 8), dlog [De_RestoreOffset (read_off m div 8)] s)))"
proof (cases "type_of_byte (ucast raw)")
  case None
  then show ?thesis using assms by (simp add: switch_flat_def finish_def Let_def)
next
  case (Some t)
  then have "switch_flat g (Some t) m1 s = Inr (is_game_noop t, m1, s)"
    using assms(3,4) by (simp add: switch_flat_other)
  then show ?thesis using assms Some by (simp add: finish_def Let_def)
qed

theorem unhandled_types_witness:
  "process_layer 1 (demo_game (\<lambda>_. 7) False) demo_msg \<lparr>dw = 0, dtrace = []\<rparr>
     = Some (Inr (True, demo_msg\<lparr>read_off := 24\<rparr>, \<lparr>dw = 0, dtrace = []\<rparr>))"
  using unhandled_types [of "demo_game (\<lambda>_. 7) False" demo_msg 7 "demo_msg\<lparr>read_off := 24\<rparr>" 0
      "\<lparr>dw = 0, dtrace = []\<rparr>"]
  by (simp add: demo_msg_def is_wrapped_def)



text \<open>The dispatcher itself bounds the nesting by nothing: if every unwrapped message is a compressed
  message again, it never returns, whatever the depth.\<close>

theorem nested_messages_unbounded:
  "process_layer fuel (demo_game (\<lambda>_. 37) peer) m s = None"
  by (induction fuel arbitrary: m s)
    (simp_all add: is_wrapped_def call_process_compressed_def)

end
