(* ===== verification/RcString.thy ===== *)
theory RcString
  imports Memory
begin

text \<open>
  The engine's reference-counted strings, for any character width: what
  \<open>src/game/engine/string.cpp\<close> (8-bit) and \<open>src/game/engine/WString.cpp\<close> (16-bit) have in common;
  the second is the first with the character type replaced. The theories EngineString and
  WideString name the two instances and add what only the 8-bit class has.

  A string object is its handle: \<open>None\<close> is the null pointer, \<open>Some b\<close> the body of block \<open>b\<close>. The
  static empty string of the game (\<open>nullstr\<close>) is an ordinary block whose number is the argument \<open>ns\<close>.
  A block has the two header fields and its characters; a character that was never written is
  \<open>None\<close>. \<open>memcpy\<close> may read behind a live block (the code does so whenever a string grows): it
  then copies indeterminate characters, and the world counts the event in \<open>sw_overreads\<close>. A write
  outside a block, an access to a freed block or through a null pointer, and a decision on
  an indeterminate character end with an error.
\<close>

section \<open>Blocks and sources\<close>

record 'c sblk =
  sb_len :: u32                  \<comment> \<open>m_cbBufferSize\<close>
  sb_ref :: u32                  \<comment> \<open>m_RefCount\<close>
  sb_data :: "'c option list"

record 'c sw =
  sw_heap :: "'c sblk heap"
  sw_overreads :: nat

text \<open>What a character pointer points to: memory of the caller, or the body of a block.\<close>

datatype 'c src = Ext "'c option list" | Body nat

type_synonym handle = "nat option"

definition blk :: "nat \<Rightarrow> 'c sw \<Rightarrow> 'c sblk res" where
  "blk b w = of_option UseAfterFree (hblk (sw_heap w) b)"

definition put_blk :: "nat \<Rightarrow> 'c sblk \<Rightarrow> 'c sw \<Rightarrow> 'c sw" where
  "put_blk b x w = w\<lparr>sw_heap := hwrite b x (sw_heap w)\<rparr>"

fun cstrlen :: "'c::len word option list \<Rightarrow> nat res" where
  "cstrlen [] = Inl OobRead"
| "cstrlen (None # cs) = Inl UninitRead"
| "cstrlen (Some c # cs) = (if c = 0 then Inr 0 else bindR (cstrlen cs) (\<lambda>n. Inr (Suc n)))"

definition src_strlen :: "'c::len word src \<Rightarrow> 'c word sw \<Rightarrow> nat res" where
  "src_strlen src w =
     (case src of
        Ext cs \<Rightarrow> cstrlen cs
      | Body b \<Rightarrow> bindR (blk b w) (\<lambda>x. cstrlen (sb_data x)))"

text \<open>\<open>n\<close> characters for \<open>memcpy\<close>.\<close>

definition src_read :: "'c::len word src \<Rightarrow> nat \<Rightarrow> 'c word sw \<Rightarrow> ('c word option list \<times> 'c word sw) res" where
  "src_read src n w =
     (case src of
        Ext cs \<Rightarrow> if n \<le> length cs then Inr (take n cs, w) else Inl OobRead
      | Body b \<Rightarrow> bindR (blk b w) (\<lambda>x.
          let cs = sb_data x
          in if n \<le> length cs then Inr (take n cs, w)
             else Inr (cs @ replicate (n - length cs) None,
                       w\<lparr>sw_overreads := Suc (sw_overreads w)\<rparr>)))"

text \<open>Writing characters \<open>cs\<close> at \<open>i\<close> of a body.\<close>

definition write_chars :: "handle \<Rightarrow> nat \<Rightarrow> 'c option list \<Rightarrow> 'c sw \<Rightarrow> 'c sw res" where
  "write_chars hn i cs w =
     (case hn of
        None \<Rightarrow> Inl NullDeref
      | Some b \<Rightarrow> bindR (blk b w) (\<lambda>x.
          if i + length cs \<le> length (sb_data x)
          then Inr (put_blk b (x\<lparr>sb_data := take i (sb_data x) @ cs @ drop (i + length cs) (sb_data x)\<rparr>) w)
          else Inl OobWrite))"

section \<open>Allocation\<close>

definition char_bytes :: "'c::len itself \<Rightarrow> nat" where
  "char_bytes t = LENGTH('c) div 8"

definition rc_Allocate :: "u32 \<Rightarrow> 'c::len word sw \<Rightarrow> (handle \<times> 'c word sw) res" where
  "rc_Allocate stCount w =
     (let bytes = unat ((stCount + 1) * word_of_nat (char_bytes TYPE('c)) + 8);
          chars = (bytes - 8) div char_bytes TYPE('c);
          (r, h') = halloc (if bytes = 0 then 1 else bytes)
                      \<lparr>sb_len = stCount, sb_ref = 1, sb_data = replicate chars None\<rparr> (sw_heap w);
          w' = w\<lparr>sw_heap := h'\<rparr>
      in case r of
           None \<Rightarrow> Inr (None, w')
         | Some b \<Rightarrow> if bytes < 8 then Inl OobWrite else Inr (Some b, w'))"

definition rc_AllocateAndCopy :: "'c::len word src option \<Rightarrow> u32 \<Rightarrow> 'c word sw \<Rightarrow> (handle \<times> 'c word sw) res" where
  "rc_AllocateAndCopy pcStr stCount w =
     (case pcStr of
        None \<Rightarrow> Inr (None, w)
      | Some src \<Rightarrow>
          bindR (if stCount = 0 then bindR (src_strlen src w) (\<lambda>n. Inr (word_of_nat n)) else Inr stCount)
            (\<lambda>count.
             bindR (rc_Allocate count w) (\<lambda>(hn, w1).
             case hn of
               None \<Rightarrow> Inr (None, w1)
             | Some b \<Rightarrow>
                 bindR (src_read src (unat count) w1) (\<lambda>(cs, w2).
                 bindR (write_chars (Some b) 0 cs w2) (\<lambda>w3.
                 bindR (write_chars (Some b) (unat count) [Some 0] w3) (\<lambda>w4.
                 bindR (blk b w4) (\<lambda>x.
                 Inr (Some b, put_blk b (x\<lparr>sb_len := count\<rparr>) w4))))))))"

definition rc_Deallocate :: "nat \<Rightarrow> handle \<Rightarrow> 'c sw \<Rightarrow> (handle \<times> 'c sw) res" where
  "rc_Deallocate ns body w =
     (case body of
        None \<Rightarrow> Inr (None, w)
      | Some b \<Rightarrow>
          if b = ns then Inr (body, w)
          else bindR (blk b w) (\<lambda>_. Inr (None, w\<lparr>sw_heap := hfree b (sw_heap w)\<rparr>)))"

section \<open>Reference counts\<close>

definition rc_IncRefCount :: "nat \<Rightarrow> handle \<Rightarrow> 'c sw \<Rightarrow> 'c sw res" where
  "rc_IncRefCount ns hn w =
     (case hn of
        None \<Rightarrow> Inr w
      | Some b \<Rightarrow>
          if b = ns then Inr w
          else bindR (blk b w) (\<lambda>x. Inr (put_blk b (x\<lparr>sb_ref := sb_ref x + 1\<rparr>) w)))"

definition rc_DecRefCount :: "nat \<Rightarrow> handle \<Rightarrow> 'c sw \<Rightarrow> (handle \<times> 'c sw) res" where
  "rc_DecRefCount ns hn w =
     (case hn of
        None \<Rightarrow> Inr (Some ns, w)
      | Some b \<Rightarrow>
          bindR (blk b w) (\<lambda>x.
            let ref = sb_ref x - 1
            in Inr (Some ns,
                 if ref = 0 then w\<lparr>sw_heap := hfree b (sw_heap w)\<rparr>
                 else put_blk b (x\<lparr>sb_ref := ref\<rparr>) w)))"

definition rc_GetRefCount :: "nat \<Rightarrow> handle \<Rightarrow> 'c sw \<Rightarrow> u32 res" where
  "rc_GetRefCount ns hn w =
     (case hn of
        None \<Rightarrow> Inr 0
      | Some b \<Rightarrow> if b = ns then Inr 0 else bindR (blk b w) (\<lambda>x. Inr (sb_ref x)))"

section \<open>Length\<close>

definition rc_GetLength :: "nat \<Rightarrow> handle \<Rightarrow> 'c sw \<Rightarrow> u32 res" where
  "rc_GetLength ns hn w =
     (case hn of
        None \<Rightarrow> Inr 0
      | Some b \<Rightarrow> if b = ns then Inr 0 else bindR (blk b w) (\<lambda>x. Inr (sb_len x)))"

definition rc_SetLength :: "nat \<Rightarrow> handle \<Rightarrow> u32 \<Rightarrow> 'c sw \<Rightarrow> 'c sw res" where
  "rc_SetLength ns hn stLength w =
     (case hn of
        None \<Rightarrow> Inr w
      | Some b \<Rightarrow> if b = ns then Inr w else bindR (blk b w) (\<lambda>x. Inr (put_blk b (x\<lparr>sb_len := stLength\<rparr>) w)))"

definition rc_CalcLength :: "nat \<Rightarrow> handle \<Rightarrow> 'c::len word sw \<Rightarrow> 'c word sw res" where
  "rc_CalcLength ns hn w =
     (case hn of
        None \<Rightarrow> Inr w
      | Some b \<Rightarrow>
          if b = ns then Inr w
          else bindR (src_strlen (Body b) w) (\<lambda>n. rc_SetLength ns hn (word_of_nat n) w))"

definition rc_SetBuffer :: "nat \<Rightarrow> handle \<Rightarrow> handle \<Rightarrow> 'c sw \<Rightarrow> (handle \<times> 'c sw) res" where
  "rc_SetBuffer ns hn pBody w =
     (if pBody = hn then Inr (hn, w)
      else bindR (rc_DecRefCount ns hn w) (\<lambda>(_, w1).
           bindR (rc_IncRefCount ns pBody w1) (\<lambda>w2. Inr (pBody, w2))))"

section \<open>Copying and growing\<close>

definition rc_CopyOnWrite :: "nat \<Rightarrow> handle \<Rightarrow> 'c::len word sw \<Rightarrow> (handle \<times> 'c word sw) res" where
  "rc_CopyOnWrite ns hn w =
     (if hn = None \<or> hn = Some ns then rc_Allocate 0 w
      else bindR (rc_GetRefCount ns hn w) (\<lambda>ref.
           if ref > 1 then
             (case hn of
                None \<Rightarrow> Inr (hn, w)
              | Some b \<Rightarrow>
                  bindR (rc_DecRefCount ns hn w) (\<lambda>(_, w1).
                  rc_AllocateAndCopy (Some (Body b)) 0 w1))
           else Inr (hn, w)))"

definition E_INVALIDARG :: u32 where "E_INVALIDARG = 0x80070057"
definition E_FAIL :: u32 where "E_FAIL = 0x80004005"

definition rc_Realloc :: "nat \<Rightarrow> handle \<Rightarrow> int \<Rightarrow> 'c::len word sw \<Rightarrow> (handle \<times> 'c word sw) res" where
  "rc_Realloc ns hn stLength w =
     (let b = (case hn of None \<Rightarrow> ns | Some b \<Rightarrow> b)
      in if stLength < 0 then Inl (AtlException E_INVALIDARG)
         else if stLength = 0 then rc_DecRefCount ns (Some b) w
         else bindR (blk b w) (\<lambda>x.
           if word_of_int stLength = sb_len x then Inr (Some b, w)
           else bindR (rc_AllocateAndCopy (Some (Body b)) (word_of_int stLength) w) (\<lambda>(hn', w1).
                bindR (write_chars hn' (nat stLength) [Some 0] w1) (\<lambda>w2.
                Inr (hn', w2)))))"

definition rc_Reserve :: "nat \<Rightarrow> handle \<Rightarrow> int \<Rightarrow> 'c::len word sw \<Rightarrow> (handle \<times> 'c word sw) res" where
  "rc_Reserve ns hn stLength w =
     bindR (rc_GetLength ns hn w) (\<lambda>old_size.
       let stLength' = (if stLength \<le> 1 then 1 else stLength)
       in bindR (if old_size < word_of_int stLength' then rc_Realloc ns hn stLength' w else Inr (hn, w))
            (\<lambda>(hn1, w1). rc_CopyOnWrite ns hn1 w1))"

definition rc_Swap :: "nat \<Rightarrow> handle \<Rightarrow> 'c::len word src option \<Rightarrow> u32 \<Rightarrow> 'c word sw \<Rightarrow> (handle \<times> 'c word sw) res" where
  "rc_Swap ns hn pcNewValue stLength w =
     (case pcNewValue of
        None \<Rightarrow> rc_DecRefCount ns hn w
      | Some src \<Rightarrow>
          bindR (if stLength = 0 then bindR (src_strlen src w) (\<lambda>n. Inr (word_of_nat n)) else Inr stLength)
            (\<lambda>len.
             bindR (rc_Reserve ns hn (sint len) w) (\<lambda>(hn1, w1).
             bindR (src_read src (unat len) w1) (\<lambda>(cs, w2).
             bindR (write_chars hn1 0 cs w2) (\<lambda>w3.
             bindR (write_chars hn1 (unat len) [Some 0] w3) (\<lambda>w4.
             Inr (hn1, w4)))))))"

section \<open>Construction and assignment\<close>

definition rc_new_empty :: "nat \<Rightarrow> handle" where
  "rc_new_empty ns = Some ns"

definition rc_new_copy :: "nat \<Rightarrow> handle \<Rightarrow> 'c sw \<Rightarrow> (handle \<times> 'c sw) res" where
  "rc_new_copy ns other w = bindR (rc_IncRefCount ns other w) (\<lambda>w1. Inr (other, w1))"

definition rc_new_cstr :: "'c::len word src option \<Rightarrow> 'c word sw \<Rightarrow> (handle \<times> 'c word sw) res" where
  "rc_new_cstr pcStr w = rc_AllocateAndCopy pcStr 0 w"

definition rc_new_part :: "nat \<Rightarrow> 'c::len word src option \<Rightarrow> u32 \<Rightarrow> 'c word sw \<Rightarrow> (handle \<times> 'c word sw) res" where
  "rc_new_part ns pcStr stStrLength w =
     bindR (rc_AllocateAndCopy pcStr stStrLength w) (\<lambda>(hn, w1).
     bindR (rc_CalcLength ns hn w1) (\<lambda>w2. Inr (hn, w2)))"

definition rc_new_char :: "nat \<Rightarrow> 'c::len word \<Rightarrow> 'c word sw \<Rightarrow> (handle \<times> 'c word sw) res" where
  "rc_new_char ns ch w =
     bindR (rc_Allocate 1 w) (\<lambda>(hn, w1).
     if hn = None then Inr (None, w1)
     else bindR (write_chars hn 0 [Some ch] w1) (\<lambda>w2.
          bindR (write_chars hn 1 [Some 0] w2) (\<lambda>w3.
          bindR (rc_SetLength ns hn 1 w3) (\<lambda>w4. Inr (hn, w4)))))"

definition rc_destroy :: "nat \<Rightarrow> handle \<Rightarrow> 'c sw \<Rightarrow> 'c sw res" where
  "rc_destroy ns hn w = bindR (rc_DecRefCount ns hn w) (\<lambda>(_, w1). Inr w1)"

definition rc_assign :: "nat \<Rightarrow> handle \<Rightarrow> handle \<Rightarrow> 'c sw \<Rightarrow> (handle \<times> 'c sw) res" where
  "rc_assign ns hn other w = (if other = hn then Inr (hn, w) else rc_SetBuffer ns hn other w)"

definition rc_assign_cstr :: "nat \<Rightarrow> handle \<Rightarrow> 'c::len word src option \<Rightarrow> 'c word sw \<Rightarrow> (handle \<times> 'c word sw) res" where
  "rc_assign_cstr ns hn pcStr w =
     (if pcStr = map_option Body hn then Inr (hn, w) else rc_Swap ns hn pcStr 0 w)"

definition rc_assign_char :: "nat \<Rightarrow> handle \<Rightarrow> 'c::len word \<Rightarrow> 'c word sw \<Rightarrow> (handle \<times> 'c word sw) res" where
  "rc_assign_char ns hn ch w = rc_assign_cstr ns hn (Some (Ext [Some ch, Some 0])) w"

section \<open>Basic lemmas\<close>

lemma cstrlen_rep: "0 \<notin> set s \<Longrightarrow> cstrlen (map Some s @ Some 0 # rest) = Inr (length s)"
  by (induction s) auto

lemma sw_simps [simp]:
  "hblk (sw_heap (put_blk b x w)) c = (if c = b then Some x else hblk (sw_heap w) c)"
  "sw_overreads (put_blk b x w) = sw_overreads w"
  "hfail (sw_heap (put_blk b x w)) = hfail (sw_heap w)"
  "hnext (sw_heap (put_blk b x w)) = hnext (sw_heap w)"
  "put_blk b y (put_blk b x w) = put_blk b y w"
  by (simp_all add: put_blk_def hwrite_def)

lemma blk_Some [simp]: "hblk (sw_heap w) b = Some x \<Longrightarrow> blk b w = Inr x"
  by (simp add: blk_def)

text \<open>A block that holds the string \<open>s\<close>, and what stays the same outside one block.\<close>

definition holds :: "'c::len word sw \<Rightarrow> nat \<Rightarrow> 'c word list \<Rightarrow> u32 \<Rightarrow> bool" where
  "holds w b s ref \<longleftrightarrow> (case hblk (sw_heap w) b of
       None \<Rightarrow> False
     | Some x \<Rightarrow> sb_len x = word_of_nat (length s) \<and> sb_ref x = ref \<and> ref \<noteq> 0
         \<and> (\<exists>rest. sb_data x = map Some s @ Some 0 # rest) \<and> 0 \<notin> set s \<and> length s < 2 ^ 29)"

definition sw_ok :: "'c sw \<Rightarrow> bool" where
  "sw_ok w \<longleftrightarrow> heap_wf (sw_heap w) \<and> no_oom (sw_heap w)"

definition others_same :: "nat set \<Rightarrow> 'c sw \<Rightarrow> 'c sw \<Rightarrow> bool" where
  "others_same B w w' \<longleftrightarrow> (\<forall>i. i \<notin> B \<longrightarrow> hblk (sw_heap w) i \<noteq> None \<longrightarrow> hblk (sw_heap w') i = hblk (sw_heap w) i)"

lemma holdsE:
  assumes "holds w b s ref"
  obtains x rest where "hblk (sw_heap w) b = Some x" "sb_len x = word_of_nat (length s)" "sb_ref x = ref"
    "ref \<noteq> 0" "sb_data x = map Some s @ Some 0 # rest" "0 \<notin> set s" "length s < 2 ^ 29"
  using assms by (auto simp: holds_def split: option.splits)

lemma holds_unique: "holds w b s ref \<Longrightarrow> holds w b s' ref' \<Longrightarrow> s = s' \<and> ref = ref'"
proof -
  assume a: "holds w b s ref" "holds w b s' ref'"
  then have "length s = length s'"
    by (elim holdsE) (use u32_of_nat_eq_iff [of "length s" "length s'"] in simp)
  then show ?thesis using a
    by (elim holdsE) (auto dest: arg_cong [where f = "map the"] simp: o_def)
qed

lemma holds_kept: "others_same B w w' \<Longrightarrow> b \<notin> B \<Longrightarrow> holds w b s ref \<Longrightarrow> holds w' b s ref"
  by (auto simp: others_same_def holds_def split: option.splits)

lemma others_same_trans:
  "others_same B w w' \<Longrightarrow> others_same C w' w'' \<Longrightarrow> (\<And>i. i \<in> C \<Longrightarrow> hblk (sw_heap w) i \<noteq> None \<Longrightarrow> i \<in> B) \<Longrightarrow>
   others_same B w w''"
  unfolding others_same_def by metis

lemma others_same_refl [simp]: "others_same B w w"
  by (simp add: others_same_def)

lemma strlen_holds: "holds w b s ref \<Longrightarrow> src_strlen (Body b) w = Inr (length s)"
  by (elim holdsE) (simp add: src_strlen_def cstrlen_rep)

lemma GetLength_holds: "holds w b s ref \<Longrightarrow> b \<noteq> ns \<Longrightarrow> rc_GetLength ns (Some b) w = Inr (word_of_nat (length s))"
  by (elim holdsE) (simp add: rc_GetLength_def)

lemma GetRefCount_holds: "holds w b s ref \<Longrightarrow> b \<noteq> ns \<Longrightarrow> rc_GetRefCount ns (Some b) w = Inr ref"
  by (elim holdsE) (simp add: rc_GetRefCount_def)

lemma IncRefCount_holds:
  "holds w b s ref \<Longrightarrow> b \<noteq> ns \<Longrightarrow> ref + 1 \<noteq> 0 \<Longrightarrow>
   \<exists>w'. rc_IncRefCount ns (Some b) w = Inr w' \<and> holds w' b s (ref + 1) \<and> others_same {b} w w'
     \<and> (sw_ok w \<longrightarrow> sw_ok w') \<and> sw_overreads w' = sw_overreads w"
  by (elim holdsE) (auto simp: rc_IncRefCount_def holds_def others_same_def sw_ok_def put_blk_def hwrite_wf no_oom_def)

lemma DecRefCount_holds:
  assumes "holds w b s ref"
  shows "\<exists>w'. rc_DecRefCount ns (Some b) w = Inr (Some ns, w') \<and> others_same {b} w w'
     \<and> (if ref = 1 then hblk (sw_heap w') b = None else holds w' b s (ref - 1))
     \<and> (sw_ok w \<longrightarrow> sw_ok w') \<and> sw_overreads w' = sw_overreads w"
  using assms
  by (elim holdsE)
    (auto simp: rc_DecRefCount_def holds_def others_same_def sw_ok_def put_blk_def hwrite_wf hfree_wf no_oom_def Let_def)

section \<open>Both character widths\<close>

locale char_width =
  fixes t :: "'c::len itself"
  assumes width: "LENGTH('c) = 8 \<or> LENGTH('c) = 16"
begin

lemma alloc_bytes_exact:
  assumes "n < 2 ^ 30"
  shows "unat (((word_of_nat n :: u32) + 1) * word_of_nat (char_bytes TYPE('c)) + 8) = (n + 1) * char_bytes TYPE('c) + 8"
proof -
  have k: "char_bytes TYPE('c) = 1 \<or> char_bytes TYPE('c) = 2" using width by (auto simp: char_bytes_def)
  have e: "((word_of_nat n :: u32) + 1) * word_of_nat (char_bytes TYPE('c)) + 8
      = word_of_nat ((n + 1) * char_bytes TYPE('c) + 8)" by (simp add: algebra_simps)
  have "(n + 1) * char_bytes TYPE('c) + 8 < 2 ^ 32" using k assms by auto
  then show ?thesis unfolding e by (rule unat_u32_of_nat)
qed

lemma Allocate_ok:
  fixes w :: "'c word sw"
  assumes ok: "sw_ok w" and n: "n < 2 ^ 30"
  obtains w' where "rc_Allocate (word_of_nat n) w = Inr (Some (hnext (sw_heap w)), w')"
    "hblk (sw_heap w') = (hblk (sw_heap w))(hnext (sw_heap w) \<mapsto>
        \<lparr>sb_len = word_of_nat n, sb_ref = 1, sb_data = replicate (n + 1) None\<rparr>)"
    "sw_ok w'" "sw_overreads w' = sw_overreads w" "hblk (sw_heap w) (hnext (sw_heap w)) = None"
proof -
  let ?k = "char_bytes TYPE('c)"
  have k: "?k \<noteq> 0" using width by (auto simp: char_bytes_def)
  let ?b = "\<lparr>sb_len = word_of_nat n, sb_ref = 1, sb_data = replicate (n + 1) None\<rparr> :: 'c word sblk"
  let ?h = "(sw_heap w)\<lparr>hblk := (hblk (sw_heap w))(hnext (sw_heap w) \<mapsto> ?b), hnext := Suc (hnext (sw_heap w))\<rparr>"
  have no: "no_oom (sw_heap w)" and wf: "heap_wf (sw_heap w)" using ok by (auto simp: sw_ok_def)
  have "rc_Allocate (word_of_nat n) w = Inr (Some (hnext (sw_heap w)), w\<lparr>sw_heap := ?h\<rparr>)"
    using no k unfolding rc_Allocate_def alloc_bytes_exact [OF n] by (simp add: Let_def halloc_def no_oom_def)
  moreover have "heap_wf ?h" using wf by (auto simp: heap_wf_def less_Suc_eq split: if_splits)
  ultimately show thesis
    using no heap_wf_fresh [OF wf] by (intro that [of "w\<lparr>sw_heap := ?h\<rparr>"]) (auto simp: sw_ok_def no_oom_def)
qed

text \<open>The copy made of \<open>n > 0\<close> characters, or of a whole string when the count is 0.\<close>

lemma copy_chars:
  fixes w :: "'c word sw"
  assumes ok: "sw_ok w" and n: "n < 2 ^ 30" "n = 0 \<longrightarrow> False"
    and rd: "\<And>w1. hblk (sw_heap w1) = (hblk (sw_heap w))(hnext (sw_heap w) \<mapsto>
        \<lparr>sb_len = word_of_nat n, sb_ref = 1, sb_data = replicate (n + 1) None\<rparr>)
      \<Longrightarrow> sw_overreads w1 = sw_overreads w
      \<Longrightarrow> src_read src n w1 = Inr (cs, w1\<lparr>sw_overreads := sw_overreads w1 + over\<rparr>)"
    and cs: "length cs = n"
  obtains w' where "rc_AllocateAndCopy (Some src) (word_of_nat n) w = Inr (Some (hnext (sw_heap w)), w')"
    "hblk (sw_heap w') = (hblk (sw_heap w))(hnext (sw_heap w) \<mapsto>
        \<lparr>sb_len = word_of_nat n, sb_ref = 1, sb_data = cs @ [Some 0]\<rparr>)"
    "sw_ok w'" "sw_overreads w' = sw_overreads w + over"
proof -
  let ?b = "hnext (sw_heap w)"
  obtain w1 where a: "rc_Allocate (word_of_nat n) w = Inr (Some ?b, w1)"
    "hblk (sw_heap w1) = (hblk (sw_heap w))(?b \<mapsto> \<lparr>sb_len = word_of_nat n, sb_ref = 1, sb_data = replicate (n + 1) None\<rparr>)"
    "sw_ok w1" "sw_overreads w1 = sw_overreads w"
    by (rule Allocate_ok [OF ok n(1)]) blast
  let ?w2 = "w1\<lparr>sw_overreads := sw_overreads w1 + over\<rparr>"
  have r: "src_read src n w1 = Inr (cs, ?w2)" by (rule rd [OF a(2,4)])
  have un: "unat (word_of_nat n :: u32) = n" "(word_of_nat n :: u32) \<noteq> 0"
    using n by (auto simp: unat_u32_of_nat word_unat_eq_iff)
  let ?x = "\<lparr>sb_len = word_of_nat n, sb_ref = 1, sb_data = cs @ [Some 0]\<rparr> :: 'c word sblk"
  have "rc_AllocateAndCopy (Some src) (word_of_nat n) w = Inr (Some ?b, put_blk ?b ?x ?w2)"
    using a r un cs by (simp add: rc_AllocateAndCopy_def write_chars_def blk_def)
  moreover have "hblk (sw_heap (put_blk ?b ?x ?w2)) = (hblk (sw_heap w))(?b \<mapsto> ?x)"
    using a(2) by (auto simp: fun_eq_iff)
  moreover have "sw_ok (put_blk ?b ?x ?w2)"
    using a(2,3) by (auto simp: sw_ok_def put_blk_def no_oom_def intro!: hwrite_wf)
  moreover have "sw_overreads (put_blk ?b ?x ?w2) = sw_overreads w + over" using a(4) by simp
  ultimately show thesis by (rule that)
qed

lemma copy_nothing:
  fixes w :: "'c word sw"
  assumes ok: "sw_ok w" and rd: "src_strlen src w = Inr 0"
    and rd1: "\<And>w1. hblk (sw_heap w1) = (hblk (sw_heap w))(hnext (sw_heap w) \<mapsto>
        \<lparr>sb_len = 0, sb_ref = 1, sb_data = [None]\<rparr>) \<Longrightarrow> src_read src 0 w1 = Inr ([], w1)"
  obtains w' where "rc_AllocateAndCopy (Some src) 0 w = Inr (Some (hnext (sw_heap w)), w')"
    "hblk (sw_heap w') = (hblk (sw_heap w))(hnext (sw_heap w) \<mapsto>
        \<lparr>sb_len = 0, sb_ref = 1, sb_data = [Some 0]\<rparr>)"
    "sw_ok w'" "sw_overreads w' = sw_overreads w"
proof -
  let ?b = "hnext (sw_heap w)"
  obtain w1 where a: "rc_Allocate (word_of_nat 0) w = Inr (Some ?b, w1)"
    "hblk (sw_heap w1) = (hblk (sw_heap w))(?b \<mapsto> \<lparr>sb_len = word_of_nat 0, sb_ref = 1, sb_data = replicate (0 + 1) None\<rparr>)"
    "sw_ok w1" "sw_overreads w1 = sw_overreads w"
    by (rule Allocate_ok [OF ok, of 0]) (simp, blast)
  have r: "src_read src 0 w1 = Inr ([], w1)" using rd1 a(2) by simp
  let ?x = "\<lparr>sb_len = 0, sb_ref = 1, sb_data = [Some 0]\<rparr> :: 'c word sblk"
  have "rc_AllocateAndCopy (Some src) 0 w = Inr (Some ?b, put_blk ?b ?x w1)"
    using a r rd by (simp add: rc_AllocateAndCopy_def write_chars_def blk_def)
  moreover have "hblk (sw_heap (put_blk ?b ?x w1)) = (hblk (sw_heap w))(?b \<mapsto> ?x)"
    using a(2) by (auto simp: fun_eq_iff)
  moreover have "sw_ok (put_blk ?b ?x w1)"
    using a(2,3) by (auto simp: sw_ok_def put_blk_def intro!: hwrite_wf) (simp add: no_oom_def)
  ultimately show thesis using a(4) by (intro that [of "put_blk ?b ?x w1"]) auto
qed

end

interpretation narrow: char_width "TYPE(8)" by unfold_locales simp
interpretation wide: char_width "TYPE(16)" by unfold_locales simp

section \<open>Reserving room\<close>

text \<open>A block that holds the characters of \<open>s\<close>, has room for \<open>m\<close> and belongs to one owner.\<close>

definition roomy :: "'c::len word sw \<Rightarrow> nat \<Rightarrow> 'c word list \<Rightarrow> nat \<Rightarrow> bool" where
  "roomy w b s m \<longleftrightarrow> (case hblk (sw_heap w) b of
       None \<Rightarrow> False
     | Some x \<Rightarrow> sb_len x = word_of_nat (max (length s) m) \<and> sb_ref x = 1
         \<and> (\<exists>rest. sb_data x = map Some s @ Some 0 # rest \<and> m \<le> length s + length rest))"

lemma roomyE:
  assumes "roomy w b s m"
  obtains x rest where "hblk (sw_heap w) b = Some x" "sb_len x = word_of_nat (max (length s) m)" "sb_ref x = 1"
    "sb_data x = map Some s @ Some 0 # rest" "m \<le> length s + length rest"
  using assms by (auto simp: roomy_def split: option.splits)

lemma holds_roomy: "holds w b s 1 \<Longrightarrow> m \<le> length s \<Longrightarrow> roomy w b s m"
  by (elim holdsE) (auto simp: roomy_def max_def)

context char_width
begin

lemma copy_string:
  fixes w :: "'c word sw"
  assumes ok: "sw_ok w" and h: "hblk (sw_heap w) b = Some x" "sb_data x = map Some s @ Some 0 # rest" "0 \<notin> set s"
    "length s < 2 ^ 29"
  obtains w' where "rc_AllocateAndCopy (Some (Body b)) 0 w = Inr (Some (hnext (sw_heap w)), w')"
    "hblk (sw_heap w') = (hblk (sw_heap w))(hnext (sw_heap w) \<mapsto>
        \<lparr>sb_len = word_of_nat (length s), sb_ref = 1, sb_data = map Some s @ [Some 0]\<rparr>)"
    "sw_ok w'" "sw_overreads w' = sw_overreads w"
proof -
  have fresh: "hblk (sw_heap w) (hnext (sw_heap w)) = None"
    using ok heap_wf_fresh by (auto simp: sw_ok_def)
  then have bn: "b \<noteq> hnext (sw_heap w)" using h by auto
  have len: "src_strlen (Body b) w = Inr (length s)" using h by (simp add: src_strlen_def cstrlen_rep)
  show thesis
  proof (cases "s = []")
    case True
    obtain w' where "rc_AllocateAndCopy (Some (Body b)) 0 w = Inr (Some (hnext (sw_heap w)), w')"
      "hblk (sw_heap w') = (hblk (sw_heap w))(hnext (sw_heap w) \<mapsto> \<lparr>sb_len = 0, sb_ref = 1, sb_data = [Some 0]\<rparr>)"
      "sw_ok w'" "sw_overreads w' = sw_overreads w"
      by (rule copy_nothing [OF ok, of "Body b"]) (use len True h bn in \<open>auto simp: src_read_def\<close>)
    then show ?thesis using True by (intro that [of w']) simp_all
  next
    case False
    obtain w' where "rc_AllocateAndCopy (Some (Body b)) (word_of_nat (length s)) w = Inr (Some (hnext (sw_heap w)), w')"
      "hblk (sw_heap w') = (hblk (sw_heap w))(hnext (sw_heap w) \<mapsto>
          \<lparr>sb_len = word_of_nat (length s), sb_ref = 1, sb_data = map Some s @ [Some 0]\<rparr>)"
      "sw_ok w'" "sw_overreads w' = sw_overreads w + 0"
      by (rule copy_chars [OF ok, of "length s" "Body b" "map Some s" 0])
        (use False h bn in \<open>auto simp: src_read_def\<close>)
    moreover have "rc_AllocateAndCopy (Some (Body b)) 0 w = rc_AllocateAndCopy (Some (Body b)) (word_of_nat (length s)) w"
    proof -
      have "(word_of_nat (length s) :: u32) \<noteq> 0"
        using False h(4) by (simp add: word_unat_eq_iff unat_u32_of_nat)
      then show ?thesis by (simp add: rc_AllocateAndCopy_def len)
    qed
    ultimately show ?thesis by (intro that [of w']) simp_all
  qed
qed

text \<open>Growing copies \<open>m\<close> characters of the old block, which may have fewer.\<close>

lemma padded_copy:
  assumes "length s < m"
  shows "\<exists>rest'. take m ((map Some s @ Some c # rest) @ replicate k None) @ [z] = map Some s @ Some c # rest'
    \<and> m \<le> length s + length rest' + (m - length ((map Some s @ Some c # rest) @ replicate k None))"
proof -
  have "take m ((map Some s @ Some c # rest) @ replicate k None)
      = map Some s @ Some c # take (m - length s - 1) (rest @ replicate k None)"
    using assms by (simp add: take_Cons')
  then show ?thesis using assms
    by (intro exI [of _ "take (m - length s - 1) (rest @ replicate k None) @ [z]"]) (simp del: take_append)
qed

lemma Realloc_grows:
  fixes w :: "'c word sw"
  assumes ok: "sw_ok w" and h: "holds w b s ref" and m: "length s < m" "m < 2 ^ 29"
  obtains w' where "rc_Realloc ns (Some b) (int m) w = Inr (Some (hnext (sw_heap w)), w')"
    "roomy w' (hnext (sw_heap w)) s m" "sw_ok w'" "others_same {} w w'"
    "hblk (sw_heap w) (hnext (sw_heap w)) = None" "sw_overreads w \<le> sw_overreads w'"
proof -
  let ?f = "hnext (sw_heap w)"
  obtain x rest where x: "hblk (sw_heap w) b = Some x" "sb_len x = word_of_nat (length s)" "sb_ref x = ref"
    "sb_data x = map Some s @ Some 0 # rest" "0 \<notin> set s" "length s < 2 ^ 29" using h by (rule holdsE)
  define over where "over = (if m \<le> length (sb_data x) then 0 else Suc 0)"
  define cs where "cs = take m (sb_data x @ replicate (m - length (sb_data x)) None)"
  have fresh: "hblk (sw_heap w) ?f = None" using ok heap_wf_fresh by (auto simp: sw_ok_def)
  then have bn: "b \<noteq> ?f" using x by auto
  have cs_len: "length cs = m" by (simp add: cs_def)
  obtain w' where w': "rc_AllocateAndCopy (Some (Body b)) (word_of_nat m) w = Inr (Some ?f, w')"
    "hblk (sw_heap w') = (hblk (sw_heap w))(?f \<mapsto> \<lparr>sb_len = word_of_nat m, sb_ref = 1, sb_data = cs @ [Some 0]\<rparr>)"
    "sw_ok w'" "sw_overreads w' = sw_overreads w + over"
    by (rule copy_chars [OF ok, of m "Body b" cs over])
      (use m x(1) bn cs_len in \<open>auto simp: src_read_def over_def cs_def Let_def\<close>)
  have ne: "(word_of_nat m :: u32) \<noteq> sb_len x"
    using m x(2) u32_of_nat_eq_iff [of m "length s"] by simp
  let ?y = "\<lparr>sb_len = word_of_nat m, sb_ref = 1, sb_data = cs @ [Some 0]\<rparr> :: 'c word sblk"
  have wr: "write_chars (Some ?f) m [Some 0] w' = Inr (put_blk ?f ?y w')"
    using w'(2) cs_len by (simp add: write_chars_def blk_def)
  have same: "put_blk ?f ?y w' = w'"
    using w'(2) by (simp add: put_blk_def hwrite_def fun_upd_idem)
  have "rc_Realloc ns (Some b) (int m) w = Inr (Some ?f, w')"
    using m x ne w'(1) wr same by (simp add: rc_Realloc_def)
  moreover have "roomy w' ?f s m"
  proof -
    have "\<exists>rest. cs @ [Some 0] = map Some s @ Some 0 # rest \<and> m \<le> length s + length rest"
      using padded_copy [OF m(1), of 0 rest "m - length (sb_data x)" "Some 0"] by (simp add: cs_def x(4))
    then show ?thesis using w'(2) m(1) by (simp add: roomy_def max_def)
  qed
  moreover have "others_same {} w w'" using w'(2) fresh by (auto simp: others_same_def)
  ultimately show thesis using that w'(3,4) fresh by auto
qed

lemma CopyOnWrite_unique:
  assumes "hblk (sw_heap w) b = Some x" "sb_ref x = 1" "b \<noteq> ns"
  shows "rc_CopyOnWrite ns (Some b) w = Inr (Some b, w)"
  using assms by (simp add: rc_CopyOnWrite_def rc_GetRefCount_def blk_def)

lemma CopyOnWrite_shared:
  fixes w :: "'c word sw"
  assumes ok: "sw_ok w" and h: "holds w b s ref" and ref: "1 < ref" "b \<noteq> ns"
  obtains w' where "rc_CopyOnWrite ns (Some b) w = Inr (Some (hnext (sw_heap w)), w')"
    "holds w' (hnext (sw_heap w)) s 1" "holds w' b s (ref - 1)" "sw_ok w'" "others_same {b} w w'"
    "hblk (sw_heap w) (hnext (sw_heap w)) = None" "sw_overreads w' = sw_overreads w"
proof -
  let ?f = "hnext (sw_heap w)"
  obtain x rest where x: "hblk (sw_heap w) b = Some x" "sb_len x = word_of_nat (length s)" "sb_ref x = ref"
    "sb_data x = map Some s @ Some 0 # rest" "0 \<notin> set s" "length s < 2 ^ 29" using h by (rule holdsE)
  have fresh: "hblk (sw_heap w) ?f = None" using ok heap_wf_fresh by (auto simp: sw_ok_def)
  have r1: "ref - 1 \<noteq> 0" using ref by auto
  obtain w1 where d: "rc_DecRefCount ns (Some b) w = Inr (Some ns, w1)" "others_same {b} w w1"
    "holds w1 b s (ref - 1)" "sw_ok w1" "sw_overreads w1 = sw_overreads w" "hnext (sw_heap w1) = ?f"
  proof -
    have "rc_DecRefCount ns (Some b) w = Inr (Some ns, put_blk b (x\<lparr>sb_ref := ref - 1\<rparr>) w)"
      using x r1 by (simp add: rc_DecRefCount_def Let_def)
    then show thesis using DecRefCount_holds [OF h, of ns] ref r1 ok
      by (intro that [of "put_blk b (x\<lparr>sb_ref := ref - 1\<rparr>) w"]) auto
  qed
  obtain x1 rest1 where x1: "hblk (sw_heap w1) b = Some x1" "sb_data x1 = map Some s @ Some 0 # rest1"
    using d(3) by (rule holdsE)
  obtain w' where w': "rc_AllocateAndCopy (Some (Body b)) 0 w1 = Inr (Some ?f, w')"
    "hblk (sw_heap w') = (hblk (sw_heap w1))(?f \<mapsto>
        \<lparr>sb_len = word_of_nat (length s), sb_ref = 1, sb_data = map Some s @ [Some 0]\<rparr>)"
    "sw_ok w'" "sw_overreads w' = sw_overreads w1"
    using copy_string [OF d(4) x1 x(5,6)] d(6) by auto
  have bn: "b \<noteq> ?f" using fresh x(1) by auto
  have f1: "hblk (sw_heap w1) ?f = None" using d(4,6) heap_wf_fresh by (metis sw_ok_def)
  have "rc_CopyOnWrite ns (Some b) w = Inr (Some ?f, w')"
    using ref x d(1) w'(1) by (simp add: rc_CopyOnWrite_def rc_GetRefCount_def)
  moreover have "holds w' ?f s 1" using w'(2) x(5,6) by (simp add: holds_def)
  moreover have "holds w' b s (ref - 1)"
    using d(3) w'(2) bn by (simp add: holds_def)
  moreover have "others_same {b} w w'" using d(2) w'(2) f1 fresh by (auto simp: others_same_def)
  ultimately show thesis using that w'(3,4) d(5) fresh by auto
qed

text \<open>\<open>Reserve\<close> makes room first and then copies a block that has other owners.\<close>

lemma Reserve_halves:
  fixes w :: "'c word sw"
  assumes h: "holds w b s ref" and ns: "b = ns \<longrightarrow> s = []" and n: "n < 2 ^ 29"
  shows "rc_Reserve ns (Some b) (int n) w =
     bindR (if length s < max 1 n then rc_Realloc ns (Some b) (int (max 1 n)) w else Inr (Some b, w))
       (\<lambda>(hn1, w1). rc_CopyOnWrite ns hn1 w1)"
proof -
  have len: "length s < 2 ^ 29" using h by (auto elim: holdsE)
  have gl: "rc_GetLength ns (Some b) w = Inr (word_of_nat (length s))"
    using GetLength_holds [OF h, of ns] ns by (cases "b = ns") (auto simp: rc_GetLength_def)
  have mm: "(if int n \<le> 1 then 1 else int n) = int (max 1 n)" by auto
  have cmp: "(word_of_nat (length s) :: u32) < word_of_int (int (max 1 n)) \<longleftrightarrow> length s < max 1 n"
    using u32_of_nat_less_iff [of "length s" "max 1 n"] len n by simp
  show ?thesis unfolding rc_Reserve_def gl bindR_simps Let_def mm cmp ..
qed

lemma Reserve_grows:
  fixes w :: "'c word sw"
  assumes ok: "sw_ok w" and h: "holds w b s ref" and ns: "b = ns \<longrightarrow> s = []" and n: "n < 2 ^ 29"
    and nsl: "hblk (sw_heap w) ns \<noteq> None" and less: "length s < max 1 n"
  obtains b' w' where "rc_Reserve ns (Some b) (int n) w = Inr (Some b', w')" "roomy w' b' s (max 1 n)" "b' \<noteq> ns" "b' \<noteq> b"
    "sw_ok w'" "others_same {} w w'" "hblk (sw_heap w) b' = None"
proof -
  let ?f = "hnext (sw_heap w)"
  obtain w' where w': "rc_Realloc ns (Some b) (int (max 1 n)) w = Inr (Some ?f, w')" "roomy w' ?f s (max 1 n)" "sw_ok w'"
    "others_same {} w w'" "hblk (sw_heap w) ?f = None"
    by (rule Realloc_grows [OF ok h less, of ns]) (use n in auto)
  have f: "?f \<noteq> b" using w'(5) h by (auto elim!: holdsE)
  have fns: "?f \<noteq> ns" using w'(5) nsl by metis
  obtain x where "hblk (sw_heap w') ?f = Some x" "sb_ref x = 1" using w'(2) by (rule roomyE)
  from CopyOnWrite_unique [OF this fns] w'(1) less Reserve_halves [OF h ns n]
  have "rc_Reserve ns (Some b) (int n) w = Inr (Some ?f, w')" by simp
  then show ?thesis using w' f fns that by blast
qed

text \<open>
  \<open>Reserve\<close>: the handle that comes back has one owner and room for the request; the old block is either
  the same, or given up, or (when the string grew) left exactly as it was.
\<close>

lemma Reserve_ok:
  fixes w :: "'c word sw"
  assumes ok: "sw_ok w" and h: "holds w b s ref" and ns: "b = ns \<longrightarrow> s = []" and n: "n < 2 ^ 29"
    and nsl: "hblk (sw_heap w) ns \<noteq> None"
  obtains b' w' where "rc_Reserve ns (Some b) (int n) w = Inr (Some b', w')"
    "roomy w' b' s (max 1 n)" "b' \<noteq> ns" "sw_ok w'" "others_same {b} w w'"
    "b' = b \<or> hblk (sw_heap w) b' = None"
    "length s < max 1 n \<longrightarrow> b' \<noteq> b \<and> others_same {} w w'"
    "\<not> length s < max 1 n \<and> ref = 1 \<longrightarrow> b' = b \<and> w' = w"
    "\<not> length s < max 1 n \<and> ref \<noteq> 1 \<longrightarrow> b' \<noteq> b \<and> holds w' b s (ref - 1)"
proof (cases "length s < max 1 n")
  case True
  obtain b' w' where "rc_Reserve ns (Some b) (int n) w = Inr (Some b', w')" "roomy w' b' s (max 1 n)" "b' \<noteq> ns" "b' \<noteq> b"
    "sw_ok w'" "others_same {} w w'" "hblk (sw_heap w) b' = None"
    by (rule Reserve_grows [OF ok h ns n nsl True])
  then show ?thesis using True by (intro that [of b' w']) (auto simp: others_same_def)
next
  case False
  then have bns: "b \<noteq> ns" using ns by auto
  have res: "rc_Reserve ns (Some b) (int n) w = rc_CopyOnWrite ns (Some b) w"
    using Reserve_halves [OF h ns n] False by simp
  show ?thesis
  proof (cases "ref = 1")
    case True
    obtain x where x: "hblk (sw_heap w) b = Some x" "sb_ref x = 1" using h True by (auto elim!: holdsE)
    have "rc_Reserve ns (Some b) (int n) w = Inr (Some b, w)" using res CopyOnWrite_unique [OF x bns] by simp
    moreover have "roomy w b s (max 1 n)" by (rule holds_roomy) (use h True False in \<open>auto simp: max_def split: if_splits\<close>)
    ultimately show ?thesis using bns ok False True by (intro that [of b w]) auto
  next
    case rf: False
    have "ref \<noteq> 0" using h by (auto elim: holdsE)
    with rf have gt: "1 < ref" by (metis word_le_sub1 word_less_1 order_le_imp_less_or_eq not_less linorder_neqE)
    obtain w' where w': "rc_CopyOnWrite ns (Some b) w = Inr (Some (hnext (sw_heap w)), w')"
      "holds w' (hnext (sw_heap w)) s 1" "holds w' b s (ref - 1)" "sw_ok w'" "others_same {b} w w'"
      "hblk (sw_heap w) (hnext (sw_heap w)) = None"
      by (rule CopyOnWrite_shared [OF ok h gt bns])
    have "roomy w' (hnext (sw_heap w)) s (max 1 n)" by (rule holds_roomy [OF w'(2)]) (use False in linarith)
    moreover have "hnext (sw_heap w) \<noteq> b" using w'(6) h by (auto elim!: holdsE)
    ultimately show ?thesis using w' res False rf nsl
      by (intro that [of "hnext (sw_heap w)" w']) auto
  qed
qed

end

context char_width
begin

text \<open>\<open>Swap\<close> stores the characters but leaves the length field as \<open>Reserve\<close> left it.\<close>

lemma Swap_stores:
  fixes w :: "'c word sw"
  assumes ok: "sw_ok w" and h: "holds w b s ref" and b: "b = ns \<longrightarrow> s = []" and nsl: "hblk (sw_heap w) ns \<noteq> None"
    and u: "0 \<notin> set u" "length u < 2 ^ 29"
  shows "\<exists>b' w' x r. rc_Swap ns (Some b) (Some (Ext (map Some u @ Some 0 # rest))) 0 w = Inr (Some b', w')
    \<and> hblk (sw_heap w') b' = Some x \<and> sb_data x = map Some u @ Some 0 # r \<and> sb_ref x = 1
    \<and> sb_len x = word_of_nat (max (length s) (max 1 (length u))) \<and> b' \<noteq> ns \<and> sw_ok w' \<and> others_same {b} w w'"
proof -
  let ?src = "Ext (map Some u @ Some 0 # rest)"
  obtain b1 w1 where r: "rc_Reserve ns (Some b) (int (length u)) w = Inr (Some b1, w1)"
    "roomy w1 b1 s (max 1 (length u))" "b1 \<noteq> ns" "sw_ok w1" "others_same {b} w w1" "b1 = b \<or> hblk (sw_heap w) b1 = None"
    by (rule Reserve_ok [OF ok h b u(2) nsl])
  obtain x ys where x: "hblk (sw_heap w1) b1 = Some x" "sb_len x = word_of_nat (max (length s) (max 1 (length u)))"
    "sb_ref x = 1" "sb_data x = map Some s @ Some 0 # ys" "max 1 (length u) \<le> length s + length ys"
    using r(2) by (rule roomyE)
  have l: "length u < length (sb_data x)" using x(4,5) by simp
  let ?d = "map Some u @ Some 0 # drop (Suc (length u)) (sb_data x)"
  let ?w = "put_blk b1 (x\<lparr>sb_data := ?d\<rparr>) w1"
  have "drop (Suc (length u)) (map Some u @ drop (length u) (sb_data x)) = drop (Suc (length u)) (sb_data x)"
    using l by (simp add: drop_append)
  then have wr: "bindR (write_chars (Some b1) 0 (map Some u) w1) (\<lambda>w3. write_chars (Some b1) (length u) [Some 0] w3) = Inr ?w"
    using x(1) l by (simp add: write_chars_def blk_def)
  have n: "sint (word_of_nat (length u) :: u32) = int (length u)" "unat (word_of_nat (length u) :: u32) = length u"
    using u(2) by (simp_all add: sint_u32_of_nat unat_u32_of_nat)
  have "rc_Swap ns (Some b) (Some ?src) 0 w = Inr (Some b1, ?w)"
    using wr n r(1) u(1) by (auto simp: rc_Swap_def src_strlen_def cstrlen_rep src_read_def bindR_eq_Inr)
  moreover have "sw_ok ?w"
    using r(4) x(1) by (auto simp: sw_ok_def put_blk_def no_oom_def intro!: hwrite_wf)
  moreover have "others_same {b} w ?w" using r(5,6) by (auto simp: others_same_def)
  ultimately show ?thesis using x(2,3) r(3)
    by (intro exI [of _ b1] exI [of _ ?w] exI [of _ "x\<lparr>sb_data := ?d\<rparr>"] exI [of _ "drop (Suc (length u)) (sb_data x)"]) simp
qed

end

end
