(* ===== verification/SharedString.thy ===== *)
theory SharedString
  imports RcString
begin

text \<open>
  Threads that share the block of a string (\<open>src/game/engine/string.cpp\<close>, \<open>WString.cpp\<close>). The counter is changed by
  interlocked operations, so a copy is one step; a destruction is two, the decrement and, for the thread that reached zero,
  the release. Objects may pass from thread to thread. Copying on write reads the counter, then decrements it, then copies
  from the block it gave up: three steps, between which others may run.
\<close>

section \<open>The halves of a destruction\<close>

definition dec_count :: "nat \<Rightarrow> 'c sw \<Rightarrow> (bool \<times> 'c sw) res" where
  "dec_count b w = bindR (blk b w) (\<lambda>x. Inr (sb_ref x - 1 = 0, put_blk b (x\<lparr>sb_ref := sb_ref x - 1\<rparr>) w))"

definition free_block :: "nat \<Rightarrow> 'c sw \<Rightarrow> 'c sw res" where
  "free_block b w = bindR (blk b w) (\<lambda>_. Inr (w\<lparr>sw_heap := hfree b (sw_heap w)\<rparr>))"

lemma destroy_in_halves:
  "rc_destroy ns (Some b) w = bindR (dec_count b w) (\<lambda>(zero, w1). if zero then free_block b w1 else Inr w1)"
proof (cases "hblk (sw_heap w) b")
  case None
  then show ?thesis by (simp add: rc_destroy_def rc_DecRefCount_def dec_count_def blk_def)
next
  case (Some x)
  then show ?thesis
    by (simp add: rc_destroy_def rc_DecRefCount_def dec_count_def free_block_def Let_def)
       (simp add: put_blk_def hwrite_def hfree_def)
qed

section \<open>Threads\<close>

record 'c sharing =
  sh_w :: "'c sw"
  sh_own :: "nat \<Rightarrow> nat"         \<comment> \<open>how many objects with the block a thread has\<close>
  sh_freeing :: "nat set"        \<comment> \<open>threads whose decrement gave zero, before the release\<close>

inductive sh_step :: "nat \<Rightarrow> nat \<Rightarrow> nat set \<Rightarrow> 'c sharing \<Rightarrow> 'c sharing \<Rightarrow> bool" for ns b T where
  copies: "t \<in> T \<Longrightarrow> t \<notin> sh_freeing s \<Longrightarrow> 0 < sh_own s t \<Longrightarrow> sum (sh_own s) T < 2 ^ 32 - 1 \<Longrightarrow>
    rc_new_copy ns (Some b) (sh_w s) = Inr (hn, w) \<Longrightarrow>
    sh_step ns b T s (s\<lparr>sh_w := w, sh_own := (sh_own s)(t := sh_own s t + 1)\<rparr>)"
| drops: "t \<in> T \<Longrightarrow> t \<notin> sh_freeing s \<Longrightarrow> 0 < sh_own s t \<Longrightarrow> dec_count b (sh_w s) = Inr (zero, w) \<Longrightarrow>
    sh_step ns b T s (s\<lparr>sh_w := w, sh_own := (sh_own s)(t := sh_own s t - 1),
                        sh_freeing := (if zero then insert t (sh_freeing s) else sh_freeing s)\<rparr>)"
| frees: "t \<in> sh_freeing s \<Longrightarrow> free_block b (sh_w s) = Inr w \<Longrightarrow>
    sh_step ns b T s (s\<lparr>sh_w := w, sh_freeing := sh_freeing s - {t}\<rparr>)"
| hands: "t \<in> T \<Longrightarrow> u \<in> T \<Longrightarrow> t \<noteq> u \<Longrightarrow> 0 < sh_own s t \<Longrightarrow>
    sh_step ns b T s (s\<lparr>sh_own := (sh_own s)(t := sh_own s t - 1, u := sh_own s u + 1)\<rparr>)"

definition objects :: "nat set \<Rightarrow> 'c sharing \<Rightarrow> nat" where
  "objects T s = sum (sh_own s) T"

text \<open>While there are objects the block holds the text and counts them; after the last one it is live for exactly the thread that
  is to release it, and then gone.\<close>

definition sh_ok :: "nat \<Rightarrow> nat set \<Rightarrow> 'c::len word list \<Rightarrow> 'c word sharing \<Rightarrow> bool" where
  "sh_ok b T txt s \<longleftrightarrow>
     (if 0 < objects T s
      then sh_freeing s = {} \<and> holds (sh_w s) b txt (word_of_nat (objects T s)) \<and> objects T s < 2 ^ 32
      else hblk (sw_heap (sh_w s)) b \<noteq> None \<and> (\<exists>t. sh_freeing s = {t}) \<or> hblk (sw_heap (sh_w s)) b = None \<and> sh_freeing s = {})"

lemma sum_upd: "finite T \<Longrightarrow> t \<in> T \<Longrightarrow> sum (f(t := v)) T + f t = sum f T + (v :: nat)"
  by (simp add: sum.remove [of T t])

lemma sum_pos: "finite T \<Longrightarrow> t \<in> T \<Longrightarrow> 0 < f t \<Longrightarrow> 0 < sum f T" for f :: "nat \<Rightarrow> nat"
  by (metis gr0I sum_eq_0_iff)

lemma dec_count_holds:
  assumes "holds w b txt (word_of_nat n)" "0 < n" "n < 2 ^ 32"
  shows "\<exists>w'. dec_count b w = Inr (n = 1, w')
    \<and> (if n = 1 then hblk (sw_heap w') b \<noteq> None else holds w' b txt (word_of_nat (n - 1)))"
proof -
  obtain x rest where x: "hblk (sw_heap w) b = Some x" "sb_len x = word_of_nat (length txt)" "sb_ref x = word_of_nat n"
    "sb_data x = map Some txt @ Some 0 # rest" "0 \<notin> set txt" "length txt < 2 ^ 29" using assms(1) by (rule holdsE)
  have r: "sb_ref x - 1 = word_of_nat (n - 1)" using x(3) assms(2) by (simp add: of_nat_diff)
  have z: "(word_of_nat (n - 1) :: u32) = 0 \<longleftrightarrow> n = 1"
    using u32_of_nat_eq_iff [of "n - 1" 0] assms(2,3) by auto
  show ?thesis using x(1,2,4-6) r z by (auto simp: dec_count_def holds_def)
qed

section \<open>Every interleaving of copies and destructions\<close>

lemma sh_step_keeps:
  assumes "finite T" "b \<noteq> ns" "sh_step ns b T s s'" "sh_ok b T txt s"
  shows "sh_ok b T txt s'"
  using assms(3)
proof (cases rule: sh_step.cases)
  case (copies t hn w)
  let ?n = "objects T s"
  have n: "0 < ?n" using sum_pos [of T t "sh_own s"] assms(1) copies(2,4) by (simp add: objects_def)
  then have h: "holds (sh_w s) b txt (word_of_nat ?n)" "sh_freeing s = {}" using assms(4) by (simp_all add: sh_ok_def)
  have lt: "?n < 2 ^ 32 - 1" using copies(5) by (simp add: objects_def)
  then have "(word_of_nat ?n :: u32) + 1 \<noteq> 0" using u32_of_nat_eq_iff [of "Suc ?n" 0] by (simp add: add.commute)
  from IncRefCount_holds [OF h(1) assms(2) this] copies(6) have "holds w b txt (word_of_nat ?n + 1)"
    by (auto simp: rc_new_copy_def)
  moreover have "objects T s' = ?n + 1" using sum_upd [OF assms(1) copies(2), of "sh_own s" "sh_own s t + 1"] copies(1) by (simp add: objects_def)
  ultimately show ?thesis using h(2) lt copies(1) by (simp add: sh_ok_def add.commute)
next
  case (drops t zero w)
  let ?n = "objects T s"
  have n: "0 < ?n" using sum_pos [of T t "sh_own s"] assms(1) drops(2,4) by (simp add: objects_def)
  then have h: "holds (sh_w s) b txt (word_of_nat ?n)" "sh_freeing s = {}" "?n < 2 ^ 32" using assms(4) by (simp_all add: sh_ok_def)
  have "zero = (?n = 1)" "if ?n = 1 then hblk (sw_heap w) b \<noteq> None else holds w b txt (word_of_nat (?n - 1))"
    using dec_count_holds [OF h(1) n h(3)] drops(5) by auto
  moreover have "objects T s' = ?n - 1"
    using sum_upd [OF assms(1) drops(2), of "sh_own s" "sh_own s t - 1"] drops(1,4) by (simp add: objects_def)
  ultimately show ?thesis using h(2,3) n drops(1) by (auto simp: sh_ok_def)
next
  case (frees t w)
  have "hblk (sw_heap w) b = None" using frees(3) by (auto simp: free_block_def bindR_eq_Inr)
  then show ?thesis using assms(4) frees(1,2) by (auto simp: sh_ok_def objects_def split: if_splits)
next
  case (hands t u)
  have "objects T s' = objects T s"
    using sum_upd [OF assms(1) hands(2), of "sh_own s" "sh_own s t - 1"]
      sum_upd [OF assms(1) hands(3), of "(sh_own s)(t := sh_own s t - 1)" "sh_own s u + 1"] hands(1,4,5)
    by (simp add: objects_def)
  then show ?thesis using assms(4) hands(1) by (auto simp: sh_ok_def split: if_splits)
qed

text \<open>C22: However copies and destructions of objects that share a string's block interleave between threads, the decrements and the
  release apart: while any object is left the block holds the characters and counts the objects; only the thread that gave
  up the last one releases it, once; and no step touches a block that is gone.\<close>

theorem shared_block_lifetime:
  assumes "finite T" "b \<noteq> ns" "0 < objects T s" "objects T s < 2 ^ 32" "sh_freeing s = {}"
    and "holds (sh_w s) b txt (word_of_nat (objects T s))" "(sh_step ns b T)\<^sup>*\<^sup>* s s'"
  shows "sh_ok b T txt s'
    \<and> (\<forall>t \<in> T. 0 < sh_own s' t \<longrightarrow> (\<exists>r. dec_count b (sh_w s') = Inr r) \<and> (\<exists>r. rc_new_copy ns (Some b) (sh_w s') = Inr r))
    \<and> (\<forall>t \<in> sh_freeing s'. \<exists>w. free_block b (sh_w s') = Inr w)"
proof -
  have "sh_ok b T txt s" using assms(3-6) by (simp add: sh_ok_def)
  with assms(7) have ok: "sh_ok b T txt s'"
    by (induction rule: rtranclp_induct) (auto intro: sh_step_keeps [OF assms(1,2)])
  moreover have "\<forall>t \<in> T. 0 < sh_own s' t \<longrightarrow> (\<exists>r. dec_count b (sh_w s') = Inr r) \<and> (\<exists>r. rc_new_copy ns (Some b) (sh_w s') = Inr r)"
  proof (intro ballI impI)
    fix t assume "t \<in> T" "0 < sh_own s' t"
    then have "0 < objects T s'" using sum_pos [of T t "sh_own s'"] assms(1) by (simp add: objects_def)
    then have "holds (sh_w s') b txt (word_of_nat (objects T s'))" using ok by (simp add: sh_ok_def)
    then show "(\<exists>r. dec_count b (sh_w s') = Inr r) \<and> (\<exists>r. rc_new_copy ns (Some b) (sh_w s') = Inr r)"
      by (elim holdsE) (simp add: dec_count_def rc_new_copy_def rc_IncRefCount_def)
  qed
  moreover have "\<forall>t \<in> sh_freeing s'. \<exists>w. free_block b (sh_w s') = Inr w"
    using ok by (auto simp: sh_ok_def free_block_def blk_def split: if_splits)
  ultimately show ?thesis by blast
qed

text \<open>Two threads with an object each; the first gives its own up.\<close>

theorem shared_block_lifetime_witness:
  "sh_ok 1 {0, 1} [65] \<lparr>sh_w = \<lparr>sw_heap = \<lparr>hblk = [1 \<mapsto> \<lparr>sb_len = 1, sb_ref = 1, sb_data = [Some (65 :: u8), Some 0]\<rparr>],
     hnext = 2, hfail = (\<lambda>_ _. False)\<rparr>, sw_overreads = 0\<rparr>, sh_own = (\<lambda>t. if t = 1 then 1 else 0), sh_freeing = {}\<rparr>"
  (is "sh_ok 1 ?T _ ?t")
proof -
  let ?h = "\<lparr>hblk = [1 \<mapsto> \<lparr>sb_len = 1, sb_ref = 2, sb_data = [Some (65 :: u8), Some 0]\<rparr>], hnext = 2, hfail = (\<lambda>_ _. False)\<rparr>"
  let ?s = "\<lparr>sh_w = \<lparr>sw_heap = ?h, sw_overreads = 0\<rparr>, sh_own = (\<lambda>t. if t \<in> ?T then 1 else 0), sh_freeing = {}\<rparr>"
  have o: "objects ?T ?s = 2" by (simp add: objects_def)
  have h: "holds (sh_w ?s) 1 [65] (word_of_nat (objects ?T ?s))" unfolding o by (simp add: holds_def)
  have own: "(\<lambda>t. if t \<in> ?T then 1 else 0)(0 := 0) = (\<lambda>t :: nat. if t = 1 then 1 else (0 :: nat))" by auto
  have d: "dec_count 1 (sh_w ?s) = Inr (False, sh_w ?t)"
    by (simp add: dec_count_def blk_def put_blk_def hwrite_def)
  have "sh_step 0 1 ?T ?s ?t"
    using drops [of 0 ?T ?s 1 False "sh_w ?t" 0] d own by simp
  then have path: "(sh_step 0 1 ?T)\<^sup>*\<^sup>* ?s ?t" by (rule r_into_rtranclp)
  have "finite ?T" "(1 :: nat) \<noteq> 0" "0 < objects ?T ?s" "objects ?T ?s < 2 ^ 32" "sh_freeing ?s = {}"
    unfolding o by simp_all
  from shared_block_lifetime [OF this h path] show ?thesis by (rule conjunct1)
qed

section \<open>Copying on write\<close>

definition cow_shared :: "nat \<Rightarrow> nat \<Rightarrow> 'c sw \<Rightarrow> bool res" where
  "cow_shared ns b w = bindR (rc_GetRefCount ns (Some b) w) (\<lambda>ref. Inr (1 < ref))"

definition cow_copy :: "nat \<Rightarrow> 'c::len word sw \<Rightarrow> (handle \<times> 'c word sw) res" where
  "cow_copy b w = rc_AllocateAndCopy (Some (Body b)) 0 w"

lemma cow_in_steps:
  "b \<noteq> ns \<Longrightarrow> rc_CopyOnWrite ns (Some b) w =
     bindR (cow_shared ns b w) (\<lambda>sh. if sh then bindR (rc_destroy ns (Some b) w) (cow_copy b) else Inr (Some b, w))"
  by (cases "hblk (sw_heap w) b")
    (simp_all add: rc_CopyOnWrite_def cow_shared_def cow_copy_def rc_destroy_def rc_GetRefCount_def rc_DecRefCount_def blk_def Let_def)

text \<open>One after the other, two owners that write get a block each. When both have looked before either gives the block up, it is
  released before they copy from it.\<close>

theorem cow_race:
  fixes w :: "'c::len word sw"
  assumes "holds w b txt 2" "b \<noteq> ns"
  shows "cow_shared ns b w = Inr True
    \<and> (\<exists>w1 w2. rc_destroy ns (Some b) w = Inr w1 \<and> rc_destroy ns (Some b) w1 = Inr w2 \<and> cow_copy b w2 = Inl UseAfterFree)"
proof -
  obtain w1 where w1: "rc_destroy ns (Some b) w = Inr w1" "holds w1 b txt 1"
    using DecRefCount_holds [OF assms(1), of ns] by (auto simp: rc_destroy_def)
  obtain w2 where w2: "rc_destroy ns (Some b) w1 = Inr w2" "hblk (sw_heap w2) b = None"
    using DecRefCount_holds [OF w1(2), of ns] by (auto simp: rc_destroy_def)
  have "cow_copy b w2 = Inl UseAfterFree"
    using w2(2) by (simp add: cow_copy_def rc_AllocateAndCopy_def src_strlen_def blk_def)
  moreover have "cow_shared ns b w = Inr True"
    using GetRefCount_holds [OF assms] by (simp add: cow_shared_def)
  ultimately show ?thesis using w1(1) w2(1) by blast
qed

end
