(* ===== verification/StringLog.thy ===== *)
theory StringLog
  imports RcString
begin

text \<open>
  The log line of a string object, \<open>log_str\<close> of \<open>include/game/engine/string.h\<close> and \<open>WString.h\<close>, which the string
  operations write when the library is built with \<open>CONCAT_LOG\<close>. What is printed is a value; turning it into text is
  \<open>fmt\<close>'s. \<open>addr\<close> gives the address of a block's characters.
\<close>

section \<open>What is printed\<close>

datatype 'c string_line =
    NullObject
  | NullString handle
  | BrokenHeader nat
  | StringAt nat int u32 'c      \<comment> \<open>block, length, count, and the characters shown\<close>

text \<open>The first characters, at most fifteen, into an array of sixteen that has been terminated; only characters that were
  written can be printed. A length above \<open>2 ^ 31\<close> is a negative \<open>int\<close>, and the terminator lands before the array.\<close>

definition display_chars :: "int \<Rightarrow> nat \<Rightarrow> 'c::len word sw \<Rightarrow> ('c word option list \<times> 'c word sw) res" where
  "display_chars len b w =
     (let display_len = (if len > 15 then 15 else len)
      in if display_len < 0 then Inl OobWrite
         else bindR (src_read (Body b) (nat display_len) w) (\<lambda>(cs, w1). Inr (cs @ [Some 0], w1)))"

fun c_text :: "'c::len word option list \<Rightarrow> 'c word list res" where
  "c_text [] = Inl OobRead"
| "c_text (None # cs) = Inl UninitRead"
| "c_text (Some c # cs) = (if c = 0 then Inr [] else bindR (c_text cs) (\<lambda>t. Inr (c # t)))"

text \<open>\<open>None\<close> is a null object. The wide class copies the characters too but shows three dots; it compares with the 8-bit
  class's null string, not its own.\<close>

definition log_str :: "(nat \<Rightarrow> u32) \<Rightarrow> nat \<Rightarrow> handle option \<Rightarrow> 8 word sw \<Rightarrow> (u8 list string_line \<times> 8 word sw) res" where
  "log_str addr ns handle w =
     (case handle of
        None \<Rightarrow> Inr (NullObject, w)
      | Some None \<Rightarrow> Inr (NullString None, w)
      | Some (Some b) \<Rightarrow>
          if b = ns then Inr (NullString (Some b), w)
          else if addr b - 8 = 0 then Inr (BrokenHeader b, w)
          else bindR (blk b w) (\<lambda>x.
               bindR (display_chars (sint (sb_len x)) b w) (\<lambda>(cs, w1).
               bindR (c_text cs) (\<lambda>str. Inr (StringAt b (sint (sb_len x)) (sb_ref x) str, w1)))))"

definition wlog_str :: "(nat \<Rightarrow> u32) \<Rightarrow> nat \<Rightarrow> handle option \<Rightarrow> 16 word sw \<Rightarrow> (string string_line \<times> 16 word sw) res" where
  "wlog_str addr nullstr handle w =
     (case handle of
        None \<Rightarrow> Inr (NullObject, w)
      | Some None \<Rightarrow> Inr (NullString None, w)
      | Some (Some b) \<Rightarrow>
          if b = nullstr then Inr (NullString (Some b), w)
          else if addr b - 8 = 0 then Inr (BrokenHeader b, w)
          else bindR (blk b w) (\<lambda>x.
               bindR (display_chars (sint (sb_len x)) b w) (\<lambda>(_, w1).
               Inr (StringAt b (sint (sb_len x)) (sb_ref x) ''...'', w1))))"

section \<open>Strings are shown as they are\<close>

lemma c_text_ends: "0 \<notin> set s \<Longrightarrow> c_text (map Some s @ Some 0 # rest) = Inr s"
  by (induction s) auto

lemma display_holds:
  assumes "holds w b s n"
  shows "display_chars (int (length s)) b w = Inr (map Some (take 15 s) @ [Some 0], w)"
proof -
  obtain x rest where x: "hblk (sw_heap w) b = Some x" "sb_data x = map Some s @ Some 0 # rest"
    using assms by (rule holdsE)
  have "nat (if 15 < int (length s) then 15 else int (length s)) = min 15 (length s)" by auto
  then show ?thesis using x by (simp add: display_chars_def src_read_def blk_def Let_def take_map min_def)
qed

text \<open>A string that holds characters is shown with its length, its owners and its first fifteen characters, and stays as it is;
  no character outside it is read.\<close>

theorem log_str_shows:
  assumes "holds w b s n" "b \<noteq> ns" "addr b \<noteq> 8"
  shows "log_str addr ns (Some (Some b)) w = Inr (StringAt b (int (length s)) n (take 15 s), w)"
proof -
  obtain x rest where x: "hblk (sw_heap w) b = Some x" "sb_len x = word_of_nat (length s)" "sb_ref x = n" "0 \<notin> set s"
    "length s < 2 ^ 29" using assms(1) by (rule holdsE)
  have l: "sint (sb_len x) = int (length s)" using x(2,5) by (simp add: sint_u32_of_nat)
  have "c_text (map Some (take 15 s) @ [Some 0]) = Inr (take 15 s)"
    by (rule c_text_ends) (use x(4) in_set_takeD in fastforce)
  then show ?thesis
    using assms(2,3) x(1,3) display_holds [OF assms(1)] by (simp add: log_str_def blk_def l)
qed

theorem wlog_str_shows:
  assumes "holds w b s n" "b \<noteq> nullstr" "addr b \<noteq> 8"
  shows "wlog_str addr nullstr (Some (Some b)) w = Inr (StringAt b (int (length s)) n ''...'', w)"
proof -
  obtain x rest where x: "hblk (sw_heap w) b = Some x" "sb_len x = word_of_nat (length s)" "sb_ref x = n"
    "length s < 2 ^ 29" using assms(1) by (rule holdsE)
  have l: "sint (sb_len x) = int (length s)" using x(2,4) by (simp add: sint_u32_of_nat)
  show ?thesis using assms(2,3) x(1,3) display_holds [OF assms(1)] by (simp add: wlog_str_def blk_def l)
qed

text \<open>A length of \<open>2 ^ 31\<close> or more corrupts the stack.\<close>

lemma log_str_negative_length:
  assumes "hblk (sw_heap w) b = Some x" "2 ^ 31 \<le> unat (sb_len x)" "b \<noteq> ns" "addr b \<noteq> 8"
  shows "log_str addr ns (Some (Some b)) w = Inl OobWrite"
proof -
  let ?u = "uint (sb_len x)"
  have e: "?u = int (unat (sb_len x))" by (rule uint_nat)
  have "2147483648 \<le> unat (sb_len x)" "unat (sb_len x) < 4294967296" using assms(2) unat_u32_less [of "sb_len x"] by simp_all
  then have u: "2147483648 \<le> ?u" "?u < 4294967296" unfolding e by linarith+
  have "(?u + 2147483648) mod 4294967296 = (?u + 2147483648 - 4294967296) mod 4294967296" by (rule minus_mod_self2 [symmetric])
  also have "\<dots> = ?u - 2147483648" using u by (subst mod_pos_pos_trivial) simp_all
  finally have "(?u + 2147483648) mod 4294967296 = ?u - 2147483648" .
  then have "sint (sb_len x) < 0" using u by (simp add: sint_uint signed_take_bit_eq_take_bit_shift take_bit_eq_mod)
  then show ?thesis using assms by (simp add: log_str_def blk_def display_chars_def)
qed

end
