(* ===== verification/EngineString.thy ===== *)
theory EngineString
  imports RcString
begin

text \<open>
  The engine's 8-bit string class, \<open>src/game/engine/string.cpp\<close> and \<open>include/game/engine/string.h\<close>:
  the operations it shares with the wide class are the ones of RcString at 8 bits; here are the ones it
  has alone, and the properties of the class.

  Multibyte characters: \<open>_mbsinc\<close> steps over one byte, or over two when the first is a lead byte of
  the code page; the code page's lead bytes are the argument \<open>lead\<close>. \<open>vsprintf_s\<close> is the argument of
  \<open>str_Vformat\<close> that says what was written.
\<close>

type_synonym sworld = "8 word sw"

definition mbsinc :: "(u8 \<Rightarrow> bool) \<Rightarrow> u8 option list \<Rightarrow> nat res" where
  "mbsinc lead cs =
     (case cs of
        [] \<Rightarrow> Inl OobRead
      | None # _ \<Rightarrow> Inl UninitRead
      | Some c # rest \<Rightarrow>
          if lead c then (case rest of
              [] \<Rightarrow> Inl OobRead
            | None # _ \<Rightarrow> Inl UninitRead
            | Some d # _ \<Rightarrow> Inr (if d = 0 then 1 else 2))
          else Inr 1)"

definition str_Truncate :: "nat \<Rightarrow> handle \<Rightarrow> int \<Rightarrow> sworld \<Rightarrow> sworld res" where
  "str_Truncate ns hn maxLength w =
     (case hn of
        None \<Rightarrow> Inr w
      | Some b \<Rightarrow>
          if b = ns then Inr w
          else bindR (blk b w) (\<lambda>x.
            let old_size = sint (sb_len x);
                new_size = (if maxLength \<le> 0 then 0 else maxLength);
                new_size' = (if new_size \<ge> old_size then old_size else new_size)
            in if new_size' < 0 then Inl OobWrite
               else write_chars (Some b) (nat new_size') [Some 0]
                      (put_blk b (x\<lparr>sb_len := word_of_int new_size'\<rparr>) w)))"

definition str_TruncateSelf :: "nat \<Rightarrow> handle \<Rightarrow> sworld \<Rightarrow> sworld res" where
  "str_TruncateSelf ns hn w =
     bindR (case hn of
              None \<Rightarrow> Inr 0
            | Some b \<Rightarrow> if b = ns then Inr 0 else src_strlen (Body b) w) (\<lambda>len.
     str_Truncate ns hn (sint (word_of_nat len :: u32)) w)"

definition str_ValidateString :: "nat \<Rightarrow> handle \<Rightarrow> sworld \<Rightarrow> bool res" where
  "str_ValidateString ns hn w =
     (case hn of
        None \<Rightarrow> Inr True
      | Some b \<Rightarrow>
          if b = ns then Inr True
          else bindR (blk b w) (\<lambda>x.
               bindR (src_strlen (Body b) w) (\<lambda>n. Inr (sb_len x = word_of_nat n))))"

text \<open>\<open>self\<close>: the argument is the object itself, whose handle \<open>Reserve\<close> may have replaced.\<close>

definition str_Concatenate :: "nat \<Rightarrow> handle \<Rightarrow> bool \<Rightarrow> handle option \<Rightarrow> sworld \<Rightarrow> (handle \<times> sworld) res" where
  "str_Concatenate ns hn self pStr w =
     (case pStr of
        None \<Rightarrow> Inr (hn, w)
      | Some other \<Rightarrow>
          if other = None \<or> other = Some ns then Inr (hn, w)
          else bindR (rc_GetLength ns other w) (\<lambda>otherLength.
               if otherLength = 0 then Inr (hn, w)
               else bindR (rc_GetLength ns hn w) (\<lambda>currentLength.
                 let newLength = currentLength + otherLength
                 in bindR (rc_Reserve ns hn (sint newLength) w) (\<lambda>(hn1, w1).
                    case (if self then hn1 else other) of
                      None \<Rightarrow> Inl NullDeref
                    | Some ob \<Rightarrow>
                        bindR (src_read (Body ob) (unat otherLength) w1) (\<lambda>(cs, w2).
                        bindR (write_chars hn1 (unat currentLength) cs w2) (\<lambda>w3.
                        bindR (str_Truncate ns hn1 (sint newLength) w3) (\<lambda>w4.
                        Inr (hn1, w4))))))))"

definition str_Concatenate_cstr :: "nat \<Rightarrow> handle \<Rightarrow> 8 word src option \<Rightarrow> sworld \<Rightarrow> (handle \<times> sworld) res" where
  "str_Concatenate_cstr ns hn pcStr w =
     (case pcStr of
        None \<Rightarrow> Inr (hn, w)
      | Some src \<Rightarrow>
          bindR (src_strlen src w) (\<lambda>other.
          bindR (rc_GetLength ns hn w) (\<lambda>currentLength.
            let otherLength = word_of_nat other; newLength = currentLength + otherLength
            in bindR (rc_Reserve ns hn (sint newLength) w) (\<lambda>(hn1, w1).
               bindR (src_read src (unat otherLength) w1) (\<lambda>(cs, w2).
               bindR (write_chars hn1 (unat currentLength) cs w2) (\<lambda>w3.
               bindR (str_Truncate ns hn1 (sint newLength) w3) (\<lambda>w4.
               Inr (hn1, w4))))))))"

text \<open>
  The search loop of \<open>TruncateAtFirstOccurrence\<close>: the offset of the first match. The comparison is
  between two plain (signed) chars.
\<close>

fun find_char :: "nat \<Rightarrow> (u8 \<Rightarrow> bool) \<Rightarrow> u8 \<Rightarrow> u8 option list \<Rightarrow> nat \<Rightarrow> nat option res option" where
  "find_char 0 lead ch cs off = None"
| "find_char (Suc fuel) lead ch cs off =
     (case rd cs off of
        None \<Rightarrow> Some (Inl OobRead)
      | Some None \<Rightarrow> Some (Inl UninitRead)
      | Some (Some c) \<Rightarrow>
          if c = 0 then Some (Inr None)
          else if c = ch then Some (Inr (Some off))
          else (case mbsinc lead (drop off cs) of
              Inl e \<Rightarrow> Some (Inl e)
            | Inr n \<Rightarrow> find_char fuel lead ch cs (off + n)))"

definition str_TruncateAtFirstOccurrence :: "(u8 \<Rightarrow> bool) \<Rightarrow> nat \<Rightarrow> handle \<Rightarrow> u8 \<Rightarrow> sworld
    \<Rightarrow> (handle \<times> sworld) res option" where
  "str_TruncateAtFirstOccurrence lead ns hn ch w =
     (let b = (case hn of None \<Rightarrow> ns | Some b \<Rightarrow> b)
      in if b = ns \<or> ch = 0 then Some (Inr (Some b, w))
         else (case blk b w of
             Inl e \<Rightarrow> Some (Inl e)
           | Inr x \<Rightarrow>
               (case find_char (Suc (length (sb_data x))) lead ch (sb_data x) 0 of
                  None \<Rightarrow> None
                | Some (Inl e) \<Rightarrow> Some (Inl e)
                | Some (Inr None) \<Rightarrow> Some (Inr (Some b, w))
                | Some (Inr (Some len)) \<Rightarrow>
                    Some (bindR (rc_Reserve ns (Some b) (int len) w) (\<lambda>(hn1, w1).
                          bindR (str_Truncate ns hn1 (int len) w1) (\<lambda>w2. Inr (hn1, w2)))))))"

text \<open>
  The loop of \<open>TrimLeft\<close>: how many times it steps. It compares the unsigned byte with the signed char, both
  promoted to int.
\<close>

definition char_eq_byte :: "u8 \<Rightarrow> u8 \<Rightarrow> bool" where
  "char_eq_byte byte ch \<longleftrightarrow> uint byte = sint ch"

fun trim_count :: "nat \<Rightarrow> (u8 \<Rightarrow> bool) \<Rightarrow> u8 \<Rightarrow> u8 option list \<Rightarrow> nat \<Rightarrow> nat \<Rightarrow> nat \<Rightarrow> nat res option" where
  "trim_count 0 lead ch cs off len count = None"
| "trim_count (Suc fuel) lead ch cs off len count =
     (if \<not> count < len then Some (Inr count)
      else (case rd cs off of
          None \<Rightarrow> Some (Inl OobRead)
        | Some None \<Rightarrow> Some (Inl UninitRead)
        | Some (Some c) \<Rightarrow>
            if char_eq_byte c ch then
              (case mbsinc lead (drop off cs) of
                 Inl e \<Rightarrow> Some (Inl e)
               | Inr n \<Rightarrow> trim_count fuel lead ch cs (off + n) len (Suc count))
            else Some (Inr count)))"

definition str_TrimLeft :: "(u8 \<Rightarrow> bool) \<Rightarrow> nat \<Rightarrow> handle \<Rightarrow> u8 \<Rightarrow> sworld \<Rightarrow> (handle \<times> sworld) res option" where
  "str_TrimLeft lead ns hn ch w =
     (let b = (case hn of None \<Rightarrow> ns | Some b \<Rightarrow> b)
      in if ch = 0 then Some (Inr (Some b, w))
         else (case bindR (rc_GetLength ns (Some b) w) (\<lambda>len. bindR (blk b w) (\<lambda>x. Inr (len, x))) of
             Inl e \<Rightarrow> Some (Inl e)
           | Inr (len, x) \<Rightarrow>
               (case trim_count (Suc (unat len)) lead ch (sb_data x) 0 (unat len) 0 of
                  None \<Rightarrow> None
                | Some (Inl e) \<Rightarrow> Some (Inl e)
                | Some (Inr count) \<Rightarrow>
                    if count = 0 then Some (Inr (Some b, w))
                    else Some (bindR (rc_CopyOnWrite ns (Some b) w) (\<lambda>(hn1, w1).
                      case hn1 of
                        None \<Rightarrow> Inl NullDeref
                      | Some b1 \<Rightarrow>
                          bindR (blk b1 w1) (\<lambda>y.
                            let n = unat len - count + 1
                            in if length (sb_data y) < count + n then Inl OobRead
                               else bindR (write_chars hn1 0 (take n (drop count (sb_data y))) w1) (\<lambda>w2.
                                    bindR (str_Truncate ns hn1 (int (unat len - count)) w2) (\<lambda>w3.
                                    Inr (hn1, w3)))))))))"

text \<open>
  \<open>Vformat\<close>: \<open>formatted\<close> is what \<open>vsprintf_s\<close> left in the 1024-byte buffer, \<open>None\<close> when it
  reports an error.
\<close>

definition str_Vformat :: "nat \<Rightarrow> handle \<Rightarrow> bool \<Rightarrow> u8 list option \<Rightarrow> sworld \<Rightarrow> (handle \<times> sworld) res" where
  "str_Vformat ns hn format_null formatted w =
     (if format_null then Inl (AtlException E_INVALIDARG)
      else (case formatted of
          None \<Rightarrow> Inl (AtlException E_FAIL)
        | Some out \<Rightarrow>
            bindR (rc_Reserve ns hn (int (length out)) w) (\<lambda>(hn1, w1).
            bindR (write_chars (if hn1 = None then Some ns else hn1) 0 (map Some out @ [Some 0]) w1) (\<lambda>w2.
            case hn1 of
              None \<Rightarrow> Inl NullDeref
            | Some b \<Rightarrow>
                bindR (src_strlen (Body b) w2) (\<lambda>n.
                bindR (str_Truncate ns hn1 (sint (word_of_nat n :: u32)) w2) (\<lambda>w3. Inr (hn1, w3)))))))"

text \<open>\<open>vformat\<close>, for an object that may be null: it is first looked at when the text has been made.\<close>

definition str_vformat :: "nat \<Rightarrow> handle option \<Rightarrow> bool \<Rightarrow> u8 list option \<Rightarrow> sworld \<Rightarrow> (handle \<times> sworld) res" where
  "str_vformat ns pStr format_null formatted w =
     (case pStr of
        Some hn \<Rightarrow> str_Vformat ns hn format_null formatted w
      | None \<Rightarrow> Inl (if format_null then AtlException E_INVALIDARG else if formatted = None then AtlException E_FAIL else NullDeref))"

section \<open>Cutting and writing behind the length\<close>

lemma Truncate_run:
  assumes x: "hblk (sw_heap w) b = Some x" "sint (sb_len x) = int L" and b: "b \<noteq> ns"
    and k: "k = min (nat n) L" "k < length (sb_data x)"
  shows "str_Truncate ns (Some b) n w = Inr (put_blk b (x\<lparr>sb_len := word_of_nat k,
      sb_data := take k (sb_data x) @ Some 0 # drop (Suc k) (sb_data x)\<rparr>) w)"
proof -
  consider "n \<le> 0" "k = 0" | "0 < n" "n < int L" "n = int k" | "0 < n" "int L \<le> n" "k = L"
    using k(1) by linarith
  then show ?thesis
    using x b k(2) by cases (simp_all add: str_Truncate_def Let_def write_chars_def blk_def Suc_le_eq)
qed

lemma Truncate_holds:
  assumes h: "holds w b s ref" and b: "b \<noteq> ns"
  shows "\<exists>w'. str_Truncate ns (Some b) n w = Inr w' \<and> holds w' b (take (nat n) s) ref \<and> others_same {b} w w'
    \<and> (sw_ok w \<longrightarrow> sw_ok w') \<and> sw_overreads w' = sw_overreads w"
proof -
  obtain x rest where x: "hblk (sw_heap w) b = Some x" "sb_len x = word_of_nat (length s)" "sb_ref x = ref"
    "ref \<noteq> 0" "sb_data x = map Some s @ Some 0 # rest" "0 \<notin> set s" "length s < 2 ^ 29" using h by (rule holdsE)
  define k where "k = min (nat n) (length s)"
  have old: "sint (sb_len x) = int (length s)" using x(2,7) by (simp add: sint_u32_of_nat)
  let ?y = "x\<lparr>sb_len := word_of_nat k, sb_data := take k (sb_data x) @ Some 0 # drop (Suc k) (sb_data x)\<rparr>"
  have kl: "k \<le> length s" by (simp add: k_def)
  have "str_Truncate ns (Some b) n w = Inr (put_blk b ?y w)"
    by (rule Truncate_run [OF x(1) old b]) (use x(5) kl in \<open>auto simp: k_def\<close>)
  moreover have "holds (put_blk b ?y w) b (take (nat n) s) ref"
  proof -
    have "take k (sb_data x) = map Some (take (nat n) s)" using kl by (cases "nat n \<le> length s") (simp_all add: x(5) k_def take_map min_def)
    moreover have "word_of_nat k = (word_of_nat (length (take (nat n) s)) :: u32)"
      by (simp add: k_def min.commute)
    ultimately show ?thesis using x kl set_take_subset [of "nat n" s]
      by (auto simp: holds_def)
  qed
  moreover have "sw_ok w \<longrightarrow> sw_ok (put_blk b ?y w)"
    using x(1) by (auto simp: sw_ok_def put_blk_def no_oom_def intro!: hwrite_wf)
  ultimately show ?thesis by (intro exI [of _ "put_blk b ?y w"]) (auto simp: others_same_def)
qed

text \<open>Writing \<open>t\<close> at \<open>i\<close> into a reserved block and truncating behind it.\<close>

lemma write_truncate:
  assumes r: "roomy w b s (max 1 n)" and n: "n = i + length t" "i \<le> length s" "n < 2 ^ 29" "length s < 2 ^ 29"
    and z: "0 \<notin> set s" "0 \<notin> set t" and b: "b \<noteq> ns" and le: "length s \<le> n"
  obtains w' w'' where "write_chars (Some b) i (map Some t) w = Inr w'" "str_Truncate ns (Some b) (int n) w' = Inr w''"
    "holds w'' b (take i s @ t) 1" "others_same {b} w w''" "sw_ok w \<longrightarrow> sw_ok w''"
    "sw_overreads w'' = sw_overreads w"
proof -
  obtain x rest where x: "hblk (sw_heap w) b = Some x" "sb_len x = word_of_nat (max (length s) (max 1 n))" "sb_ref x = 1"
    "sb_data x = map Some s @ Some 0 # rest" "max 1 n \<le> length s + length rest" using r by (rule roomyE)
  define d where "d = take i (sb_data x) @ map Some t @ drop n (sb_data x)"
  let ?w1 = "put_blk b (x\<lparr>sb_data := d\<rparr>) w"
  have w1: "write_chars (Some b) i (map Some t) w = Inr ?w1"
    using x n by (simp add: write_chars_def d_def)
  have ti: "take i (sb_data x) = map Some (take i s)" using n(2) by (simp add: x(4) take_map)
  have dn: "take n d = map Some (take i s @ t)" "n < length d"
    using n(1,2) x(4,5) ti by (auto simp: d_def)
  have old: "sint (sb_len x) = int (max 1 n)" using x(2) le n by (simp add: sint_u32_of_nat max_def)
  let ?y = "x\<lparr>sb_len := word_of_nat n, sb_data := take n d @ Some 0 # drop (Suc n) d\<rparr>"
  have w2: "str_Truncate ns (Some b) (int n) ?w1 = Inr (put_blk b ?y w)"
    using Truncate_run [of ?w1 b "x\<lparr>sb_data := d\<rparr>" "max 1 n" ns n "int n"] old b dn(2) by simp
  have "holds (put_blk b ?y w) b (take i s @ t) 1"
    using dn(1) n z x(3) set_take_subset [of i s] by (auto simp: holds_def)
  moreover have "sw_ok w \<longrightarrow> sw_ok (put_blk b ?y w)"
    using x(1) by (auto simp: sw_ok_def put_blk_def no_oom_def intro!: hwrite_wf)
  ultimately show thesis using w1 w2 by (intro that [of ?w1 "put_blk b ?y w"]) (auto simp: others_same_def)
qed


section \<open>Appending\<close>

text \<open>A source of \<open>k\<close> characters that reads as \<open>t\<close> in every world that keeps the blocks other than \<open>b\<close>.\<close>

lemma str_append_run:
  assumes ok: "sw_ok w" and h: "holds w b s ref" and b: "b = ns \<longrightarrow> s = []" and nsl: "holds w ns [] nr"
    and t: "0 \<notin> set t" "length s + length t < 2 ^ 29"
    and rd: "\<And>w1 b1. rc_Reserve ns (Some b) (int (length s + length t)) w = Inr (Some b1, w1) \<Longrightarrow>
        roomy w1 b1 s (max 1 (length s + length t)) \<Longrightarrow> others_same {b} w w1 \<Longrightarrow>
        src_read (src b1) (length t) w1 = Inr (map Some t, w1)"
  obtains b1 w1 w2 w3 where "rc_Reserve ns (Some b) (int (length s + length t)) w = Inr (Some b1, w1)"
    "src_read (src b1) (length t) w1 = Inr (map Some t, w1)"
    "write_chars (Some b1) (length s) (map Some t) w1 = Inr w2"
    "str_Truncate ns (Some b1) (int (length s + length t)) w2 = Inr w3"
    "holds w3 b1 (s @ t) 1" "b1 \<noteq> ns" "sw_ok w3" "others_same {b} w w3"
    "s = [] \<or> t \<noteq> [] \<longrightarrow> b1 \<noteq> b \<and> holds w3 b s ref"
    "s \<noteq> [] \<and> t = [] \<longrightarrow> (if ref = 1 then b1 = b else b1 \<noteq> b \<and> holds w3 b s (ref - 1))"
proof -
  let ?n = "length s + length t"
  have sl: "0 \<notin> set s" "length s < 2 ^ 29" using h by (auto elim: holdsE)
  have live: "hblk (sw_heap w) ns \<noteq> None" "hblk (sw_heap w) b \<noteq> None" using nsl h by (auto elim!: holdsE)
  obtain b1 w1 where r: "rc_Reserve ns (Some b) (int ?n) w = Inr (Some b1, w1)"
    "roomy w1 b1 s (max 1 ?n)" "b1 \<noteq> ns" "sw_ok w1" "others_same {b} w w1"
    "b1 = b \<or> hblk (sw_heap w) b1 = None"
    "length s < max 1 ?n \<longrightarrow> b1 \<noteq> b \<and> others_same {} w w1"
    "\<not> length s < max 1 ?n \<and> ref = 1 \<longrightarrow> b1 = b \<and> w1 = w"
    "\<not> length s < max 1 ?n \<and> ref \<noteq> 1 \<longrightarrow> b1 \<noteq> b \<and> holds w1 b s (ref - 1)"
    by (rule narrow.Reserve_ok [OF ok h b t(2) live(1)])
  have le: "length s \<le> ?n" by simp
  obtain w2 w3 where w: "write_chars (Some b1) (length s) (map Some t) w1 = Inr w2"
    "str_Truncate ns (Some b1) (int ?n) w2 = Inr w3"
    "holds w3 b1 (take (length s) s @ t) 1" "others_same {b1} w1 w3" "sw_ok w1 \<longrightarrow> sw_ok w3"
    by (rule write_truncate [OF r(2) refl order_refl t(2) sl(2,1) t(1) r(3) le])
  have o: "others_same {b} w w3"
    by (rule others_same_trans [OF r(5) w(4)]) (use r(6) in auto)
  have kept: "b1 \<noteq> b \<Longrightarrow> holds w1 b s' r' \<Longrightarrow> holds w3 b s' r'" for s' r'
    by (rule holds_kept [OF w(4)]) auto
  show thesis
  proof (rule that [OF r(1) rd [OF r(1,2,5)] w(1,2)])
    show "holds w3 b1 (s @ t) 1" using w(3) by simp
    show "sw_ok w3" using w(5) r(4) by simp
    show "b1 \<noteq> ns" "others_same {b} w w3" by (fact r(3) o)+
    show "s = [] \<or> t \<noteq> [] \<longrightarrow> b1 \<noteq> b \<and> holds w3 b s ref"
    proof
      assume "s = [] \<or> t \<noteq> []"
      then have "length s < max 1 ?n" by (cases s; cases t) auto
      then have "b1 \<noteq> b" "others_same {} w w1" using r(7) by auto
      then show "b1 \<noteq> b \<and> holds w3 b s ref" using kept holds_kept [OF _ _ h] by blast
    qed
    show "s \<noteq> [] \<and> t = [] \<longrightarrow> (if ref = 1 then b1 = b else b1 \<noteq> b \<and> holds w3 b s (ref - 1))"
    proof
      assume "s \<noteq> [] \<and> t = []"
      then have n: "\<not> length s < max 1 ?n" by (cases s) auto
      show "if ref = 1 then b1 = b else b1 \<noteq> b \<and> holds w3 b s (ref - 1)"
        using r(8) [THEN mp, OF conjI [OF n]] r(9) [THEN mp, OF conjI [OF n]] kept by (cases "ref = 1") simp_all
    qed
  qed
qed


lemma GetLength_rep: "holds w b s ref \<Longrightarrow> (b = ns \<longrightarrow> s = []) \<Longrightarrow> rc_GetLength ns (Some b) w = Inr (word_of_nat (length s))"
  using GetLength_holds [of w b s ref ns] by (cases "b = ns") (auto simp: rc_GetLength_def)

text \<open>Appending a C string. The object afterwards holds the concatenation in a block of its own; the
  block it had before is as before when the string grew (nothing releases it), or is given up when a
  shared string gets the empty text; every other live block stays as it is.\<close>

theorem Concatenate_cstr_appends:
  assumes "sw_ok w" "holds w b s ref" "b = ns \<longrightarrow> s = []" "holds w ns [] nr"
    and "0 \<notin> set t" "length s + length t < 2 ^ 29"
  shows "\<exists>b' w'. str_Concatenate_cstr ns (Some b) (Some (Ext (map Some t @ Some 0 # rest))) w = Inr (Some b', w')
    \<and> holds w' b' (s @ t) 1 \<and> b' \<noteq> ns \<and> sw_ok w' \<and> others_same {b} w w'
    \<and> (if s = [] \<or> t \<noteq> [] then b' \<noteq> b \<and> holds w' b s ref
       else if ref = 1 then b' = b else b' \<noteq> b \<and> holds w' b s (ref - 1))"
proof -
  let ?src = "Ext (map Some t @ Some 0 # rest)" and ?n = "length s + length t"
  have rd: "src_read ?src (length t) w1 = Inr (map Some t, w1)" for w1 by (simp add: src_read_def)
  obtain b1 w1 w2 w3 where r: "rc_Reserve ns (Some b) (int ?n) w = Inr (Some b1, w1)"
    "src_read ?src (length t) w1 = Inr (map Some t, w1)"
    "write_chars (Some b1) (length s) (map Some t) w1 = Inr w2"
    "str_Truncate ns (Some b1) (int ?n) w2 = Inr w3"
    "holds w3 b1 (s @ t) 1" "b1 \<noteq> ns" "sw_ok w3" "others_same {b} w w3"
    "s = [] \<or> t \<noteq> [] \<longrightarrow> b1 \<noteq> b \<and> holds w3 b s ref"
    "s \<noteq> [] \<and> t = [] \<longrightarrow> (if ref = 1 then b1 = b else b1 \<noteq> b \<and> holds w3 b s (ref - 1))"
    by (rule str_append_run [OF assms rd])
  have n: "sint (word_of_nat (length s) + word_of_nat (length t) :: u32) = int ?n"
    using sint_u32_of_nat [of ?n] assms(6) by simp
  have u: "unat (word_of_nat (length s) :: u32) = length s" "unat (word_of_nat (length t) :: u32) = length t"
    using assms(6) by (simp_all add: unat_u32_of_nat)
  have "str_Concatenate_cstr ns (Some b) (Some ?src) w = Inr (Some b1, w3)"
    using r(1-4) n u GetLength_rep [OF assms(2,3)] assms(5)
    by (simp add: str_Concatenate_cstr_def src_strlen_def cstrlen_rep Let_def)
  then show ?thesis using r(5-10) by (intro exI [of _ b1] exI [of _ w3]) auto
qed

text \<open>Once the object has made room, the other's characters are still where they are read from: in its own block, or, for the
  object appended to itself, in the object's new one.\<close>

lemma appended_source_read:
  fixes w :: sworld
  assumes "sw_ok w" "holds w b s ref" "b = ns \<longrightarrow> s = []" "holds w ns [] nr"
    and "holds w ob t oref" "t \<noteq> []" "if self then ob = b else True" "length s + length t < 2 ^ 29"
    and "rc_Reserve ns (Some b) (int (length s + length t)) w = Inr (Some b1, w1)" "roomy w1 b1 s (max 1 (length s + length t))"
    and "others_same {b} w w1"
  shows "src_read (Body (if self then b1 else ob)) (length t) w1 = Inr (map Some t, w1)"
proof -
  have pre: "src_read (Body c) (length t) w1 = Inr (map Some t, w1)"
    if c: "hblk (sw_heap w1) c = Some x" "\<exists>ys. sb_data x = map Some t @ ys" for c x
    using c by (auto simp: src_read_def Let_def)
  show ?thesis
  proof (cases self)
    case True
    then have "t = s" using holds_unique assms(2,5,7) by metis
    then have "src_read (Body b1) (length t) w1 = Inr (map Some t, w1)"
      using assms(10) by (elim roomyE) (rule pre, auto)
    with True show ?thesis by simp
  next
    case False
    have "holds w1 ob t oref"
    proof (cases "ob = b")
      case True
      have live: "hblk (sw_heap w) ns \<noteq> None" using assms(4) by (auto elim!: holdsE)
      obtain b2 w2 where "rc_Reserve ns (Some b) (int (length s + length t)) w = Inr (Some b2, w2)"
        "length s < max 1 (length s + length t) \<longrightarrow> b2 \<noteq> b \<and> others_same {} w w2"
        by (rule narrow.Reserve_ok [OF assms(1-3,8) live])
      then have "others_same {} w w1" using assms(6,9) by (cases t) auto
      then show ?thesis by (rule holds_kept [OF _ _ assms(5)]) simp
    next
      case False
      then show ?thesis by (intro holds_kept [OF assms(11) _ assms(5)]) simp
    qed
    with False show ?thesis by (auto elim!: holdsE intro!: pre)
  qed
qed


section \<open>Cutting at a character\<close>

text \<open>\<open>Truncate\<close> does not look at the reference count: every object that shares the block is cut too.\<close>

text \<open>Truncate cuts the block in place, whatever its reference count is.\<close>

theorem Truncate_in_place:
  assumes "holds w b s ref" "b \<noteq> ns"
  shows "\<exists>w'. str_Truncate ns (Some b) n w = Inr w' \<and> holds w' b (take (nat n) s) ref \<and> others_same {b} w w'"
  using Truncate_holds [OF assms, of n] by blast

text \<open>What is before the first character \<open>ch\<close>, stepping over two-byte characters.\<close>

fun mb_before :: "(u8 \<Rightarrow> bool) \<Rightarrow> u8 \<Rightarrow> u8 list \<Rightarrow> u8 list" where
  "mb_before lead ch [] = []"
| "mb_before lead ch [c] = (if c = ch then [] else [c])"
| "mb_before lead ch (c # d # s) =
     (if c = ch then [] else if lead c then c # d # mb_before lead ch s else c # mb_before lead ch (d # s))"

lemma mb_before_single: "mb_before (\<lambda>_. False) ch s = takeWhile (\<lambda>c. c \<noteq> ch) s"
  by (induction "\<lambda>_ :: u8. False" ch s rule: mb_before.induct) auto

lemma mb_before_prefix: "mb_before lead ch s = take (length (mb_before lead ch s)) s"
  by (induction lead ch s rule: mb_before.induct) auto

lemma mb_before_length: "length (mb_before lead ch s) \<le> length s"
  by (induction lead ch s rule: mb_before.induct) auto

lemma find_char_finds:
  "0 \<notin> set s \<Longrightarrow> length s < fuel \<Longrightarrow> ch \<noteq> 0 \<Longrightarrow>
   find_char fuel lead ch (p @ map Some s @ Some 0 # rest) (length p) =
     Some (Inr (if mb_before lead ch s = s then None else Some (length p + length (mb_before lead ch s))))"
proof (induction lead ch s arbitrary: fuel p rule: mb_before.induct)
  case (1 lead ch)
  then show ?case by (cases fuel) simp_all
next
  case (2 lead ch c)
  obtain f g where f: "fuel = Suc (Suc g)" using 2 by (cases fuel; cases "fuel - 1") auto
  have "find_char (Suc g) lead ch ((p @ [Some c]) @ map Some [] @ Some 0 # rest) (length (p @ [Some c])) = Some (Inr None)"
    by simp
  then show ?case using 2 f by (auto simp: mbsinc_def)
next
  case (3 lead ch c d s)
  obtain f where f: "fuel = Suc f" using 3 by (cases fuel) auto
  have one: "find_char f lead ch ((p @ [Some c]) @ map Some (d # s) @ Some 0 # rest) (length (p @ [Some c])) =
     Some (Inr (if mb_before lead ch (d # s) = d # s then None
                else Some (length (p @ [Some c]) + length (mb_before lead ch (d # s)))))"
    if "c \<noteq> ch" "\<not> lead c" using 3 f that by (intro 3(2)) auto
  have two: "find_char f lead ch ((p @ [Some c, Some d]) @ map Some s @ Some 0 # rest) (length (p @ [Some c, Some d])) =
     Some (Inr (if mb_before lead ch s = s then None else Some (length (p @ [Some c, Some d]) + length (mb_before lead ch s))))"
    if "c \<noteq> ch" "lead c" using 3 f that by (intro 3(1)) auto
  show ?case
    using f 3(3) one two by (auto simp: mbsinc_def)
qed

lemma roomy_holds: "roomy w b s m \<Longrightarrow> m \<le> length s \<Longrightarrow> 0 \<notin> set s \<Longrightarrow> length s < 2 ^ 29 \<Longrightarrow> holds w b s 1"
  by (elim roomyE) (auto simp: holds_def max_def)

text \<open>Cutting at the first occurrence of a character. The characters before it stay, in a block of the object's
  own; other objects that share the old block are not affected. Without an occurrence nothing changes.\<close>

theorem TruncateAtFirstOccurrence_cuts:
  assumes "sw_ok w" "holds w b s ref" "b \<noteq> ns" "ch \<noteq> 0" "hblk (sw_heap w) ns \<noteq> None"
  shows "\<exists>b' w'. str_TruncateAtFirstOccurrence lead ns (Some b) ch w = Some (Inr (Some b', w'))
    \<and> (if mb_before lead ch s = s then b' = b \<and> w' = w
       else holds w' b' (mb_before lead ch s) 1 \<and> others_same {b} w w' \<and> sw_ok w'
         \<and> (if ref = 1 then b' = b else b' \<noteq> b \<and> holds w' b s (ref - 1)))"
proof -
  let ?t = "mb_before lead ch s"
  obtain x rest where x: "hblk (sw_heap w) b = Some x" "sb_data x = map Some s @ Some 0 # rest" "0 \<notin> set s"
    "length s < 2 ^ 29" using assms(2) by (rule holdsE)
  have fc: "find_char (Suc (length (sb_data x))) lead ch (sb_data x) 0
      = Some (Inr (if ?t = s then None else Some (length ?t)))"
    using find_char_finds [OF x(3) _ assms(4), of "Suc (length (sb_data x))" lead "[]" rest] x(2) by simp
  show ?thesis
  proof (cases "?t = s")
    case True
    then show ?thesis using fc assms(3,4) x(1) by (simp add: str_TruncateAtFirstOccurrence_def)
  next
    case False
    then have l: "length ?t < length s"
      using mb_before_prefix [of lead ch s] mb_before_length [of lead ch s] by (metis le_neq_implies_less take_all order_refl)
    have bs: "b = ns \<longrightarrow> s = []" using assms(3) by simp
    have lt: "length ?t < 2 ^ 29" using l x(4) by linarith
    obtain b1 w1 where r: "rc_Reserve ns (Some b) (int (length ?t)) w = Inr (Some b1, w1)"
      "roomy w1 b1 s (max 1 (length ?t))" "b1 \<noteq> ns" "sw_ok w1" "others_same {b} w w1"
      "b1 = b \<or> hblk (sw_heap w) b1 = None"
      "\<not> length s < max 1 (length ?t) \<and> ref = 1 \<longrightarrow> b1 = b \<and> w1 = w"
      "\<not> length s < max 1 (length ?t) \<and> ref \<noteq> 1 \<longrightarrow> b1 \<noteq> b \<and> holds w1 b s (ref - 1)"
      by (rule narrow.Reserve_ok [OF assms(1,2) bs lt assms(5)])
    have m: "max 1 (length ?t) \<le> length s" using l by (cases s) auto
    then have nl: "\<not> length s < max 1 (length ?t)" by linarith
    have "holds w1 b1 s 1" by (rule roomy_holds [OF r(2) m x(3,4)])
    from Truncate_holds [OF this r(3), of "int (length ?t)"]
    obtain w2 where w2: "str_Truncate ns (Some b1) (int (length ?t)) w1 = Inr w2" "holds w2 b1 ?t 1"
      "others_same {b1} w1 w2" "sw_ok w2" using r(4) mb_before_prefix [of lead ch s] by auto
    have "str_TruncateAtFirstOccurrence lead ns (Some b) ch w = Some (Inr (Some b1, w2))"
      using False fc assms(3,4) x(1) r(1) w2(1) by (simp add: str_TruncateAtFirstOccurrence_def)
    moreover have "others_same {b} w w2"
      by (rule others_same_trans [OF r(5) w2(3)]) (use r(6) in auto)
    moreover have "if ref = 1 then b1 = b else b1 \<noteq> b \<and> holds w2 b s (ref - 1)"
      using nl r(7,8) holds_kept [OF w2(3)] by (cases "ref = 1") simp_all
    ultimately show ?thesis using False w2(2,4) by (intro exI [of _ b1] exI [of _ w2]) auto
  qed
qed

text \<open>\<open>TrimLeft\<close> compares an unsigned byte with a signed character: it never trims one from 0x80 up.\<close>

lemma TrimLeft_high_never:
  assumes "holds w b s ref" "b \<noteq> ns" "sint ch < 0"
  shows "str_TrimLeft lead ns (Some b) ch w = Some (Inr (Some b, w))"
proof -
  obtain x rest where x: "hblk (sw_heap w) b = Some x" "sb_len x = word_of_nat (length s)"
    "sb_data x = map Some s @ Some 0 # rest" using assms(1) by (rule holdsE)
  have ne: "\<not> char_eq_byte c ch" for c
  proof -
    have "0 \<le> uint c" by simp
    then show ?thesis using assms(3) unfolding char_eq_byte_def by linarith
  qed
  have "ch \<noteq> 0" using assms(3) by auto
  have "trim_count (Suc n) lead ch (sb_data x) 0 m 0 = Some (Inr 0)" for n m
    using x(3) ne by (cases s) auto
  then show ?thesis using \<open>ch \<noteq> 0\<close> GetLength_holds [OF assms(1,2)] x(1) by (simp add: str_TrimLeft_def)
qed

section \<open>Reference counts\<close>

text \<open>\<open>n\<close> copies made of one object, and \<open>n\<close> objects with one handle destroyed.\<close>

primrec str_copies :: "nat \<Rightarrow> handle \<Rightarrow> nat \<Rightarrow> sworld \<Rightarrow> sworld res" where
  "str_copies ns hn 0 w = Inr w"
| "str_copies ns hn (Suc n) w = bindR (rc_new_copy ns hn w) (\<lambda>(_, w1). str_copies ns hn n w1)"

primrec str_destroys :: "nat \<Rightarrow> handle \<Rightarrow> nat \<Rightarrow> sworld \<Rightarrow> sworld res" where
  "str_destroys ns hn 0 w = Inr w"
| "str_destroys ns hn (Suc n) w = bindR (rc_destroy ns hn w) (str_destroys ns hn n)"

lemma copies_run:
  "hblk (sw_heap w) b = Some x \<Longrightarrow> b \<noteq> ns \<Longrightarrow>
   str_copies ns (Some b) n w = Inr (put_blk b (x\<lparr>sb_ref := sb_ref x + word_of_nat n\<rparr>) w)"
proof (induction n arbitrary: w x)
  case 0
  then have "put_blk b x w = w" by (simp add: put_blk_def hwrite_def fun_upd_idem)
  then show ?case by simp
next
  case (Suc n)
  then show ?case
    using Suc.IH [of "put_blk b (x\<lparr>sb_ref := sb_ref x + 1\<rparr>) w" "x\<lparr>sb_ref := sb_ref x + 1\<rparr>"]
    by (simp add: rc_new_copy_def rc_IncRefCount_def add.assoc)
qed

lemma destroys_run:
  "hblk (sw_heap w) b = Some x \<Longrightarrow> n < unat (sb_ref x) \<Longrightarrow>
   str_destroys ns (Some b) n w = Inr (put_blk b (x\<lparr>sb_ref := sb_ref x - word_of_nat n\<rparr>) w)"
proof (induction n arbitrary: w x)
  case 0
  then have "put_blk b x w = w" by (simp add: put_blk_def hwrite_def fun_upd_idem)
  then show ?case by simp
next
  case (Suc n)
  then have u: "unat (sb_ref x - 1) = unat (sb_ref x) - 1" "sb_ref x - 1 \<noteq> 0"
    by (simp_all add: unat_sub_if' word_unat_eq_iff)
  then show ?case
    using Suc.IH [of "put_blk b (x\<lparr>sb_ref := sb_ref x - 1\<rparr>) w" "x\<lparr>sb_ref := sb_ref x - 1\<rparr>"] Suc.prems
    by (simp add: rc_destroy_def rc_DecRefCount_def Let_def algebra_simps)
qed


lemma destroys_Suc: "str_destroys ns hn (Suc k) w = bindR (str_destroys ns hn k w) (rc_destroy ns hn)"
proof (induction k arbitrary: w)
  case 0
  show ?case by (cases "rc_destroy ns hn w") simp_all
next
  case (Suc k)
  then show ?case by (cases "rc_destroy ns hn w") simp_all
qed

lemma destroys_last:
  assumes "hblk (sw_heap w) b = Some x" "sb_ref x \<noteq> 0"
  obtains w' where "str_destroys ns (Some b) (unat (sb_ref x)) w = Inr w'" "hblk (sw_heap w') b = None"
proof -
  obtain k where k: "unat (sb_ref x) = Suc k" using assms(2) by (cases "unat (sb_ref x)") (auto simp: unat_eq_0)
  have "word_of_nat (Suc k) = sb_ref x" using k by (simp add: word_unat_eq_iff unat_u32_of_nat unat_u32_less flip: k)
  then have "sb_ref x - word_of_nat k - 1 = 0" by (simp add: algebra_simps)
  then show thesis
    using destroys_Suc [of ns "Some b" k w] destroys_run [OF assms(1), of k ns] k
    by (intro that) (auto simp: rc_destroy_def rc_DecRefCount_def Let_def)
qed

text \<open>Of the \<open>ref + n\<close> objects that share a block after \<open>n\<close> copies, all but the last are destroyed
  without effect on the characters, and the last one frees the block.\<close>

theorem refcount_balanced:
  assumes "holds w b s ref" "b \<noteq> ns" "unat ref + n < 2 ^ 32" "m \<le> unat ref + n"
  shows "\<exists>w'. bindR (str_copies ns (Some b) n w) (str_destroys ns (Some b) m) = Inr w'
    \<and> (if m < unat ref + n then holds w' b s (ref + word_of_nat n - word_of_nat m) else hblk (sw_heap w') b = None)"
proof -
  obtain x rest where x: "hblk (sw_heap w) b = Some x" "sb_len x = word_of_nat (length s)" "sb_ref x = ref" "ref \<noteq> 0"
    "sb_data x = map Some s @ Some 0 # rest" "0 \<notin> set s" "length s < 2 ^ 29" using assms(1) by (rule holdsE)
  let ?x = "x\<lparr>sb_ref := ref + word_of_nat n\<rparr>"
  let ?w = "put_blk b ?x w"
  have c: "str_copies ns (Some b) n w = Inr ?w" using copies_run [OF x(1) assms(2), of n] x(3) by simp
  have hx: "hblk (sw_heap ?w) b = Some ?x" by simp
  have u: "unat (sb_ref ?x) = unat ref + n" using assms(3) by (simp add: unat_u32_add unat_u32_of_nat)
  show ?thesis
  proof (cases "m < unat ref + n")
    case True
    let ?v = "put_blk b (?x\<lparr>sb_ref := sb_ref ?x - word_of_nat m\<rparr>) ?w"
    have "str_destroys ns (Some b) m ?w = Inr ?v" by (rule destroys_run [OF hx]) (use True u in simp)
    moreover have "ref + word_of_nat n - word_of_nat m \<noteq> 0"
    proof
      assume "ref + word_of_nat n - word_of_nat m = 0"
      then have "unat (ref + word_of_nat n) = unat (word_of_nat m :: u32)" by simp
      then show False using True u assms(3) by (simp add: unat_u32_of_nat)
    qed
    then have "holds ?v b s (ref + word_of_nat n - word_of_nat m)" using x by (simp add: holds_def)
    ultimately show ?thesis using c True by simp
  next
    case False
    then have m: "m = unat (sb_ref ?x)" using assms(4) u by simp
    have "sb_ref ?x \<noteq> 0"
    proof
      assume "sb_ref ?x = 0"
      then have "unat (sb_ref ?x) = 0" by (simp only: unat_0)
      then show False using u x(4) by (simp add: unat_eq_0)
    qed
    from destroys_last [OF hx this] m obtain w' where "str_destroys ns (Some b) m ?w = Inr w'" "hblk (sw_heap w') b = None"
      by metis
    then show ?thesis using c False by simp
  qed
qed

text \<open>The static empty string is counted down by every destroyed empty object and counted up by no copy: after
  as many destructions as its count says, the static block itself is given back to the heap.\<close>

theorem nullstr_freed:
  assumes "holds w ns [] nr"
  shows "\<exists>w'. bindR (str_copies ns (rc_new_empty ns) n w) (str_destroys ns (Some ns) (unat nr)) = Inr w'
    \<and> hblk (sw_heap w') ns = None"
proof -
  obtain x where x: "hblk (sw_heap w) ns = Some x" "sb_ref x = nr" "nr \<noteq> 0" using assms by (rule holdsE)
  have "str_copies ns (Some ns) n w = Inr w"
    by (induction n) (simp_all add: rc_new_copy_def rc_IncRefCount_def)
  moreover obtain w' where "str_destroys ns (Some ns) (unat nr) w = Inr w'" "hblk (sw_heap w') ns = None"
    by (rule destroys_last [OF x(1)]) (use x in auto)
  ultimately show ?thesis by (simp add: rc_new_empty_def)
qed

section \<open>Instances\<close>

text \<open>The static empty string in block 0, \<open>''ab''\<close> shared by two objects in block 1, \<open>''c''\<close> in block 2.\<close>

definition demo_sw :: sworld where
  "demo_sw = \<lparr>sw_heap = \<lparr>hblk = [0 \<mapsto> \<lparr>sb_len = 0, sb_ref = 2, sb_data = [Some 0]\<rparr>,
      1 \<mapsto> \<lparr>sb_len = 2, sb_ref = 2, sb_data = [Some 97, Some 98, Some 0]\<rparr>,
      2 \<mapsto> \<lparr>sb_len = 1, sb_ref = 1, sb_data = [Some 99, Some 0]\<rparr>], hnext = 3, hfail = (\<lambda>_ _. False)\<rparr>,
     sw_overreads = 0\<rparr>"

lemma demo_sw_facts:
  "sw_ok demo_sw" "holds demo_sw 0 [] 2" "holds demo_sw 1 [97, 98] 2" "holds demo_sw 2 [99] 1"
  "hblk (sw_heap demo_sw) 0 \<noteq> None"
  by (auto simp: demo_sw_def sw_ok_def heap_wf_def no_oom_def holds_def split: if_splits)

theorem Concatenate_cstr_appends_witness:
  "\<exists>b' w'. str_Concatenate_cstr 0 (Some 1) (Some (Ext [Some 100, Some 0])) demo_sw = Inr (Some b', w')
    \<and> holds w' b' [97, 98, 100] 1 \<and> holds w' 1 [97, 98] 2"
  using Concatenate_cstr_appends [OF demo_sw_facts(1,3) _ demo_sw_facts(2), of "[100]" "[]"] by auto


theorem Truncate_in_place_witness:
  "\<exists>w'. str_Truncate 0 (Some 1) 1 demo_sw = Inr w' \<and> holds w' 1 [97] 2"
  using Truncate_in_place [OF demo_sw_facts(3), of 0 1] by auto

theorem TruncateAtFirstOccurrence_cuts_witness:
  "\<exists>b' w'. str_TruncateAtFirstOccurrence (\<lambda>_. False) 0 (Some 1) 98 demo_sw = Some (Inr (Some b', w'))
    \<and> holds w' b' [97] 1 \<and> holds w' 1 [97, 98] 1"
  using TruncateAtFirstOccurrence_cuts [OF demo_sw_facts(1,3), of 0 98 "\<lambda>_. False"] demo_sw_facts(5) by auto

theorem refcount_balanced_witness:
  "\<exists>w'. bindR (str_copies 0 (Some 2) 3 demo_sw) (str_destroys 0 (Some 2) 4) = Inr w' \<and> hblk (sw_heap w') 2 = None"
  using refcount_balanced [OF demo_sw_facts(4), of 0 3 4] by simp

theorem nullstr_freed_witness:
  "\<exists>w'. bindR (str_copies 0 (rc_new_empty 0) 5 demo_sw) (str_destroys 0 (Some 0) 2) = Inr w' \<and> hblk (sw_heap w') 0 = None"
  using nullstr_freed [OF demo_sw_facts(2), of 5] by simp

text \<open>Growing copies as many characters as the new block has room for out of the old, smaller block.\<close>

lemma growth_reads_past_block:
  "map_sum id (sw_overreads \<circ> snd) (str_Concatenate_cstr 0 (Some 1) (Some (Ext [Some 100, Some 101, Some 0])) demo_sw) = Inr 1"
  by code_simp

end
