(* ===== verification/WideString.thy ===== *)
theory WideString
  imports RcString
begin

text \<open>
  The engine's 16-bit string class, \<open>src/game/engine/WString.cpp\<close> and \<open>include/game/engine/WString.inl\<close>:
  the operations of RcString at 16 bits. The argument \<open>ns\<close> is the block of \<open>nullwstr\<close>.
\<close>

type_synonym wworld = "16 word sw"

definition WString_Allocate :: "u32 \<Rightarrow> wworld \<Rightarrow> (handle \<times> wworld) res" where
  "WString_Allocate = rc_Allocate"

definition WString_AllocateAndCopy :: "16 word src option \<Rightarrow> u32 \<Rightarrow> wworld \<Rightarrow> (handle \<times> wworld) res" where
  "WString_AllocateAndCopy = rc_AllocateAndCopy"

definition WString_Deallocate :: "nat \<Rightarrow> handle \<Rightarrow> wworld \<Rightarrow> (handle \<times> wworld) res" where
  "WString_Deallocate = rc_Deallocate"

definition WString_new_copy :: "nat \<Rightarrow> handle \<Rightarrow> wworld \<Rightarrow> (handle \<times> wworld) res" where
  "WString_new_copy = rc_new_copy"

definition WString_new_cstr :: "16 word src option \<Rightarrow> wworld \<Rightarrow> (handle \<times> wworld) res" where
  "WString_new_cstr = rc_new_cstr"

definition WString_new_part :: "nat \<Rightarrow> 16 word src option \<Rightarrow> u32 \<Rightarrow> wworld \<Rightarrow> (handle \<times> wworld) res" where
  "WString_new_part = rc_new_part"

definition WString_new_char :: "nat \<Rightarrow> 16 word \<Rightarrow> wworld \<Rightarrow> (handle \<times> wworld) res" where
  "WString_new_char = rc_new_char"

definition WString_assign :: "nat \<Rightarrow> handle \<Rightarrow> handle \<Rightarrow> wworld \<Rightarrow> (handle \<times> wworld) res" where
  "WString_assign = rc_assign"

definition WString_assign_cstr :: "nat \<Rightarrow> handle \<Rightarrow> 16 word src option \<Rightarrow> wworld \<Rightarrow> (handle \<times> wworld) res" where
  "WString_assign_cstr = rc_assign_cstr"

definition WString_assign_char :: "nat \<Rightarrow> handle \<Rightarrow> 16 word \<Rightarrow> wworld \<Rightarrow> (handle \<times> wworld) res" where
  "WString_assign_char = rc_assign_char"

definition WString_IncRefCount :: "nat \<Rightarrow> handle \<Rightarrow> wworld \<Rightarrow> wworld res" where
  "WString_IncRefCount = rc_IncRefCount"

definition WString_DecRefCount :: "nat \<Rightarrow> handle \<Rightarrow> wworld \<Rightarrow> (handle \<times> wworld) res" where
  "WString_DecRefCount = rc_DecRefCount"

definition WString_GetRefCount :: "nat \<Rightarrow> handle \<Rightarrow> wworld \<Rightarrow> u32 res" where
  "WString_GetRefCount = rc_GetRefCount"

definition WString_GetLength :: "nat \<Rightarrow> handle \<Rightarrow> wworld \<Rightarrow> u32 res" where
  "WString_GetLength = rc_GetLength"

definition WString_SetLength :: "nat \<Rightarrow> handle \<Rightarrow> u32 \<Rightarrow> wworld \<Rightarrow> wworld res" where
  "WString_SetLength = rc_SetLength"

definition WString_SetBuffer :: "nat \<Rightarrow> handle \<Rightarrow> handle \<Rightarrow> wworld \<Rightarrow> (handle \<times> wworld) res" where
  "WString_SetBuffer = rc_SetBuffer"

definition WString_CalcLength :: "nat \<Rightarrow> handle \<Rightarrow> wworld \<Rightarrow> wworld res" where
  "WString_CalcLength = rc_CalcLength"

definition WString_Swap :: "nat \<Rightarrow> handle \<Rightarrow> 16 word src option \<Rightarrow> u32 \<Rightarrow> wworld \<Rightarrow> (handle \<times> wworld) res" where
  "WString_Swap = rc_Swap"

definition WString_Reserve :: "nat \<Rightarrow> handle \<Rightarrow> int \<Rightarrow> wworld \<Rightarrow> (handle \<times> wworld) res" where
  "WString_Reserve = rc_Reserve"

definition WString_Realloc :: "nat \<Rightarrow> handle \<Rightarrow> int \<Rightarrow> wworld \<Rightarrow> (handle \<times> wworld) res" where
  "WString_Realloc = rc_Realloc"

definition WString_CopyOnWrite :: "nat \<Rightarrow> handle \<Rightarrow> wworld \<Rightarrow> (handle \<times> wworld) res" where
  "WString_CopyOnWrite = rc_CopyOnWrite"

lemmas WString_defs = WString_Allocate_def WString_AllocateAndCopy_def WString_Deallocate_def WString_new_copy_def
  WString_new_cstr_def WString_new_part_def WString_new_char_def WString_assign_def WString_assign_cstr_def
  WString_assign_char_def WString_IncRefCount_def WString_DecRefCount_def WString_GetRefCount_def
  WString_GetLength_def WString_SetLength_def WString_SetBuffer_def WString_CalcLength_def WString_Swap_def
  WString_Reserve_def WString_Realloc_def WString_CopyOnWrite_def

text \<open>The allocation size wraps for counts from \<open>2 ^ 31 - 5\<close>: the block is too small for its own header.\<close>

lemma WString_Allocate_wraps:
  assumes "\<not> hfail (sw_heap w) (hnext (sw_heap w)) 1"
  shows "WString_Allocate 0x7FFFFFFB w = Inl OobWrite"
  using assms by (simp add: WString_defs rc_Allocate_def char_bytes_def halloc_def Let_def)

text \<open>Assigning a C string stores its characters in a block of the object's own, and the length the
  object then reports is the larger of the old and the new one: assigning a shorter text
  leaves the old length.\<close>

theorem WString_Swap_keeps_length:
  assumes "sw_ok w" "holds w b s ref" "b = ns \<longrightarrow> s = []" "hblk (sw_heap w) ns \<noteq> None"
    and "0 \<notin> set u" "length u < 2 ^ 29"
  shows "\<exists>b' w' x r. WString_assign_cstr ns (Some b) (Some (Ext (map Some u @ Some 0 # rest))) w = Inr (Some b', w')
    \<and> hblk (sw_heap w') b' = Some x \<and> sb_data x = map Some u @ Some 0 # r \<and> sb_ref x = 1
    \<and> WString_GetLength ns (Some b') w' = Inr (word_of_nat (max (length s) (max 1 (length u))))
    \<and> others_same {b} w w'"
proof -
  from wide.Swap_stores [OF assms(1-6), of rest] obtain b' w' x r where r:
    "rc_Swap ns (Some b) (Some (Ext (map Some u @ Some 0 # rest))) 0 w = Inr (Some b', w')"
    "hblk (sw_heap w') b' = Some x" "sb_data x = map Some u @ Some 0 # r" "sb_ref x = 1"
    "sb_len x = word_of_nat (max (length s) (max 1 (length u)))" "b' \<noteq> ns" "others_same {b} w w'" by blast
  show ?thesis using r
    by (intro exI [of _ b'] exI [of _ w'] exI [of _ x] exI [of _ r])
      (simp add: WString_defs rc_assign_cstr_def rc_GetLength_def)
qed

definition demo_wsw :: wworld where
  "demo_wsw = \<lparr>sw_heap = \<lparr>hblk = [0 \<mapsto> \<lparr>sb_len = 0, sb_ref = 2, sb_data = [Some 0]\<rparr>,
      1 \<mapsto> \<lparr>sb_len = 2, sb_ref = 1, sb_data = [Some 0x416, Some 98, Some 0]\<rparr>], hnext = 2, hfail = (\<lambda>_ _. False)\<rparr>,
     sw_overreads = 0\<rparr>"

lemma demo_wsw_facts:
  "sw_ok demo_wsw" "holds demo_wsw 1 [0x416, 98] 1" "hblk (sw_heap demo_wsw) 0 \<noteq> None"
  by (auto simp: demo_wsw_def sw_ok_def heap_wf_def no_oom_def holds_def split: if_splits)

theorem WString_Swap_keeps_length_witness:
  "\<exists>b' w' x r. WString_assign_cstr 0 (Some 1) (Some (Ext [Some 0x444, Some 0])) demo_wsw = Inr (Some b', w')
    \<and> hblk (sw_heap w') b' = Some x \<and> sb_data x = [Some 0x444, Some 0] @ r
    \<and> WString_GetLength 0 (Some b') w' = Inr 2"
  using WString_Swap_keeps_length [OF demo_wsw_facts(1,2) _ demo_wsw_facts(3), of "[0x444]" "[]"] by (auto simp: max_def)

end
