(* ===== verification/NavQueue.thy ===== *)
theory NavQueue
  imports Prelude
begin

text \<open>
  The queue of navigation commands, \<open>src/RMI/NavCommands.cpp\<close>: 16 slots, two counters that only grow,
  and a lock that the first use sets up. Each operation holds the lock, so it is one step. What the
  enqueue tells the pump is part of Nav.
\<close>

section \<open>The ring\<close>

datatype nav_cmd = CmdNone | PassShardSelect

definition kQueueSize :: int where "kQueueSize = 16"

record navq =
  nq_slots :: "nav_cmd list"     \<comment> \<open>\<open>g_queue\<close>\<close>
  nq_head :: int
  nq_tail :: int
  nq_lock_init :: bool

definition navq_start :: navq where
  "navq_start = \<lparr>nq_slots = replicate 16 CmdNone, nq_head = 0, nq_tail = 0, nq_lock_init = False\<rparr>"

definition nq_ensure_lock :: "navq \<Rightarrow> navq" where
  "nq_ensure_lock q = q\<lparr>nq_lock_init := True\<rparr>"

text \<open>The index is the remainder of a C division; a negative one would be outside the array.\<close>

definition nq_index :: "navq \<Rightarrow> int \<Rightarrow> nat res" where
  "nq_index q i = (if i < 0 \<or> length (nq_slots q) \<le> nat (i mod kQueueSize) then Inl OobWrite else Inr (nat (i mod kQueueSize)))"

text \<open>The result says whether the command was queued (and the pump is to be scheduled).\<close>

definition nq_enqueue :: "nav_cmd \<Rightarrow> navq \<Rightarrow> (bool \<times> navq) res" where
  "nq_enqueue cmd q =
     (if cmd = CmdNone then Inr (False, q)
      else let q1 = nq_ensure_lock q
           in if nq_tail q1 - nq_head q1 < kQueueSize then
                bindR (add_i32 (nq_tail q1) 1) (\<lambda>tail'.
                bindR (nq_index q1 (nq_tail q1)) (\<lambda>i.
                Inr (True, q1\<lparr>nq_slots := (nq_slots q1)[i := cmd], nq_tail := tail'\<rparr>)))
              else Inr (False, q1))"

definition nq_has :: "navq \<Rightarrow> bool \<times> navq" where
  "nq_has q = (let q1 = nq_ensure_lock q in (nq_head q1 < nq_tail q1, q1))"

definition nq_dequeue :: "bool \<Rightarrow> navq \<Rightarrow> (nav_cmd option \<times> navq) res" where
  "nq_dequeue out_given q =
     (if \<not> out_given then Inr (None, q)
      else let q1 = nq_ensure_lock q
           in if nq_head q1 \<ge> nq_tail q1 then Inr (None, q1)
              else bindR (nq_index q1 (nq_head q1)) (\<lambda>i.
                   Inr (Some (nq_slots q1 ! i), q1\<lparr>nq_head := nq_head q1 + 1\<rparr>)))"

section \<open>What a client of a queue may rely on\<close>

text \<open>A run of both operations (\<open>Some a\<close> puts in, \<open>None\<close> takes out), and the same run on a list of at most \<open>cap\<close>
  elements.\<close>

fun q_run :: "('a \<Rightarrow> 'q \<Rightarrow> (bool \<times> 'q) res) \<Rightarrow> ('q \<Rightarrow> ('a option \<times> 'q) res) \<Rightarrow> 'a option list \<Rightarrow> 'q
    \<Rightarrow> ('a option list \<times> 'q) res" where
  "q_run enq deq [] q = Inr ([], q)"
| "q_run enq deq (Some a # ops) q = bindR (enq a q) (\<lambda>(_, q1). q_run enq deq ops q1)"
| "q_run enq deq (None # ops) q =
     bindR (deq q) (\<lambda>(r, q1). bindR (q_run enq deq ops q1) (\<lambda>(rs, q2). Inr (r # rs, q2)))"

fun list_run :: "nat \<Rightarrow> 'a option list \<Rightarrow> 'a list \<Rightarrow> 'a option list \<times> 'a list" where
  "list_run cap [] xs = ([], xs)"
| "list_run cap (Some a # ops) xs = list_run cap ops (if length xs < cap then xs @ [a] else xs)"
| "list_run cap (None # ops) xs =
     (let (rs, ys) = list_run cap ops (tl xs) in ((case xs of [] \<Rightarrow> None | x # _ \<Rightarrow> Some x) # rs, ys))"

text \<open>Taking everything out: the fuel bounds the loop of a client that dequeues until nothing comes.\<close>

fun q_drain :: "('q \<Rightarrow> ('a option \<times> 'q) res) \<Rightarrow> nat \<Rightarrow> 'q \<Rightarrow> ('a list \<times> 'q) res option" where
  "q_drain deq 0 q = None"
| "q_drain deq (Suc n) q =
     (case deq q of
        Inl e \<Rightarrow> Some (Inl e)
      | Inr (None, q1) \<Rightarrow> Some (Inr ([], q1))
      | Inr (Some a, q1) \<Rightarrow> map_option (\<lambda>r. bindR r (\<lambda>(as, q2). Inr (a # as, q2))) (q_drain deq n q1))"

text \<open>
  A bounded queue: \<open>abs\<close> gives the waiting elements in order, \<open>room\<close> how many elements may still be
  accepted over its lifetime (the counters of the ring end at the largest int).
\<close>

locale bounded_queue =
  fixes enq :: "'a \<Rightarrow> 'q \<Rightarrow> (bool \<times> 'q) res"
    and deq :: "'q \<Rightarrow> ('a option \<times> 'q) res"
    and abs :: "'q \<Rightarrow> 'a list"
    and room :: "'q \<Rightarrow> nat"
    and ok :: "'q \<Rightarrow> bool"
    and cap :: nat
    and elem :: "'a \<Rightarrow> bool"
  assumes enq_room: "ok q \<Longrightarrow> elem a \<Longrightarrow> 0 < room q \<Longrightarrow> length (abs q) < cap \<Longrightarrow>
      \<exists>q'. enq a q = Inr (True, q') \<and> ok q' \<and> abs q' = abs q @ [a] \<and> room q' = room q - 1"
    and enq_full: "ok q \<Longrightarrow> elem a \<Longrightarrow> length (abs q) = cap \<Longrightarrow>
      \<exists>q'. enq a q = Inr (False, q') \<and> ok q' \<and> abs q' = abs q \<and> room q' = room q"
    and deq_some: "ok q \<Longrightarrow> abs q = a # as \<Longrightarrow>
      \<exists>q'. deq q = Inr (Some a, q') \<and> ok q' \<and> abs q' = as \<and> room q' = room q"
    and deq_none: "ok q \<Longrightarrow> abs q = [] \<Longrightarrow> \<exists>q'. deq q = Inr (None, q') \<and> ok q' \<and> abs q' = [] \<and> room q' = room q"
    and bounded: "ok q \<Longrightarrow> length (abs q) \<le> cap"
begin

lemma q_run_refines:
  "ok q \<Longrightarrow> (\<And>a. Some a \<in> set ops \<Longrightarrow> elem a) \<Longrightarrow> length ops \<le> room q \<Longrightarrow>
   \<exists>q'. q_run enq deq ops q = Inr (fst (list_run cap ops (abs q)), q') \<and> ok q' \<and> abs q' = snd (list_run cap ops (abs q))"
proof (induction ops arbitrary: q)
  case Nil
  then show ?case by simp
next
  case (Cons op ops)
  show ?case
  proof (cases op)
    case (Some a)
    have a: "elem a" using Cons.prems(2) Some by simp
    show ?thesis
    proof (cases "length (abs q) < cap")
      case True
      have "0 < room q" using Cons.prems(3) by simp
      from enq_room [OF Cons.prems(1) a this True] obtain q1 where q1:
        "enq a q = Inr (True, q1)" "ok q1" "abs q1 = abs q @ [a]" "room q1 = room q - 1" by blast
      have "length ops \<le> room q1" using Cons.prems(3) q1(4) by simp
      from Cons.IH [OF q1(2) _ this] Cons.prems(2) q1 show ?thesis using Some True by simp
    next
      case False
      then have "length (abs q) = cap" using bounded [OF Cons.prems(1)] by simp
      from enq_full [OF Cons.prems(1) a this] obtain q1 where q1:
        "enq a q = Inr (False, q1)" "ok q1" "abs q1 = abs q" "room q1 = room q" by blast
      have "length ops \<le> room q1" using Cons.prems(3) q1(4) by simp
      from Cons.IH [OF q1(2) _ this] Cons.prems(2) q1 show ?thesis using Some False by simp
    qed
  next
    case None
    have "\<exists>q1. deq q = Inr ((case abs q of [] \<Rightarrow> None | x # _ \<Rightarrow> Some x), q1) \<and> ok q1 \<and> abs q1 = tl (abs q) \<and> room q1 = room q"
      using deq_some [OF Cons.prems(1)] deq_none [OF Cons.prems(1)] by (cases "abs q") auto
    then obtain q1 where q1: "deq q = Inr ((case abs q of [] \<Rightarrow> None | x # _ \<Rightarrow> Some x), q1)" "ok q1"
      "abs q1 = tl (abs q)" "room q1 = room q" by blast
    have "length ops \<le> room q1" using Cons.prems(3) q1(4) by simp
    from Cons.IH [OF q1(2) _ this] Cons.prems(2) q1 show ?thesis
      using None by (auto simp: case_prod_beta Let_def)
  qed
qed

lemma q_drain_all:
  "ok q \<Longrightarrow> length (abs q) < n \<Longrightarrow>
   \<exists>q'. q_drain deq n q = Some (Inr (abs q, q')) \<and> ok q' \<and> abs q' = [] \<and> room q' = room q"
proof (induction n arbitrary: q)
  case 0
  then show ?case by simp
next
  case (Suc n)
  show ?case
  proof (cases "abs q")
    case Nil
    then show ?thesis using deq_none [OF Suc.prems(1)] by auto
  next
    case (Cons a as)
    from deq_some [OF Suc.prems(1) Cons] obtain q1 where q1:
      "deq q = Inr (Some a, q1)" "ok q1" "abs q1 = as" "room q1 = room q" by blast
    have "length (abs q1) < n" using Suc.prems(2) Cons q1(3) by simp
    from Suc.IH [OF q1(2) this] q1 Cons show ?thesis by auto
  qed
qed

end

section \<open>The ring is such a queue\<close>

definition nq_ok :: "navq \<Rightarrow> bool" where
  "nq_ok q \<longleftrightarrow> length (nq_slots q) = 16 \<and> 0 \<le> nq_head q \<and> nq_head q \<le> nq_tail q
     \<and> nq_tail q - nq_head q \<le> 16 \<and> nq_tail q < 2 ^ 31"

definition nq_abs :: "navq \<Rightarrow> nav_cmd list" where
  "nq_abs q = map (\<lambda>i. nq_slots q ! nat (i mod 16)) [nq_head q..nq_tail q - 1]"

definition nq_room :: "navq \<Rightarrow> nat" where
  "nq_room q = nat (2 ^ 31 - 1 - nq_tail q)"

lemma nq_abs_length: "nq_ok q \<Longrightarrow> int (length (nq_abs q)) = nq_tail q - nq_head q"
  by (simp add: nq_abs_def nq_ok_def)

lemma nq_index_ok: "nq_ok q \<Longrightarrow> 0 \<le> i \<Longrightarrow> nq_index q i = Inr (nat (i mod 16))"
proof -
  assume a: "nq_ok q" "0 \<le> i"
  have "nat (i mod 16) < 16" by (simp add: nat_less_iff)
  then show ?thesis using a by (simp add: nq_index_def nq_ok_def kQueueSize_def)
qed

lemma slots_apart:
  assumes "(h::int) \<le> i" "i < t" "t - h < 16"
  shows "nat (i mod 16) \<noteq> nat (t mod 16)"
proof
  assume "nat (i mod 16) = nat (t mod 16)"
  then have "i mod 16 = t mod 16" by (simp add: eq_nat_nat_iff)
  then have "(16::int) dvd t - i" by (metis mod_eq_dvd_iff)
  then show False using assms zdvd_imp_le [of 16 "t - i"] by simp
qed

lemma nq_abs_enqueue:
  assumes q: "nq_ok q" and room: "nq_tail q - nq_head q < 16"
  shows "nq_abs (q\<lparr>nq_slots := (nq_slots q)[nat (nq_tail q mod 16) := c], nq_tail := nq_tail q + 1, nq_lock_init := l\<rparr>)
    = nq_abs q @ [c]"
proof -
  let ?t = "nat (nq_tail q mod 16)"
  have t: "?t < length (nq_slots q)" using q by (simp add: nq_ok_def nat_less_iff)
  have sp: "[nq_head q..nq_tail q] = [nq_head q..nq_tail q - 1] @ [nq_tail q]"
    using q by (intro upto_rec2) (simp add: nq_ok_def)
  have "(nq_slots q)[?t := c] ! nat (i mod 16) = nq_slots q ! nat (i mod 16)" if "i \<in> set [nq_head q..nq_tail q - 1]" for i
    using slots_apart [of "nq_head q" i "nq_tail q"] that room by (intro nth_list_update_neq) auto
  then show ?thesis using t by (simp add: nq_abs_def sp)
qed

lemma nq_abs_Cons:
  assumes "nq_ok q" "nq_abs q = a # as"
  shows "nq_head q < nq_tail q" "nq_slots q ! nat (nq_head q mod 16) = a"
    "map (\<lambda>i. nq_slots q ! nat (i mod 16)) [nq_head q + 1..nq_tail q - 1] = as"
proof -
  show l: "nq_head q < nq_tail q" using nq_abs_length [OF assms(1)] assms(2) by simp
  then have "[nq_head q..nq_tail q - 1] = nq_head q # [nq_head q + 1..nq_tail q - 1]"
    by (intro upto_rec1) simp
  then show "nq_slots q ! nat (nq_head q mod 16) = a"
    "map (\<lambda>i. nq_slots q ! nat (i mod 16)) [nq_head q + 1..nq_tail q - 1] = as"
    using assms(2) by (simp_all add: nq_abs_def)
qed

interpretation navring: bounded_queue nq_enqueue "nq_dequeue True" nq_abs nq_room nq_ok 16 "\<lambda>c. c \<noteq> CmdNone"
proof
  fix q :: navq and a as
  {
    assume q: "nq_ok q" and a: "a \<noteq> CmdNone" and r: "0 < nq_room q" and l: "length (nq_abs q) < 16"
    let ?q = "q\<lparr>nq_slots := (nq_slots q)[nat (nq_tail q mod 16) := a], nq_tail := nq_tail q + 1, nq_lock_init := True\<rparr>"
    have lt: "nq_tail q - nq_head q < 16" using nq_abs_length [OF q] l by linarith
    have nn: "0 \<le> nq_tail q" "nq_tail q < 2 ^ 31 - 1" using q r by (auto simp: nq_ok_def nq_room_def)
    have "nq_enqueue a q = Inr (True, ?q)"
      using a lt nn nq_index_ok [of "nq_ensure_lock q" "nq_tail q"] q
      by (simp add: nq_enqueue_def nq_ensure_lock_def kQueueSize_def add_i32_def i32_ok_def nq_ok_def)
    then show "\<exists>q'. nq_enqueue a q = Inr (True, q') \<and> nq_ok q' \<and> nq_abs q' = nq_abs q @ [a] \<and> nq_room q' = nq_room q - 1"
      using nq_abs_enqueue [OF q lt, of True a] q lt nn
      by (intro exI [of _ ?q]) (simp add: nq_ok_def nq_room_def nat_diff_distrib)
  next
    assume q: "nq_ok q" and a: "a \<noteq> CmdNone" and l: "length (nq_abs q) = 16"
    have "\<not> nq_tail q - nq_head q < 16" using nq_abs_length [OF q] l by linarith
    then show "\<exists>q'. nq_enqueue a q = Inr (False, q') \<and> nq_ok q' \<and> nq_abs q' = nq_abs q \<and> nq_room q' = nq_room q"
      using q a by (intro exI [of _ "nq_ensure_lock q"])
        (simp add: nq_enqueue_def nq_ensure_lock_def kQueueSize_def nq_ok_def nq_abs_def nq_room_def)
  next
    assume q: "nq_ok q" and c: "nq_abs q = a # as"
    note h = nq_abs_Cons [OF q c]
    let ?q = "q\<lparr>nq_head := nq_head q + 1, nq_lock_init := True\<rparr>"
    have "nq_dequeue True q = Inr (Some a, ?q)"
      using h(1,2) nq_index_ok [of "nq_ensure_lock q" "nq_head q"] q
      by (simp add: nq_dequeue_def nq_ensure_lock_def nq_ok_def)
    then show "\<exists>q'. nq_dequeue True q = Inr (Some a, q') \<and> nq_ok q' \<and> nq_abs q' = as \<and> nq_room q' = nq_room q"
      using q h(1,3) by (intro exI [of _ ?q]) (simp add: nq_ok_def nq_abs_def nq_room_def)
  next
    assume q: "nq_ok q" and c: "nq_abs q = []"
    then have "nq_head q \<ge> nq_tail q" using nq_abs_length [OF q] by simp
    then show "\<exists>q'. nq_dequeue True q = Inr (None, q') \<and> nq_ok q' \<and> nq_abs q' = [] \<and> nq_room q' = nq_room q"
      using q c by (intro exI [of _ "nq_ensure_lock q"])
        (simp add: nq_dequeue_def nq_ensure_lock_def nq_ok_def nq_abs_def nq_room_def)
  next
    assume q: "nq_ok q"
    then show "length (nq_abs q) \<le> 16" using nq_abs_length [OF q] by (simp add: nq_ok_def)
  }
qed


text \<open> C14: any run of enqueues and dequeues on the ring gives the answers of a first-in-first-out list of at most 16
  commands, as long as the tail counter does not pass the largest int.\<close>

theorem nav_queue_fifo:
  assumes "nq_ok q" "CmdNone \<notin> Option.these (set ops)" "nq_tail q + int (length ops) < 2 ^ 31"
  shows "\<exists>q'. q_run nq_enqueue (nq_dequeue True) ops q = Inr (fst (list_run 16 ops (nq_abs q)), q')
    \<and> nq_ok q' \<and> nq_abs q' = snd (list_run 16 ops (nq_abs q))"
proof (rule navring.q_run_refines [OF assms(1)])
  show "a \<noteq> CmdNone" if "Some a \<in> set ops" for a using assms(2) that by (auto simp: in_these_eq)
  show "length ops \<le> nq_room q" using assms(3) by (simp add: nq_room_def)
qed

lemma navq_start_ok: "nq_ok navq_start" "nq_abs navq_start = []"
  by (simp_all add: nq_ok_def nq_abs_def navq_start_def)

theorem nav_queue_fifo_witness:
  "\<exists>q'. q_run nq_enqueue (nq_dequeue True) [Some PassShardSelect, None, None] navq_start
     = Inr ([Some PassShardSelect, None], q') \<and> nq_ok q' \<and> nq_abs q' = []"
  using nav_queue_fifo [OF navq_start_ok(1), of "[Some PassShardSelect, None, None]"] navq_start_ok(2)
  by (simp add: in_these_eq navq_start_def)

end
