(* ===== verification/QueueThreads.thy ===== *)
theory QueueThreads
  imports NavQueue
begin

text \<open>
  Threads inside the operations of the command queue (\<open>src/RMI/NavCommands.cpp\<close>) at once: the test of the lock's flag,
  setting the lock up, taking it, reading the counters, writing and giving it back are steps of their own. With the
  lock set up before the threads start, every interleaving is a run of whole operations; when the threads' first uses
  set it up, two of them can be inside together.
\<close>

section \<open>Operations that set their lock up and hold it\<close>

text \<open>Where a thread is: \<open>'op\<close> what it was called for, \<open>'snap\<close> what it has read under the lock.\<close>

datatype ('op, 'snap) place =
    Outside
  | Testing 'op                  \<comment> \<open>before \<open>if (!g_lock_init)\<close>\<close>
  | SettingUp 'op                \<comment> \<open>before \<open>InitializeCriticalSection\<close>\<close>
  | Marking 'op                  \<comment> \<open>before \<open>g_lock_init = true\<close>\<close>
  | Entering 'op                 \<comment> \<open>before \<open>EnterCriticalSection\<close>\<close>
  | Reading 'op
  | Writing 'op 'snap
  | Leaving                      \<comment> \<open>before \<open>LeaveCriticalSection\<close>\<close>

record ('op, 'snap, 'ans, 's) threads =
  th_state :: 's
  th_owner :: "nat option"       \<comment> \<open>who holds the critical section\<close>
  th_place :: "nat \<Rightarrow> ('op, 'snap) place"
  th_done :: "('op \<times> 'ans) list" \<comment> \<open>operations that have written, and their answers\<close>

text \<open>Setting a critical section up makes it free, whoever held it.\<close>

inductive th_step :: "('s \<Rightarrow> bool) \<Rightarrow> ('s \<Rightarrow> 's) \<Rightarrow> ('s \<Rightarrow> 'snap) \<Rightarrow> ('op \<Rightarrow> 'snap \<Rightarrow> 's \<Rightarrow> ('ans \<times> 's) res)
    \<Rightarrow> ('op, 'snap, 'ans, 's) threads \<Rightarrow> ('op, 'snap, 'ans, 's) threads \<Rightarrow> bool"
  for ready :: "'s \<Rightarrow> bool" and mark :: "'s \<Rightarrow> 's" and look :: "'s \<Rightarrow> 'snap"
    and act :: "'op \<Rightarrow> 'snap \<Rightarrow> 's \<Rightarrow> ('ans \<times> 's) res" where
  called: "th_place s t = Outside \<Longrightarrow> th_step ready mark look act s (s\<lparr>th_place := (th_place s)(t := Testing op)\<rparr>)"
| tested: "th_place s t = Testing op \<Longrightarrow>
    th_step ready mark look act s (s\<lparr>th_place := (th_place s)(t := if ready (th_state s) then Entering op else SettingUp op)\<rparr>)"
| set_up: "th_place s t = SettingUp op \<Longrightarrow>
    th_step ready mark look act s (s\<lparr>th_owner := None, th_place := (th_place s)(t := Marking op)\<rparr>)"
| marked: "th_place s t = Marking op \<Longrightarrow>
    th_step ready mark look act s (s\<lparr>th_state := mark (th_state s), th_place := (th_place s)(t := Entering op)\<rparr>)"
| entered: "th_place s t = Entering op \<Longrightarrow> th_owner s = None \<Longrightarrow>
    th_step ready mark look act s (s\<lparr>th_owner := Some t, th_place := (th_place s)(t := Reading op)\<rparr>)"
| has_read: "th_place s t = Reading op \<Longrightarrow>
    th_step ready mark look act s (s\<lparr>th_place := (th_place s)(t := Writing op (look (th_state s)))\<rparr>)"
| written: "th_place s t = Writing op snap \<Longrightarrow> act op snap (th_state s) = Inr (a, s') \<Longrightarrow>
    th_step ready mark look act s (s\<lparr>th_state := s', th_place := (th_place s)(t := Leaving), th_done := th_done s @ [(op, a)]\<rparr>)"
| left: "th_place s t = Leaving \<Longrightarrow> th_owner s = Some t \<Longrightarrow>
    th_step ready mark look act s (s\<lparr>th_owner := None, th_place := (th_place s)(t := Outside)\<rparr>)"

fun inside :: "('op, 'snap) place \<Rightarrow> bool" where
  "inside (Reading op) = True"
| "inside (Writing op snap) = True"
| "inside Leaving = True"
| "inside _ = False"

fun setting_up :: "('op, 'snap) place \<Rightarrow> bool" where
  "setting_up (SettingUp op) = True"
| "setting_up (Marking op) = True"
| "setting_up _ = False"

text \<open>The same operations, whole, one after the other.\<close>

fun whole_run :: "('s \<Rightarrow> 'snap) \<Rightarrow> ('op \<Rightarrow> 'snap \<Rightarrow> 's \<Rightarrow> ('ans \<times> 's) res) \<Rightarrow> 'op list \<Rightarrow> 's \<Rightarrow> ('ans list \<times> 's) res" where
  "whole_run look act [] s = Inr ([], s)"
| "whole_run look act (op # ops) s =
     bindR (act op (look s) s) (\<lambda>(a, s1). bindR (whole_run look act ops s1) (\<lambda>(as, s2). Inr (a # as, s2)))"

lemma whole_run_snoc:
  "whole_run look act ops s = Inr (as, s1) \<Longrightarrow> act op (look s1) s1 = Inr (a, s2) \<Longrightarrow>
   whole_run look act (ops @ [op]) s = Inr (as @ [a], s2)"
  by (induction ops arbitrary: s as) (auto simp: bindR_eq_Inr)

definition th_ok :: "('s \<Rightarrow> bool) \<Rightarrow> ('s \<Rightarrow> 'snap) \<Rightarrow> ('op \<Rightarrow> 'snap \<Rightarrow> 's \<Rightarrow> ('ans \<times> 's) res) \<Rightarrow> 's
    \<Rightarrow> ('op, 'snap, 'ans, 's) threads \<Rightarrow> bool" where
  "th_ok ready look act s0 s \<longleftrightarrow>
     ready (th_state s) \<and> (\<forall>t. \<not> setting_up (th_place s t)) \<and> (\<forall>t. inside (th_place s t) \<longleftrightarrow> th_owner s = Some t)
     \<and> (\<forall>t op snap. th_place s t = Writing op snap \<longrightarrow> snap = look (th_state s))
     \<and> whole_run look act (map fst (th_done s)) s0 = Inr (map snd (th_done s), th_state s)"

definition at_rest :: "'s \<Rightarrow> ('op, 'snap, 'ans, 's) threads" where
  "at_rest s = \<lparr>th_state = s, th_owner = None, th_place = (\<lambda>_. Outside), th_done = []\<rparr>"

text \<open>An object whose operations are guarded so: once its lock is ready, no operation undoes that.\<close>

locale guarded_object =
  fixes ready :: "'s \<Rightarrow> bool" and mark :: "'s \<Rightarrow> 's" and look :: "'s \<Rightarrow> 'snap"
    and act :: "'op \<Rightarrow> 'snap \<Rightarrow> 's \<Rightarrow> ('ans \<times> 's) res"
  assumes keeps: "act op snap x = Inr (a, y) \<Longrightarrow> ready x \<Longrightarrow> ready y"
begin

lemma th_step_ok:
  assumes step: "th_step ready mark look act s s'" and ok: "th_ok ready look act s0 s"
  shows "th_ok ready look act s0 s'"
  using step
proof (cases rule: th_step.cases)
  case (written t op snap a s1)
  have w: "snap = look (th_state s)" "th_owner s = Some t" using ok written(2) by (auto simp: th_ok_def)
  have i: "inside (th_place s u) \<longleftrightarrow> u = t" for u using ok w(2) by (auto simp: th_ok_def)
  then have n: "th_place s u \<noteq> Writing op' snap'" if "u \<noteq> t" for u op' snap' using that by (metis inside.simps(2))
  have "whole_run look act (map fst (th_done s) @ [op]) s0 = Inr (map snd (th_done s) @ [a], s1)"
    using ok written(3) w(1) by (intro whole_run_snoc) (auto simp: th_ok_def)
  moreover have "ready s1" using keeps [OF written(3)] ok by (simp add: th_ok_def)
  moreover have "\<not> setting_up (th_place s u)" for u using ok by (simp add: th_ok_def)
  ultimately show ?thesis using w(2) i n by (simp add: written(1) th_ok_def)
next
  case (called t op)
  then have "\<not> inside (th_place s t)" by simp
  then show ?thesis using ok by (auto simp: called(1) th_ok_def)
next
  case (tested t op)
  then have "\<not> inside (th_place s t)" by simp
  then show ?thesis using ok by (auto simp: tested(1) th_ok_def)
next
  case (set_up t op)
  then have "setting_up (th_place s t)" by simp
  then show ?thesis using ok by (auto simp: th_ok_def)
next
  case (marked t op)
  then have "setting_up (th_place s t)" by simp
  then show ?thesis using ok by (auto simp: th_ok_def)
qed (use ok in \<open>auto simp: th_ok_def split: if_splits\<close>)

lemma th_steps_ok:
  assumes "(th_step ready mark look act)\<^sup>*\<^sup>* s s'" "th_ok ready look act s0 s"
  shows "th_ok ready look act s0 s'"
  using assms(1) by (induction rule: rtranclp_induct) (auto intro: assms(2) th_step_ok)

lemma from_rest_ok:
  assumes "ready q" "(th_step ready mark look act)\<^sup>*\<^sup>* (at_rest q) s"
  shows "th_ok ready look act q s"
proof (rule th_steps_ok [OF assms(2)])
  show "th_ok ready look act q (at_rest q)" using assms(1) by (simp add: th_ok_def at_rest_def)
qed

end

section \<open>The queue's operations in steps\<close>

text \<open>\<open>NavEnqueueCommand\<close> of the one command there is, \<open>NavHasQueuedCommands\<close> and \<open>NavDequeueCommand\<close>; under the lock they read the
  two counters and then write.\<close>

datatype nav_op = Enqueues | Asks | Dequeues

datatype nav_answer = Told bool | Took "nav_cmd option"

definition nq_look :: "navq \<Rightarrow> int \<times> int" where
  "nq_look q = (nq_head q, nq_tail q)"

definition nq_act :: "nav_op \<Rightarrow> int \<times> int \<Rightarrow> navq \<Rightarrow> (nav_answer \<times> navq) res" where
  "nq_act op snap q =
     (let (head, tail) = snap in
      case op of
        Enqueues \<Rightarrow>
          if tail - head < kQueueSize then
            bindR (add_i32 tail 1) (\<lambda>tail'.
            bindR (nq_index q tail) (\<lambda>i.
            Inr (Told True, q\<lparr>nq_slots := (nq_slots q)[i := PassShardSelect], nq_tail := tail'\<rparr>)))
          else Inr (Told False, q)
      | Asks \<Rightarrow> Inr (Told (head < tail), q)
      | Dequeues \<Rightarrow>
          if head \<ge> tail then Inr (Took None, q)
          else bindR (nq_index q head) (\<lambda>i. Inr (Took (Some (nq_slots q ! i)), q\<lparr>nq_head := head + 1\<rparr>)))"

text \<open>The whole operations, as the rest of the development has them.\<close>

definition nq_whole :: "nav_op \<Rightarrow> navq \<Rightarrow> (nav_answer \<times> navq) res" where
  "nq_whole op q =
     (case op of
        Enqueues \<Rightarrow> bindR (nq_enqueue PassShardSelect q) (\<lambda>(b, q1). Inr (Told b, q1))
      | Asks \<Rightarrow> (let (b, q1) = nq_has q in Inr (Told b, q1))
      | Dequeues \<Rightarrow> bindR (nq_dequeue True q) (\<lambda>(r, q1). Inr (Took r, q1)))"

fun nq_runs :: "nav_op list \<Rightarrow> navq \<Rightarrow> (nav_answer list \<times> navq) res" where
  "nq_runs [] q = Inr ([], q)"
| "nq_runs (op # ops) q =
     bindR (nq_whole op q) (\<lambda>(a, q1). bindR (nq_runs ops q1) (\<lambda>(as, q2). Inr (a # as, q2)))"

lemma nq_whole_in_steps: "nq_lock_init q \<Longrightarrow> nq_act op (nq_look q) q = nq_whole op q"
  by (cases q; cases op)
    (simp_all add: nq_act_def nq_look_def nq_whole_def nq_enqueue_def nq_has_def nq_dequeue_def nq_ensure_lock_def Let_def
      add_i32_def nq_index_def)

lemma nq_act_ready: "nq_act op snap q = Inr (a, q1) \<Longrightarrow> nq_lock_init q1 = nq_lock_init q"
  by (auto simp: nq_act_def bindR_eq_Inr split: nav_op.splits if_splits prod.splits)

interpretation nav_lock: guarded_object nq_lock_init nq_ensure_lock nq_look nq_act
  by unfold_locales (simp add: nq_act_ready)

lemma nq_runs_steps:
  "nq_lock_init q \<Longrightarrow> whole_run nq_look nq_act ops q = Inr r \<Longrightarrow> nq_runs ops q = Inr r"
proof (induction ops arbitrary: q r)
  case (Cons op ops)
  from Cons.prems(2) obtain a q1 as q2 where r: "nq_act op (nq_look q) q = Inr (a, q1)" "whole_run nq_look nq_act ops q1 = Inr (as, q2)"
    "r = (a # as, q2)" by (auto simp: bindR_eq_Inr)
  have "nq_runs ops q1 = Inr (as, q2)" using Cons.IH [OF _ r(2)] nq_act_ready [OF r(1)] Cons.prems(1) by simp
  then show ?case using r(1,3) nq_whole_in_steps [OF Cons.prems(1)] by simp
qed simp

lemma nq_whole_ok:
  assumes "nq_ok q" "0 < nq_room q"
  shows "\<exists>a q1. nq_whole op q = Inr (a, q1) \<and> nq_ok q1 \<and> nq_room q \<le> nq_room q1 + 1"
proof (cases op)
  case Enqueues
  show ?thesis
  proof (cases "length (nq_abs q) < 16")
    case True
    from navring.enq_room [OF assms(1) _ assms(2) this, of PassShardSelect] Enqueues show ?thesis
      by (auto simp: nq_whole_def)
  next
    case False
    then have "length (nq_abs q) = 16" using navring.bounded [OF assms(1)] by simp
    from navring.enq_full [OF assms(1) _ this, of PassShardSelect] Enqueues show ?thesis by (auto simp: nq_whole_def)
  qed
next
  case Asks
  then show ?thesis using assms by (simp add: nq_whole_def nq_has_def nq_ensure_lock_def nq_ok_def nq_room_def Let_def)
next
  case Dequeues
  then show ?thesis using navring.deq_some [OF assms(1)] navring.deq_none [OF assms(1)]
    by (cases "nq_abs q") (fastforce simp: nq_whole_def)+
qed

lemma nq_runs_ok:
  "nq_runs ops q = Inr (as, q1) \<Longrightarrow> nq_ok q \<Longrightarrow> length ops \<le> nq_room q \<Longrightarrow> nq_ok q1 \<and> nq_room q \<le> nq_room q1 + length ops"
proof (induction ops arbitrary: q as)
  case (Cons op ops)
  from Cons.prems(3) have "0 < nq_room q" by simp
  from nq_whole_ok [OF Cons.prems(2) this, of op] obtain a q2 where w: "nq_whole op q = Inr (a, q2)" "nq_ok q2"
    "nq_room q \<le> nq_room q2 + 1" by blast
  then obtain bs where "nq_runs ops q2 = Inr (bs, q1)" using Cons.prems(1) by (auto simp: bindR_eq_Inr)
  from Cons.IH [OF this w(2)] w(3) Cons.prems(3) show ?case by simp
qed simp

text \<open> C15: With the queue's lock set up, threads inside its operations at once do no more than whole operations one after the other:
  the answers and the queue are those of the operations in the order in which they wrote; no two threads are inside together;
  and a thread that is inside is never stopped by an error while the tail counter has room.\<close>

theorem queue_operations_atomic:
  assumes "nq_lock_init q" "nq_ok q"
    and "(th_step nq_lock_init nq_ensure_lock nq_look nq_act)\<^sup>*\<^sup>* (at_rest q) s" "length (th_done s) < nq_room q"
  shows "nq_runs (map fst (th_done s)) q = Inr (map snd (th_done s), th_state s)
    \<and> (\<forall>t u. inside (th_place s t) \<and> inside (th_place s u) \<longrightarrow> t = u)
    \<and> (\<forall>t op snap. th_place s t = Writing op snap \<longrightarrow> (\<exists>r. nq_act op snap (th_state s) = Inr r))"
proof -
  have ok: "th_ok nq_lock_init nq_look nq_act q s" by (rule nav_lock.from_rest_ok [OF assms(1,3)])
  then have r: "nq_runs (map fst (th_done s)) q = Inr (map snd (th_done s), th_state s)"
    using nq_runs_steps [OF assms(1)] by (simp add: th_ok_def)
  have "nq_ok (th_state s)" "0 < nq_room (th_state s)" using nq_runs_ok [OF r assms(2)] assms(4) by auto
  then have "\<exists>r. nq_act op (nq_look (th_state s)) (th_state s) = Inr r" for op
    using nq_whole_ok nq_whole_in_steps ok by (metis th_ok_def)
  with ok r show ?thesis by (auto simp: th_ok_def)
qed

section \<open>Schedules\<close>

text \<open>The next step of thread \<open>t\<close>, which calls \<open>op\<close> if it is outside; \<open>None\<close> when it has to wait.\<close>

definition th_next :: "('s \<Rightarrow> bool) \<Rightarrow> ('s \<Rightarrow> 's) \<Rightarrow> ('s \<Rightarrow> 'snap) \<Rightarrow> ('op \<Rightarrow> 'snap \<Rightarrow> 's \<Rightarrow> ('ans \<times> 's) res) \<Rightarrow> nat \<Rightarrow> 'op
    \<Rightarrow> ('op, 'snap, 'ans, 's) threads \<Rightarrow> ('op, 'snap, 'ans, 's) threads option" where
  "th_next ready mark look act t op s =
     (let goes = (\<lambda>p s. Some (s\<lparr>th_place := (th_place s)(t := p)\<rparr>)) in
      case th_place s t of
        Outside \<Rightarrow> goes (Testing op) s
      | Testing op \<Rightarrow> goes (if ready (th_state s) then Entering op else SettingUp op) s
      | SettingUp op \<Rightarrow> goes (Marking op) (s\<lparr>th_owner := None\<rparr>)
      | Marking op \<Rightarrow> goes (Entering op) (s\<lparr>th_state := mark (th_state s)\<rparr>)
      | Entering op \<Rightarrow> if th_owner s = None then goes (Reading op) (s\<lparr>th_owner := Some t\<rparr>) else None
      | Reading op \<Rightarrow> goes (Writing op (look (th_state s))) s
      | Writing op snap \<Rightarrow>
          (case act op snap (th_state s) of
             Inl e \<Rightarrow> None
           | Inr (a, s1) \<Rightarrow> Some (s\<lparr>th_state := s1, th_place := (th_place s)(t := Leaving), th_done := th_done s @ [(op, a)]\<rparr>))
      | Leaving \<Rightarrow> if th_owner s = Some t then goes Outside (s\<lparr>th_owner := None\<rparr>) else None)"

lemma th_next_step: "th_next ready mark look act t op s = Some s1 \<Longrightarrow> th_step ready mark look act s s1"
proof (cases "th_place s t")
  case (Testing op')
  then show "th_next ready mark look act t op s = Some s1 \<Longrightarrow> ?thesis"
    using th_step.tested [OF Testing, of ready mark look act] by (simp add: th_next_def)
qed (auto simp: th_next_def Let_def split: if_splits sum.splits prod.splits intro: th_step.intros)

fun th_schedule :: "('s \<Rightarrow> bool) \<Rightarrow> ('s \<Rightarrow> 's) \<Rightarrow> ('s \<Rightarrow> 'snap) \<Rightarrow> ('op \<Rightarrow> 'snap \<Rightarrow> 's \<Rightarrow> ('ans \<times> 's) res)
    \<Rightarrow> (nat \<times> 'op) list \<Rightarrow> ('op, 'snap, 'ans, 's) threads \<Rightarrow> ('op, 'snap, 'ans, 's) threads option" where
  "th_schedule ready mark look act [] s = Some s"
| "th_schedule ready mark look act ((t, op) # sched) s =
     (case th_next ready mark look act t op s of None \<Rightarrow> None | Some s1 \<Rightarrow> th_schedule ready mark look act sched s1)"

lemma th_schedule_steps:
  "th_schedule ready mark look act sched s = Some s1 \<Longrightarrow> (th_step ready mark look act)\<^sup>*\<^sup>* s s1"
proof (induction sched arbitrary: s)
  case (Cons p sched)
  obtain s2 where n: "th_next ready mark look act (fst p) (snd p) s = Some s2" "th_schedule ready mark look act sched s2 = Some s1"
    using Cons.prems by (cases p) (auto split: option.splits)
  from converse_rtranclp_into_rtranclp [of "th_step ready mark look act", OF th_next_step [OF n(1)] Cons.IH [OF n(2)]]
  show ?case .
qed simp

lemma plain_queue_steps:
  "nq_lock_init (navq_start\<lparr>nq_lock_init := True\<rparr>)" "nq_ok (navq_start\<lparr>nq_lock_init := True\<rparr>)"
  using navq_start_ok(1) by (simp_all add: nq_ok_def)

text \<open>One thread asks while another puts a command in.\<close>

theorem queue_operations_atomic_witness:
  "\<exists>s. (th_step nq_lock_init nq_ensure_lock nq_look nq_act)\<^sup>*\<^sup>* (at_rest (navq_start\<lparr>nq_lock_init := True\<rparr>)) s
     \<and> th_done s = [(Enqueues, Told True)]
     \<and> nq_runs [Enqueues] (navq_start\<lparr>nq_lock_init := True\<rparr>) = Inr ([Told True], th_state s)"
proof -
  let ?q = "navq_start\<lparr>nq_lock_init := True\<rparr>"
  let ?sched = "[(0, Asks), (1, Enqueues), (1, Enqueues), (0, Asks), (1, Enqueues), (1, Enqueues), (1, Enqueues)]"
  obtain s where s: "th_schedule nq_lock_init nq_ensure_lock nq_look nq_act ?sched (at_rest ?q) = Some s"
    "th_done s = [(Enqueues, Told True)]"
    by (simp add: th_next_def at_rest_def nq_look_def nq_act_def navq_start_def kQueueSize_def add_i32_def i32_ok_def nq_index_def)
  note run = th_schedule_steps [OF s(1)]
  have "length (th_done s) < nq_room ?q" using s(2) by (simp add: nq_room_def navq_start_def)
  from queue_operations_atomic [OF plain_queue_steps run this] s(2) run show ?thesis by auto
qed

text \<open>When the first uses set the lock up, the second to do so frees it while the first is inside: both are inside, and the
  first gives back a lock that is not its own.\<close>

theorem lazy_lock_shared:
  "\<exists>s. (th_step nq_lock_init nq_ensure_lock nq_look nq_act)\<^sup>*\<^sup>* (at_rest navq_start) s
     \<and> inside (th_place s 0) \<and> inside (th_place s 1) \<and> th_place s 0 = Leaving \<and> th_owner s = Some 1"
proof -
  let ?sched = "[(0, Asks), (0, Asks), (1, Enqueues), (1, Enqueues), (0, Asks), (0, Asks), (0, Asks), (0, Asks), (0, Asks),
    (1, Enqueues), (1, Enqueues), (1, Enqueues)]"
  obtain s where s: "th_schedule nq_lock_init nq_ensure_lock nq_look nq_act ?sched (at_rest navq_start) = Some s"
    "inside (th_place s 0)" "inside (th_place s 1)" "th_place s 0 = Leaving" "th_owner s = Some 1"
    by (simp add: th_next_def at_rest_def nq_look_def nq_act_def navq_start_def nq_ensure_lock_def)
  from th_schedule_steps [OF s(1)] s(2-5) show ?thesis by blast
qed

end
