(* ===== verification/Nav.thy ===== *)
theory Nav
  imports NavQueue Runs
begin

text \<open>
  The navigation pump, \<open>src/RMI/Nav.cpp\<close>: the interlocked flags, the message hook and the wake-up
  thread, draining of the command queue, and the shard-select flow that the pump drives.

  The flags are \<open>LONG\<close>s and stay numbers. What the pump learns from outside in one call (thread id,
  scene, transition lock, environment variable, answers of Windows) is a record of answers; what it does outside
  is a trace, newest event last. Log lines are not part of the trace.
\<close>

section \<open>State\<close>

definition kSceneLobby :: int where "kSceneLobby = 4"
definition kFloorShardSelect :: u16 where "kFloorShardSelect = 0x3AC3"
definition kFloorLobbyEnter :: u16 where "kFloorLobbyEnter = 0x3ACE"

datatype nav_event =
    SendRmi u16 "u8 list"        \<comment> \<open>\<open>send_proxy_rmi\<close>\<close>
  | RequestState int
  | InstallHook u32              \<comment> \<open>\<open>SetWindowsHookExA\<close> for a thread\<close>
  | RemoveHook
  | PostNull u32                 \<comment> \<open>\<open>PostThreadMessageA(WM_NULL)\<close>\<close>
  | SpawnWakeup                  \<comment> \<open>\<open>CreateThread\<close>\<close>

record nav =
  nv_did_notify :: int           \<comment> \<open>\<open>g_did_lobby_notify_send\<close>\<close>
  nv_pending :: int              \<comment> \<open>\<open>g_pass_shard_pending\<close>\<close>
  nv_index :: int                \<comment> \<open>\<open>g_pass_shard_index\<close>\<close>
  nv_did_select :: int           \<comment> \<open>\<open>g_did_shard_select_send\<close>\<close>
  nv_did_state :: int            \<comment> \<open>\<open>g_did_request_state\<close>\<close>
  nv_running :: int              \<comment> \<open>\<open>g_wakeup_thread_running\<close>\<close>
  nv_main_tid :: u32             \<comment> \<open>\<open>g_main_tid\<close>\<close>
  nv_hook :: bool                \<comment> \<open>\<open>g_getmsg_hook\<close> is set\<close>
  nv_hook_logged :: int          \<comment> \<open>\<open>g_getmsg_hook_logged\<close>\<close>
  nv_logged_lock :: int          \<comment> \<open>\<open>s_logged_lock\<close>\<close>
  nv_q :: navq
  nv_trace :: "nav_event list"

record nav_env =
  ne_tid :: u32                  \<comment> \<open>\<open>GetCurrentThreadId\<close>\<close>
  ne_module :: bool              \<comment> \<open>\<open>GetModuleHandleA(''TheGame.dll'')\<close> finds it\<close>
  ne_hook_ok :: bool             \<comment> \<open>\<open>SetWindowsHookExA\<close> succeeds\<close>
  ne_thread_ok :: bool           \<comment> \<open>\<open>CreateThread\<close> succeeds\<close>
  ne_var :: "u8 list option"     \<comment> \<open>\<open>THEGAME_NAV_SHARD_INDEX\<close>\<close>
  ne_scene :: int                \<comment> \<open>the scene word of the game\<close>
  ne_locked :: bool              \<comment> \<open>the transition lock of the game\<close>

definition nav_start :: nav where
  "nav_start = \<lparr>nv_did_notify = 0, nv_pending = 0, nv_index = 0, nv_did_select = 0, nv_did_state = 0,
     nv_running = 0, nv_main_tid = 0, nv_hook = False, nv_hook_logged = 0, nv_logged_lock = 0,
     nv_q = navq_start, nv_trace = []\<rparr>"

definition emit :: "nav_event \<Rightarrow> nav \<Rightarrow> nav" where
  "emit e st = st\<lparr>nv_trace := nv_trace st @ [e]\<rparr>"

section \<open>Payloads\<close>

definition build_word_payload :: "u16 \<Rightarrow> u8 list" where
  "build_word_payload floor = [ucast (floor AND 0xFF), ucast (drop_bit 8 floor AND 0xFF)]"

definition send_proxy_rmi :: "u32 \<Rightarrow> u8 list \<Rightarrow> nav \<Rightarrow> nav" where
  "send_proxy_rmi rmi payload = emit (SendRmi (ucast (rmi AND 0xFFFF)) payload)"

definition send_lobby_enter_notify :: "nav \<Rightarrow> nav" where
  "send_lobby_enter_notify = send_proxy_rmi 0x3F40 (build_word_payload kFloorLobbyEnter)"

definition le_dword :: "u32 \<Rightarrow> u8 list" where
  "le_dword x = [ucast x, ucast (drop_bit 8 x), ucast (drop_bit 16 x), ucast (drop_bit 24 x)]"

definition send_shard_select_c2s :: "int \<Rightarrow> nav \<Rightarrow> nav" where
  "send_shard_select_c2s shard_index =
     send_proxy_rmi 0x3EB2
       ([ucast (kFloorShardSelect AND 0xFF), ucast (drop_bit 8 kFloorShardSelect AND 0xFF)]
        @ le_dword (word_of_int shard_index))"

definition request_lobby_scene :: "nav \<Rightarrow> nav" where
  "request_lobby_scene = emit (RequestState kSceneLobby)"

text \<open>\<open>atoi\<close>: white space, a sign, digits; a number out of range gives the nearest int.\<close>

definition is_space :: "u8 \<Rightarrow> bool" where
  "is_space c \<longleftrightarrow> c = 32 \<or> (9 \<le> c \<and> c \<le> 13)"

definition digit_val :: "u8 \<Rightarrow> int option" where
  "digit_val c = (if 48 \<le> c \<and> c \<le> 57 then Some (uint c - 48) else None)"

fun digits_value :: "int \<Rightarrow> u8 list \<Rightarrow> int" where
  "digits_value acc [] = acc"
| "digits_value acc (c # cs) = (case digit_val c of None \<Rightarrow> acc | Some d \<Rightarrow> digits_value (acc * 10 + d) cs)"

definition c_atoi :: "u8 list \<Rightarrow> int" where
  "c_atoi s =
     (let s1 = dropWhile is_space s;
          v = (case s1 of
                 [] \<Rightarrow> 0
               | c # cs \<Rightarrow> if c = 45 then - digits_value 0 cs
                           else if c = 43 then digits_value 0 cs else digits_value 0 s1)
      in max (- (2 ^ 31)) (min (2 ^ 31 - 1) v))"

text \<open>\<open>GetEnvironmentVariableA\<close> answers the length it would need when the value does not fit.\<close>

definition nav_shard_index_from_env :: "nav_env \<Rightarrow> int" where
  "nav_shard_index_from_env e =
     (case ne_var e of
        None \<Rightarrow> 0
      | Some s \<Rightarrow>
          let n = (if length s < 32 then length s else length s + 1)
          in if n = 0 \<or> n \<ge> 32 then 0 else c_atoi s)"

section \<open>Threads and hooks\<close>

definition nav_work_pending :: "nav \<Rightarrow> bool" where
  "nav_work_pending st \<longleftrightarrow> nv_pending st \<noteq> 0"

definition note_main_thread :: "nav_env \<Rightarrow> nav \<Rightarrow> nav" where
  "note_main_thread e st = (if nv_main_tid st = 0 then st\<lparr>nv_main_tid := ne_tid e\<rparr> else st)"

definition ensure_getmsg_hook :: "nav_env \<Rightarrow> nav \<Rightarrow> nav" where
  "ensure_getmsg_hook e st =
     (if nv_hook st \<or> nv_main_tid st = 0 then st
      else if \<not> ne_module e then st
      else let st1 = emit (InstallHook (nv_main_tid st)) (st\<lparr>nv_hook := ne_hook_ok e\<rparr>)
           in if nv_hook st1 \<and> nv_hook_logged st1 = 0 then st1\<lparr>nv_hook_logged := 1\<rparr> else st1)"

definition wake_main_thread :: "nav \<Rightarrow> nav" where
  "wake_main_thread st = (if nv_main_tid st = 0 then st else emit (PostNull (nv_main_tid st)) st)"

text \<open>
  The wake-up thread: \<open>seen i\<close> is whether work is pending when round \<open>i\<close> looks, which other threads
  decide. The first argument counts the rounds that are left.
\<close>

primrec wakeup_rounds :: "nat \<Rightarrow> (nat \<Rightarrow> bool) \<Rightarrow> nav \<Rightarrow> nav" where
  "wakeup_rounds 0 seen st = st"
| "wakeup_rounds (Suc k) seen st =
     (if \<not> seen (120 - Suc k) then st else wakeup_rounds k seen (wake_main_thread st))"

definition nav_wakeup_thread :: "(nat \<Rightarrow> bool) \<Rightarrow> nav \<Rightarrow> nav" where
  "nav_wakeup_thread seen st = (wakeup_rounds 120 seen st)\<lparr>nv_running := 0\<rparr>"

definition start_nav_wakeup_thread :: "nav_env \<Rightarrow> nav \<Rightarrow> nav" where
  "start_nav_wakeup_thread e st =
     (if nv_running st \<noteq> 0 then st
      else let st1 = emit SpawnWakeup (st\<lparr>nv_running := 1\<rparr>)
           in if ne_thread_ok e then st1 else st1\<lparr>nv_running := 0\<rparr>)"

section \<open>The flow\<close>

definition clear_pass_shard_flow :: "nav \<Rightarrow> nav" where
  "clear_pass_shard_flow st = st\<lparr>nv_pending := 0, nv_did_select := 0, nv_did_state := 0, nv_did_notify := 0\<rparr>"

definition pump_pass_shard_select :: "nav_env \<Rightarrow> nav \<Rightarrow> nav" where
  "pump_pass_shard_select e st =
     (if nv_pending st = 0 then st
      else let st1 = (if nv_did_select st = 0 then send_shard_select_c2s (nv_index st) (st\<lparr>nv_did_select := 1\<rparr>) else st)
           in if ne_scene e = kSceneLobby then
                (let st2 = (if nv_did_notify st1 = 0 then send_lobby_enter_notify (st1\<lparr>nv_did_notify := 1\<rparr>) else st1)
                 in (clear_pass_shard_flow st2)\<lparr>nv_logged_lock := 0\<rparr>)
              else if ne_locked e then
                (if nv_logged_lock st1 = 0 then st1\<lparr>nv_logged_lock := 1\<rparr> else st1)
              else (let st2 = st1\<lparr>nv_logged_lock := 0\<rparr>
                    in if nv_did_state st2 = 0 then request_lobby_scene (st2\<lparr>nv_did_state := 1\<rparr>) else st2))"

definition take_command :: "nav_env \<Rightarrow> nav_cmd \<Rightarrow> nav \<Rightarrow> nav" where
  "take_command e cmd st =
     (if cmd = PassShardSelect then
        start_nav_wakeup_thread e
          (st\<lparr>nv_index := nav_shard_index_from_env e, nv_did_select := 0, nv_did_state := 0, nv_did_notify := 0,
              nv_pending := 1\<rparr>)
      else st)"

lemma nq_dequeue_head:
  "nq_dequeue out q = Inr (Some c, q') \<Longrightarrow>
   nq_head q < nq_tail q \<and> nq_head q' = nq_head q + 1 \<and> nq_tail q' = nq_tail q"
  by (auto simp: nq_dequeue_def nq_ensure_lock_def Let_def bindR_eq_Inr split: if_splits)

lemma take_command_q [simp]: "nv_q (take_command e c st) = nv_q st"
  by (simp add: take_command_def start_nav_wakeup_thread_def emit_def Let_def)

function NavDrainCommands :: "nav_env \<Rightarrow> nav \<Rightarrow> nav res" where
  "NavDrainCommands e st =
     (case nq_dequeue True (nv_q st) of
        Inl err \<Rightarrow> Inl err
      | Inr (None, q') \<Rightarrow> Inr (st\<lparr>nv_q := q'\<rparr>)
      | Inr (Some cmd, q') \<Rightarrow> NavDrainCommands e (take_command e cmd (st\<lparr>nv_q := q'\<rparr>)))"
  by pat_completeness auto
termination
  by (relation "measure (\<lambda>(e, st). nat (nq_tail (nv_q st) - nq_head (nv_q st)))") (auto dest: nq_dequeue_head)

declare NavDrainCommands.simps [simp del]

definition NavSchedulePump :: "nav_env \<Rightarrow> nav \<Rightarrow> nav" where
  "NavSchedulePump e st = wake_main_thread (ensure_getmsg_hook e st)"

definition NavEnqueueCommand :: "nav_env \<Rightarrow> nav_cmd \<Rightarrow> nav \<Rightarrow> nav res" where
  "NavEnqueueCommand e cmd st =
     bindR (nq_enqueue cmd (nv_q st)) (\<lambda>(queued, q').
       let st1 = st\<lparr>nv_q := q'\<rparr> in Inr (if queued then NavSchedulePump e st1 else st1))"

definition NavPump :: "nav_env \<Rightarrow> nav \<Rightarrow> nav res" where
  "NavPump e st =
     bindR (NavDrainCommands e (ensure_getmsg_hook e (note_main_thread e st))) (\<lambda>st1.
     Inr (pump_pass_shard_select e st1))"

text \<open>The message hook; the answer of \<open>CallNextHookEx\<close> is not used.\<close>

definition nav_getmsg_proc :: "nav_env \<Rightarrow> int \<Rightarrow> nav \<Rightarrow> nav res" where
  "nav_getmsg_proc e code st =
     (if code = 0 then
        (if nav_work_pending st then NavPump e st
         else let (has, q') = nq_has (nv_q st); st1 = st\<lparr>nv_q := q'\<rparr>
              in if has then NavPump e st1 else Inr st1)
      else Inr st)"

definition NavTeardown :: "nav \<Rightarrow> nav" where
  "NavTeardown st =
     (let st1 = (if nv_hook st then emit RemoveHook (st\<lparr>nv_hook := False\<rparr>) else st)
      in clear_pass_shard_flow (st1\<lparr>nv_main_tid := 0, nv_hook_logged := 0\<rparr>))"

section \<open>One command, one flow\<close>

definition is_flow_event :: "nav_event \<Rightarrow> bool" where
  "is_flow_event x = (case x of SendRmi _ _ \<Rightarrow> True | RequestState _ \<Rightarrow> True | _ \<Rightarrow> False)"

definition flow_events :: "nav \<Rightarrow> nav_event list" where
  "flow_events st = filter is_flow_event (nv_trace st)"

definition nav_pumps :: "nav_env list \<Rightarrow> nav \<Rightarrow> nav res" where
  "nav_pumps = run_all NavPump"

lemma nav_pumps_simps [simp]: "nav_pumps [] st = Inr st" "nav_pumps (e # es) st = bindR (NavPump e st) (nav_pumps es)"
  by (simp_all add: nav_pumps_def)

text \<open>
  What the flow is to do, given what its pumps see: select the shard, ask for the lobby once the
  transition lock is off while the lobby is not there yet, and announce the lobby when it is.
\<close>

definition before_lobby :: "nav_env list \<Rightarrow> nav_env list" where
  "before_lobby es = takeWhile (\<lambda>e. ne_scene e \<noteq> 4) es"

definition ask_lobby :: "nav_env list \<Rightarrow> nav_event list" where
  "ask_lobby es = (if list_all ne_locked (before_lobby es) then [] else [RequestState 4])"

definition tell_lobby :: "nav_env list \<Rightarrow> nav_event list" where
  "tell_lobby es = (if length (before_lobby es) = length es then [] else [SendRmi 0x3F40 [0xCE, 0x3A]])"

definition shard_flow :: "int \<Rightarrow> nav_env list \<Rightarrow> nav_event list" where
  "shard_flow index es = SendRmi 0x3EB2 (0xC3 # 0x3A # le_dword (word_of_int index)) # ask_lobby es @ tell_lobby es"

lemma before_lobby_simps [simp]:
  "before_lobby [] = []"
  "before_lobby (e # es) = (if ne_scene e = 4 then [] else e # before_lobby es)"
  by (simp_all add: before_lobby_def)

lemma flow_of_emit: "flow_events (emit e st) = flow_events st @ (if is_flow_event e then [e] else [])"
  by (simp add: flow_events_def emit_def)

lemma flow_of_upd [simp]:
  "flow_events (nv_did_notify_update f1 st) = flow_events st"
  "flow_events (nv_pending_update f2 st) = flow_events st"
  "flow_events (nv_index_update f3 st) = flow_events st"
  "flow_events (nv_did_select_update f1 st) = flow_events st"
  "flow_events (nv_did_state_update f1 st) = flow_events st"
  "flow_events (nv_running_update f1 st) = flow_events st"
  "flow_events (nv_main_tid_update f4 st) = flow_events st"
  "flow_events (nv_hook_update f5 st) = flow_events st"
  "flow_events (nv_hook_logged_update f1 st) = flow_events st"
  "flow_events (nv_logged_lock_update f1 st) = flow_events st"
  "flow_events (nv_q_update f6 st) = flow_events st"
  by (simp_all add: flow_events_def)

lemma emit_fields [simp]:
  "nv_did_notify (emit e st) = nv_did_notify st" "nv_pending (emit e st) = nv_pending st"
  "nv_index (emit e st) = nv_index st" "nv_did_select (emit e st) = nv_did_select st"
  "nv_did_state (emit e st) = nv_did_state st" "nv_running (emit e st) = nv_running st"
  "nv_main_tid (emit e st) = nv_main_tid st" "nv_hook (emit e st) = nv_hook st"
  "nv_hook_logged (emit e st) = nv_hook_logged st" "nv_logged_lock (emit e st) = nv_logged_lock st"
  "nv_q (emit e st) = nv_q st"
  by (simp_all add: emit_def)

lemma payloads [simp]:
  "build_word_payload kFloorLobbyEnter = [0xCE, 0x3A]"
  "[ucast (kFloorShardSelect AND 0xFF), ucast (drop_bit 8 kFloorShardSelect AND 0xFF)] = [0xC3, 0x3A :: u8]"
  by (simp_all add: build_word_payload_def kFloorLobbyEnter_def kFloorShardSelect_def unsigned_ucast_eq
      word_eq_iff_unsigned drop_bit_eq_div)

lemma flow_of_sends:
  "flow_events (send_lobby_enter_notify st) = flow_events st @ [SendRmi 0x3F40 [0xCE, 0x3A]]"
  "flow_events (send_shard_select_c2s i st) = flow_events st @ [SendRmi 0x3EB2 (0xC3 # 0x3A # le_dword (word_of_int i))]"
  "flow_events (request_lobby_scene st) = flow_events st @ [RequestState 4]"
  using payloads(2)
  by (simp_all add: send_lobby_enter_notify_def send_shard_select_c2s_def send_proxy_rmi_def request_lobby_scene_def
      flow_of_emit is_flow_event_def kSceneLobby_def)


lemma send_fields [simp]:
  "nv_pending (send_lobby_enter_notify st) = nv_pending st" "nv_q (send_lobby_enter_notify st) = nv_q st"
  "nv_pending (send_shard_select_c2s i st) = nv_pending st" "nv_q (send_shard_select_c2s i st) = nv_q st"
  "nv_did_select (send_shard_select_c2s i st) = nv_did_select st"
  "nv_did_notify (send_shard_select_c2s i st) = nv_did_notify st"
  "nv_did_state (send_shard_select_c2s i st) = nv_did_state st"
  "nv_pending (request_lobby_scene st) = nv_pending st" "nv_q (request_lobby_scene st) = nv_q st"
  "nv_did_select (request_lobby_scene st) = nv_did_select st"
  "nv_did_notify (request_lobby_scene st) = nv_did_notify st"
  "nv_did_state (request_lobby_scene st) = nv_did_state st"
  by (simp_all add: send_lobby_enter_notify_def send_shard_select_c2s_def send_proxy_rmi_def request_lobby_scene_def)

text \<open>What the pump of one round does to the flow: nothing is pending, the flow ends, waits or asks.\<close>

lemma pump_idle: "nv_pending st = 0 \<Longrightarrow> pump_pass_shard_select e st = st"
  by (simp add: pump_pass_shard_select_def)

lemma pump_q [simp]: "nv_q (pump_pass_shard_select e st) = nv_q st"
  by (simp add: pump_pass_shard_select_def Let_def clear_pass_shard_flow_def)

definition flow_at :: "nav \<Rightarrow> bool \<Rightarrow> bool \<Rightarrow> bool" where
  "flow_at st selected asked \<longleftrightarrow> nv_pending st \<noteq> 0 \<and> nv_did_notify st = 0
     \<and> (nv_did_select st \<noteq> 0) = selected \<and> (nv_did_state st \<noteq> 0) = asked"

lemma pump_flow_at:
  assumes "flow_at st selected asked"
  defines "sel \<equiv> (if selected then [] else [SendRmi 0x3EB2 (0xC3 # 0x3A # le_dword (word_of_int (nv_index st)))])"
  shows "if ne_scene e = 4
    then flow_events (pump_pass_shard_select e st) = flow_events st @ sel @ [SendRmi 0x3F40 [0xCE, 0x3A]]
      \<and> nv_pending (pump_pass_shard_select e st) = 0
    else flow_events (pump_pass_shard_select e st) = flow_events st @ sel
        @ (if asked \<or> ne_locked e then [] else [RequestState 4])
      \<and> flow_at (pump_pass_shard_select e st) True (asked \<or> \<not> ne_locked e)"
  using assms
  by (auto simp: pump_pass_shard_select_def Let_def flow_of_sends clear_pass_shard_flow_def kSceneLobby_def flow_at_def)

lemma prepare_flow [simp]:
  "flow_events (ensure_getmsg_hook e (note_main_thread e st)) = flow_events st"
  "nv_q (ensure_getmsg_hook e (note_main_thread e st)) = nv_q st"
  "nv_pending (ensure_getmsg_hook e (note_main_thread e st)) = nv_pending st"
  "flow_at (ensure_getmsg_hook e (note_main_thread e st)) a b = flow_at st a b"
  "nv_index (ensure_getmsg_hook e (note_main_thread e st)) = nv_index st"
  by (simp_all add: ensure_getmsg_hook_def note_main_thread_def Let_def flow_of_emit is_flow_event_def flow_at_def)

text \<open>Draining an empty queue, and one with commands.\<close>

lemma drain_empty:
  assumes "nq_ok (nv_q st)" "nq_abs (nv_q st) = []"
  obtains q' where "NavDrainCommands e st = Inr (st\<lparr>nv_q := q'\<rparr>)" "nq_ok q'" "nq_abs q' = []"
  using navring.deq_none [OF assms] by (auto simp: NavDrainCommands.simps [of e st])

lemma take_command_flow:
  "flow_events (take_command e PassShardSelect st) = flow_events st"
  "flow_at (take_command e PassShardSelect st) False False"
  "nv_index (take_command e PassShardSelect st) = nav_shard_index_from_env e"
  by (simp_all add: take_command_def start_nav_wakeup_thread_def Let_def flow_of_emit is_flow_event_def flow_at_def)

lemma drain_commands:
  "nq_ok (nv_q st) \<Longrightarrow> nq_abs (nv_q st) = replicate n PassShardSelect \<Longrightarrow>
   (n = 0 \<Longrightarrow> flow_at st False False \<and> nv_index st = nav_shard_index_from_env e) \<Longrightarrow>
   \<exists>st'. NavDrainCommands e st = Inr st' \<and> nq_ok (nv_q st') \<and> nq_abs (nv_q st') = []
     \<and> flow_events st' = flow_events st \<and> flow_at st' False False \<and> nv_index st' = nav_shard_index_from_env e"
proof (induction n arbitrary: st)
  case 0
  then obtain q' where "NavDrainCommands e st = Inr (st\<lparr>nv_q := q'\<rparr>)" "nq_ok q'" "nq_abs q' = []"
    using drain_empty [of st e] by auto
  then show ?case using 0 by (auto simp: flow_at_def)
next
  case (Suc n)
  then obtain q' where q': "nq_dequeue True (nv_q st) = Inr (Some PassShardSelect, q')" "nq_ok q'"
    "nq_abs q' = replicate n PassShardSelect"
    using navring.deq_some [OF Suc.prems(1), of PassShardSelect "replicate n PassShardSelect"] by auto
  let ?st = "take_command e PassShardSelect (st\<lparr>nv_q := q'\<rparr>)"
  have "\<exists>st'. NavDrainCommands e ?st = Inr st' \<and> nq_ok (nv_q st') \<and> nq_abs (nv_q st') = []
     \<and> flow_events st' = flow_events ?st \<and> flow_at st' False False \<and> nv_index st' = nav_shard_index_from_env e"
    by (rule Suc.IH) (use q' in \<open>simp_all add: take_command_flow\<close>)
  then show ?case using q'(1) by (simp add: NavDrainCommands.simps [of e st] take_command_flow)
qed

lemma NavPump_empty:
  assumes "nq_ok (nv_q st)" "nq_abs (nv_q st) = []"
  obtains q' where "NavPump e st = Inr (pump_pass_shard_select e ((ensure_getmsg_hook e (note_main_thread e st))\<lparr>nv_q := q'\<rparr>))"
    "nq_ok q'" "nq_abs q' = []"
proof -
  obtain q' where "NavDrainCommands e (ensure_getmsg_hook e (note_main_thread e st))
      = Inr ((ensure_getmsg_hook e (note_main_thread e st))\<lparr>nv_q := q'\<rparr>)" "nq_ok q'" "nq_abs q' = []"
    by (rule drain_empty [of "ensure_getmsg_hook e (note_main_thread e st)" e]) (use assms in simp_all)
  then show thesis by (intro that) (simp_all add: NavPump_def)
qed

lemma flow_at_q [simp]: "flow_at (st\<lparr>nv_q := q\<rparr>) a b = flow_at st a b"
  by (simp add: flow_at_def)

text \<open>With no command waiting and no flow under way, pumping does nothing that the game sees.\<close>

definition nav_idle :: "nav_event list \<Rightarrow> nav \<Rightarrow> bool" where
  "nav_idle evs st \<longleftrightarrow> nq_ok (nv_q st) \<and> nq_abs (nv_q st) = [] \<and> nv_pending st = 0 \<and> flow_events st = evs"

interpretation idle_pump: steady NavPump "\<lambda>_. True" "nav_idle evs" for evs
proof
  fix st e
  assume idle: "nav_idle evs st"
  then obtain q' where q': "NavPump e st
    = Inr (pump_pass_shard_select e ((ensure_getmsg_hook e (note_main_thread e st))\<lparr>nv_q := q'\<rparr>))" "nq_ok q'" "nq_abs q' = []"
    using NavPump_empty [of st e] by (auto simp: nav_idle_def)
  have "pump_pass_shard_select e ((ensure_getmsg_hook e (note_main_thread e st))\<lparr>nv_q := q'\<rparr>)
      = (ensure_getmsg_hook e (note_main_thread e st))\<lparr>nv_q := q'\<rparr>"
    by (rule pump_idle) (use idle in \<open>simp add: nav_idle_def\<close>)
  with q' idle show "\<exists>st'. NavPump e st = Inr st' \<and> nav_idle evs st'" by (simp add: nav_idle_def)
qed

lemma pumps_idle:
  assumes "nq_ok (nv_q st)" "nq_abs (nv_q st) = []" "nv_pending st = 0"
  shows "\<exists>st'. nav_pumps es st = Inr st' \<and> flow_events st' = flow_events st \<and> nv_pending st' = 0"
  using idle_pump.run_keeps [of "flow_events st" st es] assms by (auto simp: nav_idle_def nav_pumps_def)

lemma pumps_selected:
  "nq_ok (nv_q st) \<Longrightarrow> nq_abs (nv_q st) = [] \<Longrightarrow> flow_at st True asked \<Longrightarrow>
   \<exists>st'. nav_pumps es st = Inr st'
     \<and> flow_events st' = flow_events st @ (if asked then [] else ask_lobby es) @ tell_lobby es
     \<and> (nv_pending st' \<noteq> 0) = (length (before_lobby es) = length es)"
proof (induction es arbitrary: st asked)
  case Nil
  then show ?case by (simp add: ask_lobby_def tell_lobby_def flow_at_def)
next
  case (Cons e es)
  from NavPump_empty [OF Cons.prems(1,2)] obtain q' where q': "NavPump e st
    = Inr (pump_pass_shard_select e ((ensure_getmsg_hook e (note_main_thread e st))\<lparr>nv_q := q'\<rparr>))" "nq_ok q'" "nq_abs q' = []"
    by blast
  let ?st = "(ensure_getmsg_hook e (note_main_thread e st))\<lparr>nv_q := q'\<rparr>"
  let ?s1 = "pump_pass_shard_select e ?st"
  have fa: "flow_at ?st True asked" using Cons.prems(3) by simp
  note one = pump_flow_at [OF fa, of e]
  have qs: "nq_ok (nv_q ?s1)" "nq_abs (nv_q ?s1) = []" using q' by simp_all
  show ?case
  proof (cases "ne_scene e = 4")
    case True
    then have "nv_pending ?s1 = 0" using one by simp
    from pumps_idle [OF qs this, of es] show ?thesis
      using True one q'(1) by (auto simp: ask_lobby_def tell_lobby_def)
  next
    case False
    then have "flow_at ?s1 True (asked \<or> \<not> ne_locked e)" using one by simp
    from Cons.IH [OF qs this] show ?thesis
      using False one q'(1) by (auto simp: ask_lobby_def tell_lobby_def)
  qed
qed

text \<open> C16: shard-select commands that wait when the pump runs start one flow. Whatever the later pumps
  see, the flow selects the shard of the environment first, asks for the lobby at most once and only when a pump before the
  lobby sees the transition lock off, announces the lobby once when a pump sees it, and is over then.\<close>

theorem pump_runs_one_flow:
  assumes "nq_ok (nv_q st)" "nq_abs (nv_q st) = replicate n PassShardSelect" "0 < n"
  shows "\<exists>st'. nav_pumps (e # es) st = Inr st'
    \<and> flow_events st' = flow_events st @ shard_flow (nav_shard_index_from_env e) (e # es)
    \<and> nav_work_pending st' = (length (before_lobby (e # es)) = length (e # es))"
proof -
  let ?p = "ensure_getmsg_hook e (note_main_thread e st)"
  have "\<exists>st'. NavDrainCommands e ?p = Inr st' \<and> nq_ok (nv_q st') \<and> nq_abs (nv_q st') = []
     \<and> flow_events st' = flow_events ?p \<and> flow_at st' False False \<and> nv_index st' = nav_shard_index_from_env e"
    by (rule drain_commands [of ?p n]) (use assms in simp_all)
  then obtain s1 where s1: "NavDrainCommands e ?p = Inr s1" "nq_ok (nv_q s1)" "nq_abs (nv_q s1) = []"
    "flow_events s1 = flow_events st" "flow_at s1 False False" "nv_index s1 = nav_shard_index_from_env e" by auto
  let ?s2 = "pump_pass_shard_select e s1"
  have pump: "NavPump e st = Inr ?s2" using s1(1) by (simp add: NavPump_def)
  note one = pump_flow_at [OF s1(5), of e]
  have qs: "nq_ok (nv_q ?s2)" "nq_abs (nv_q ?s2) = []" using s1 by simp_all
  show ?thesis
  proof (cases "ne_scene e = 4")
    case True
    then have "nv_pending ?s2 = 0" using one by simp
    from pumps_idle [OF qs this, of es] show ?thesis
      using True one pump s1(4,6) by (auto simp: shard_flow_def ask_lobby_def tell_lobby_def nav_work_pending_def)
  next
    case False
    then have "flow_at ?s2 True (\<not> ne_locked e)" using one by simp
    from pumps_selected [OF qs this, of es] show ?thesis
      using False one pump s1(4,6) by (auto simp: shard_flow_def ask_lobby_def tell_lobby_def nav_work_pending_def)
  qed
qed

definition demo_env :: "int \<Rightarrow> bool \<Rightarrow> nav_env" where
  "demo_env scene locked = \<lparr>ne_tid = 7, ne_module = True, ne_hook_ok = True, ne_thread_ok = True,
     ne_var = Some [50], ne_scene = scene, ne_locked = locked\<rparr>"

definition demo_nav :: nav where
  "demo_nav = nav_start\<lparr>nv_q := navq_start\<lparr>nq_slots := PassShardSelect # replicate 15 CmdNone, nq_tail := 1\<rparr>\<rparr>"

lemma demo_nav_q: "nq_ok (nv_q demo_nav)" "nq_abs (nv_q demo_nav) = replicate 1 PassShardSelect" "flow_events demo_nav = []"
  by (simp_all add: demo_nav_def nav_start_def nq_ok_def nq_abs_def navq_start_def flow_events_def)

theorem pump_runs_one_flow_witness:
  "\<exists>st'. nav_pumps [demo_env 3 True, demo_env 3 False, demo_env 4 False, demo_env 4 False] demo_nav = Inr st'
    \<and> flow_events st' = [SendRmi 0x3EB2 [0xC3, 0x3A, 2, 0, 0, 0], RequestState 4, SendRmi 0x3F40 [0xCE, 0x3A]]
    \<and> \<not> nav_work_pending st'"
  using pump_runs_one_flow [OF demo_nav_q(1,2), of "demo_env 3 True" "[demo_env 3 False, demo_env 4 False, demo_env 4 False]"]
  by (simp add: demo_nav_q(3) demo_env_def shard_flow_def ask_lobby_def tell_lobby_def nav_shard_index_from_env_def
      c_atoi_def is_space_def digit_val_def le_dword_def)

text \<open>The wake-up thread ends after at most 120 posts and always gives its flag back.\<close>

lemma wakeup_posts: "\<exists>k\<le>n. nv_trace (wakeup_rounds n seen st) = nv_trace st @ replicate k (PostNull (nv_main_tid st))"
proof (induction n arbitrary: st)
  case 0
  then show ?case by simp
next
  case (Suc n)
  from Suc [of "wake_main_thread st"] obtain k where k: "k \<le> n"
    "nv_trace (wakeup_rounds n seen (wake_main_thread st)) = nv_trace (wake_main_thread st) @ replicate k (PostNull (nv_main_tid (wake_main_thread st)))"
    by blast
  have m: "nv_main_tid (wake_main_thread st) = nv_main_tid st" by (simp add: wake_main_thread_def)
  show ?case
  proof (cases "seen (120 - Suc n)")
    case True
    then show ?thesis using k m
      by (cases "nv_main_tid st = 0")
        (auto simp: wake_main_thread_def emit_def intro: exI [of _ k] exI [of _ "Suc k"])
  next
    case False
    then show ?thesis by (intro exI [of _ 0]) simp
  qed
qed

lemma nav_wakeup_thread_bounded:
  "nv_running (nav_wakeup_thread seen st) = 0"
  "\<exists>k\<le>120. nv_trace (nav_wakeup_thread seen st) = nv_trace st @ replicate k (PostNull (nv_main_tid st))"
  using wakeup_posts [of 120 seen st] by (simp_all add: nav_wakeup_thread_def)

end
