(* ===== verification/HandlerPipe.thy ===== *)
theory HandlerPipe
  imports Prelude
begin

text \<open>
  The command pipe, \<open>src/diagnostics/handler_pipe.cpp\<close>: connecting, reading into the pending buffer,
  cutting it into lines, and answering them. Every function that names the lock in its name runs under it and is one
  step; the connect loop gives the lock up while it sleeps, which is not modelled as a step of its own.

  The pending buffer is all of its 8192 bytes, also the stale ones behind the pending length: the search
  for a newline does not stop at the length. Windows' answers are lists, consumed in order. What is
  written to the pipe and what is queued for the navigation is a trace.
\<close>

section \<open>State\<close>

definition kReadChunk :: nat where "kReadChunk = 4096"
definition kPendingSize :: nat where "kPendingSize = 8192"

datatype hp_event =
    HpConnected                  \<comment> \<open>the connect is logged\<close>
  | HpEnqueue                    \<comment> \<open>\<open>NavEnqueueCommand(PassShardSelect)\<close>\<close>
  | HpWrite "u8 list"            \<comment> \<open>\<open>WriteFile\<close>\<close>

record hp =
  hp_open :: bool                \<comment> \<open>\<open>g_pipe\<close> is valid\<close>
  hp_logged :: int               \<comment> \<open>\<open>g_connected_logged\<close>\<close>
  hp_running :: int
  hp_thread :: bool              \<comment> \<open>\<open>g_thread\<close> is set\<close>
  hp_lock_init :: bool
  hp_buf :: "u8 list"            \<comment> \<open>\<open>g_read_pending\<close>\<close>
  hp_len :: size_t               \<comment> \<open>\<open>g_read_pending_len\<close>\<close>
  hp_trace :: "hp_event list"

definition hp_start :: hp where
  "hp_start = \<lparr>hp_open = False, hp_logged = 0, hp_running = 0, hp_thread = False, hp_lock_init = False,
     hp_buf = replicate kPendingSize 0, hp_len = 0, hp_trace = []\<rparr>"

definition hp_ev :: "hp_event \<Rightarrow> hp \<Rightarrow> hp" where
  "hp_ev e st = st\<lparr>hp_trace := hp_trace st @ [e]\<rparr>"

definition hp_ensure_lock :: "hp \<Rightarrow> hp" where
  "hp_ensure_lock st = st\<lparr>hp_lock_init := True\<rparr>"

definition close_pipe_locked :: "hp \<Rightarrow> hp" where
  "close_pipe_locked st = st\<lparr>hp_open := False, hp_len := 0, hp_logged := 0\<rparr>"

section \<open>Connecting\<close>

text \<open>One answer per attempt: opened, or an error; without further answers the attempts find no pipe.\<close>

definition ERROR_FILE_NOT_FOUND :: u32 where "ERROR_FILE_NOT_FOUND = 2"
definition ERROR_PIPE_BUSY :: u32 where "ERROR_PIPE_BUSY = 231"
definition ERROR_NO_DATA :: u32 where "ERROR_NO_DATA = 232"
definition ERROR_BROKEN_PIPE :: u32 where "ERROR_BROKEN_PIPE = 109"
definition ERROR_PIPE_NOT_CONNECTED :: u32 where "ERROR_PIPE_NOT_CONNECTED = 233"
definition ERROR_MORE_DATA :: u32 where "ERROR_MORE_DATA = 234"

primrec connect_attempts :: "nat \<Rightarrow> u32 option list \<Rightarrow> hp \<Rightarrow> bool \<times> hp" where
  "connect_attempts 0 answers st = (False, st)"
| "connect_attempts (Suc n) answers st =
     (case answers of
        [] \<Rightarrow> connect_attempts n [] st
      | None # _ \<Rightarrow>
          (True, let st1 = st\<lparr>hp_open := True\<rparr>
                 in if hp_logged st1 = 0 then hp_ev HpConnected (st1\<lparr>hp_logged := 1\<rparr>) else st1)
      | Some err # answers' \<Rightarrow>
          if err \<noteq> ERROR_PIPE_BUSY \<and> err \<noteq> ERROR_FILE_NOT_FOUND then (False, st)
          else connect_attempts n answers' st)"

definition connect_pipe_locked :: "u32 option list \<Rightarrow> hp \<Rightarrow> bool \<times> hp" where
  "connect_pipe_locked answers st = (if hp_open st then (True, st) else connect_attempts 300 answers st)"

section \<open>Answering\<close>

record hp_env =
  hpe_connect :: "u32 option list"
  hpe_write :: "u8 list \<Rightarrow> bool"  \<comment> \<open>does \<open>WriteFile\<close> take these bytes\<close>

definition write_response_locked :: "hp_env \<Rightarrow> u8 list \<Rightarrow> hp \<Rightarrow> bool \<times> hp" where
  "write_response_locked e line st =
     (let (ok, st1) = connect_pipe_locked (hpe_connect e) st
      in if \<not> ok then (False, st1)
         else let st2 = hp_ev (HpWrite line) st1
              in if \<not> hpe_write e line then (False, st2)
                 else (hpe_write e [10], hp_ev (HpWrite [10]) st2))"

definition ascii :: "string \<Rightarrow> u8 list" where
  "ascii s = map (\<lambda>c. word_of_nat (of_char c)) s"

definition nav_command_list :: "u8 list" where
  "nav_command_list = ascii ''nav_pass_shard_select''"

definition dispatch_line :: "hp_env \<Rightarrow> u8 list \<Rightarrow> hp \<Rightarrow> bool \<times> hp" where
  "dispatch_line e line st =
     (if line = [] then (True, st)
      else if line = ascii ''commands'' then write_response_locked e nav_command_list st
      else if line = ascii ''nav_pass_shard_select'' then write_response_locked e (ascii ''ok'') (hp_ev HpEnqueue st)
      else write_response_locked e (take 95 (ascii ''error: unknown command '' @ line)) st)"

section \<open>Lines\<close>

text \<open>\<open>strchr\<close> for a character that is not 0: the offset, or none before the terminator.\<close>

fun c_strchr :: "u8 \<Rightarrow> u8 list \<Rightarrow> nat option res" where
  "c_strchr c [] = Inl OobRead"
| "c_strchr c (x # xs) =
     (if x = c then Inr (Some 0) else if x = 0 then Inr None
      else bindR (c_strchr c xs) (\<lambda>r. Inr (map_option Suc r)))"

definition c_string :: "u8 list \<Rightarrow> u8 list" where
  "c_string cs = takeWhile (\<lambda>c. c \<noteq> 0) cs"

lemma c_strchr_bound: "c_strchr c cs = Inr (Some k) \<Longrightarrow> k < length cs"
  by (induction cs arbitrary: k) (auto simp: bindR_eq_Inr split: if_splits)

definition consume_line :: "hp_env \<Rightarrow> nat \<Rightarrow> hp \<Rightarrow> hp res" where
  "consume_line e start st =
     bindR (c_strchr 13 (drop start (hp_buf st))) (\<lambda>cr.
       let st1 = (case cr of None \<Rightarrow> st | Some j \<Rightarrow> st\<lparr>hp_buf := (hp_buf st)[start + j := 0]\<rparr>)
       in Inr (snd (dispatch_line e (c_string (drop start (hp_buf st1))) st1)))"

lemma hp_buf_attempts [simp]: "hp_buf (snd (connect_attempts n as st)) = hp_buf st"
  by (induction n arbitrary: "as" st) (auto simp: hp_ev_def Let_def split: list.splits option.splits)

lemma hp_buf_connect [simp]: "hp_buf (snd (connect_pipe_locked as st)) = hp_buf st"
  by (simp add: connect_pipe_locked_def del: connect_attempts.simps)

lemma hp_buf_response [simp]: "hp_buf (snd (write_response_locked e line st)) = hp_buf st"
proof -
  obtain ok st1 where c: "connect_pipe_locked (hpe_connect e) st = (ok, st1)" by fastforce
  have "hp_buf st1 = hp_buf st"
    using hp_buf_connect [of "hpe_connect e" st] c by simp
  then show ?thesis using c by (simp add: write_response_locked_def Let_def hp_ev_def)
qed

lemma hp_buf_dispatch [simp]: "hp_buf (snd (dispatch_line e line st)) = hp_buf st"
  by (simp add: dispatch_line_def) (simp add: hp_ev_def)

lemma consume_length: "consume_line e start st = Inr st' \<Longrightarrow> length (hp_buf st') = length (hp_buf st)"
  by (auto simp: consume_line_def bindR_eq_Inr Let_def split: option.splits)

function scan_lines :: "hp_env \<Rightarrow> nat \<Rightarrow> hp \<Rightarrow> (nat \<times> hp) res" where
  "scan_lines e start st =
     bindR (c_strchr 10 (drop start (hp_buf st))) (\<lambda>nl.
       case nl of
         None \<Rightarrow> Inr (start, st)
       | Some k \<Rightarrow>
           bindR (consume_line e start (st\<lparr>hp_buf := (hp_buf st)[start + k := 0]\<rparr>)) (\<lambda>st1.
           scan_lines e (start + k + 1) st1))"
  by pat_completeness auto
termination
  by (relation "measure (\<lambda>(e, start, st). length (hp_buf st) - start)")
    (auto dest!: consume_length c_strchr_bound)

declare scan_lines.simps [simp del]

section \<open>Reading\<close>

datatype hp_read = ReadOk "u8 list" | ReadFail u32 "u8 list"

text \<open>
  The read loop; the first component says that the pipe was not lost. \<open>ReadFile\<close> gives at most the chunk's size, and
  without further answers there is no data.
\<close>

fun read_loop :: "hp_read list \<Rightarrow> hp \<Rightarrow> bool \<times> hp" where
  "read_loop [] st = (True, st)"
| "read_loop (r # rs) st =
     (let go = (\<lambda>got. let chunk = take kReadChunk got in
          if chunk = [] then (True, st)
          else if unat (hp_len st + word_of_nat (length chunk)) \<ge> kPendingSize then (True, st\<lparr>hp_len := 0\<rparr>)
          else read_loop rs (st\<lparr>hp_buf := take (unat (hp_len st)) (hp_buf st) @ chunk
                                  @ drop (unat (hp_len st) + length chunk) (hp_buf st),
                                hp_len := hp_len st + word_of_nat (length chunk)\<rparr>))
      in case r of
           ReadOk got \<Rightarrow> go got
         | ReadFail err got \<Rightarrow>
             if err = ERROR_NO_DATA then (True, st)
             else if err = ERROR_BROKEN_PIPE \<or> err = ERROR_PIPE_NOT_CONNECTED then (False, st)
             else if err = ERROR_MORE_DATA then go got
             else (False, st))"

definition read_more_locked :: "hp_env \<Rightarrow> hp_read list \<Rightarrow> hp \<Rightarrow> (bool \<times> hp) res" where
  "read_more_locked e reads st =
     (let (ok, st1) = connect_pipe_locked (hpe_connect e) st
      in if \<not> ok then Inr (False, st1)
         else case read_loop reads st1 of
           (False, st2) \<Rightarrow> Inr (False, close_pipe_locked st2)
         | (True, st2) \<Rightarrow>
             bindR (scan_lines e 0 st2) (\<lambda>(start, st3).
               let remaining = hp_len st3 - word_of_nat start
               in if start \<noteq> 0 \<and> remaining > 0 then
                    (if start + unat remaining > length (hp_buf st3) then Inl OobWrite
                     else Inr (True, st3\<lparr>hp_buf := take (unat remaining) (drop start (hp_buf st3))
                                            @ drop (unat remaining) (hp_buf st3), hp_len := remaining\<rparr>))
                  else Inr (True, st3\<lparr>hp_len := remaining\<rparr>)))"

section \<open>The thread\<close>

text \<open>The reader thread: one round per element, until \<open>g_running\<close> is seen as 0; what it is then is the stop's doing.\<close>

fun reader_rounds :: "(hp_env \<times> hp_read list) list \<Rightarrow> hp \<Rightarrow> hp res" where
  "reader_rounds [] st = Inr st"
| "reader_rounds ((e, reads) # rounds) st =
     (if hp_running st = 0 then Inr st
      else bindR (read_more_locked e reads st) (\<lambda>(_, st1). reader_rounds rounds st1))"

definition reader_thread :: "(hp_env \<times> hp_read list) list \<Rightarrow> hp \<Rightarrow> hp res" where
  "reader_thread rounds st = reader_rounds rounds (hp_ensure_lock st)"

definition pipe_start :: "bool \<Rightarrow> hp \<Rightarrow> hp" where
  "pipe_start thread_ok st =
     (if hp_running st \<noteq> 0 then st else (hp_ensure_lock (st\<lparr>hp_running := 1\<rparr>))\<lparr>hp_thread := thread_ok\<rparr>)"

definition pipe_stop :: "hp \<Rightarrow> hp" where
  "pipe_stop st =
     (let st1 = st\<lparr>hp_running := 0, hp_thread := False\<rparr>
      in if hp_lock_init st1 then (close_pipe_locked st1)\<lparr>hp_lock_init := False\<rparr> else st1)"

section \<open>Lines of a stream\<close>

text \<open>The complete lines of a stream and what follows the last newline.\<close>

fun split_lines :: "u8 list \<Rightarrow> u8 list list \<times> u8 list" where
  "split_lines [] = ([], [])"
| "split_lines (c # cs) =
     (let (ls, r) = split_lines cs
      in if c = 10 then ([] # ls, r)
         else (case ls of [] \<Rightarrow> ([], c # r) | l # ls' \<Rightarrow> ((c # l) # ls', r)))"

lemma split_lines_none: "10 \<notin> set s \<Longrightarrow> split_lines s = ([], s)"
  by (induction s) auto

lemma split_lines_line: "10 \<notin> set l \<Longrightarrow> split_lines (l @ 10 # s) = (l # fst (split_lines s), snd (split_lines s))"
  by (induction l) (auto simp: case_prod_beta Let_def)

lemma split_lines_append:
  "split_lines (a @ b) = (fst (split_lines a) @ fst (split_lines (snd (split_lines a) @ b)),
                          snd (split_lines (snd (split_lines a) @ b)))"
proof (induction a)
  case Nil
  then show ?case by simp
next
  case (Cons c a)
  then show ?case
    by (cases "fst (split_lines a)") (auto simp: case_prod_beta Let_def split: list.splits)
qed

lemma split_lines_cases:
  obtains "10 \<notin> set s" | l d where "s = l @ 10 # d" "10 \<notin> set l"
  by (metis split_list_first)

lemma split_lines_rest: "length (snd (split_lines s)) \<le> length s" "set (snd (split_lines s)) \<subseteq> set s"
  "10 \<notin> set (snd (split_lines s))"
proof (induction s)
  case (Cons c s)
  { case 1 show ?case using Cons(1) by (auto simp: case_prod_beta Let_def split: list.splits) }
  { case 2 show ?case using Cons(2) by (auto simp: case_prod_beta Let_def split: list.splits) }
  { case 3 show ?case using Cons(3) by (auto simp: case_prod_beta Let_def split: list.splits) }
qed simp_all

lemma split_lines_shorter: "10 \<in> set s \<Longrightarrow> length (snd (split_lines s)) < length s"
  using split_lines_rest(1) by (auto simp: split_lines_line less_Suc_eq_le trans_le_add2 dest!: split_list_first)

section \<open>What a line is answered with\<close>

definition response :: "hp_env \<Rightarrow> u8 list \<Rightarrow> hp_event list" where
  "response e txt = HpWrite txt # (if hpe_write e txt then [HpWrite [10]] else [])"

definition answer_line :: "hp_env \<Rightarrow> u8 list \<Rightarrow> hp_event list" where
  "answer_line e l =
     (let line = takeWhile (\<lambda>c. c \<noteq> 13) l
      in if line = [] then []
         else if line = ascii ''commands'' then response e nav_command_list
         else if line = ascii ''nav_pass_shard_select'' then HpEnqueue # response e (ascii ''ok'')
         else response e (take 95 (ascii ''error: unknown command '' @ line)))"

definition answers :: "hp_env \<Rightarrow> u8 list list \<Rightarrow> hp_event list" where
  "answers e ls = concat (map (answer_line e) ls)"

lemma answers_simps [simp]:
  "answers e [] = []" "answers e (l # ls) = answer_line e l @ answers e ls" "answers e (ls @ ms) = answers e ls @ answers e ms"
  by (simp_all add: answers_def)

lemma write_response_open:
  "hp_open st \<Longrightarrow> snd (write_response_locked e txt st) = st\<lparr>hp_trace := hp_trace st @ response e txt\<rparr>"
  by (simp add: write_response_locked_def connect_pipe_locked_def response_def hp_ev_def Let_def)

lemma dispatch_open:
  assumes "hp_open st"
  shows "snd (dispatch_line e (takeWhile (\<lambda>c. c \<noteq> 13) l) st) = st\<lparr>hp_trace := hp_trace st @ answer_line e l\<rparr>"
  using assms by (simp add: dispatch_line_def answer_line_def Let_def write_response_open hp_ev_def)

section \<open>Scanning a clean buffer\<close>

lemma c_strchr_none: "c \<notin> set xs \<Longrightarrow> 0 \<in> set xs \<Longrightarrow> c_strchr c xs = Inr None"
  by (induction xs) auto

lemma c_strchr_some: "c \<notin> set l \<Longrightarrow> 0 \<notin> set l \<Longrightarrow> c_strchr c (l @ c # xs) = Inr (Some (length l))"
  by (induction l) auto

lemma c_strchr_end: "c \<notin> set l \<Longrightarrow> c \<noteq> 0 \<Longrightarrow> c_strchr c (l @ 0 # xs) = Inr None"
  by (induction l) auto

lemma consume_line_clean:
  assumes b: "hp_buf st = pre @ l @ 0 # post" and l: "0 \<notin> set l" and o: "hp_open st"
  shows "\<exists>l'. length l' = length l \<and> set l' \<subseteq> insert 0 (set l) \<and> consume_line e (length pre) st =
    Inr (st\<lparr>hp_buf := pre @ l' @ 0 # post, hp_trace := hp_trace st @ answer_line e l\<rparr>)"
proof (cases "13 \<in> set l")
  case False
  have c: "c_string (l @ 0 # post) = takeWhile (\<lambda>c. c \<noteq> 13) l"
  proof -
    have "c_string (l @ 0 # post) = l" using l by (auto simp: c_string_def takeWhile_append)
    moreover have "takeWhile (\<lambda>c. c \<noteq> 13) l = l" using False by (auto simp: takeWhile_eq_all_conv)
    ultimately show ?thesis by metis
  qed
  have "consume_line e (length pre) st = Inr (snd (dispatch_line e (takeWhile (\<lambda>c. c \<noteq> 13) l) st))"
    using b c c_strchr_end [of 13 l post] False by (simp add: consume_line_def Let_def)
  then show ?thesis using dispatch_open [OF o] b by (intro exI [of _ l]) auto
next
  case True
  then obtain a d where s: "l = a @ 13 # d" "13 \<notin> set a" by (metis split_list_first)
  have c: "c_string (a @ 0 # d @ 0 # post) = takeWhile (\<lambda>c. c \<noteq> 13) l"
    using l s by (auto simp: c_string_def takeWhile_append takeWhile_tail)
  let ?st = "st\<lparr>hp_buf := pre @ a @ 0 # d @ 0 # post\<rparr>"
  have "c_strchr 13 (drop (length pre) (hp_buf st)) = Inr (Some (length a))"
    using b s l c_strchr_some [of 13 a "d @ 0 # post"] by simp
  moreover have "(hp_buf st)[length pre + length a := 0] = pre @ a @ 0 # d @ 0 # post"
    using b s by (simp add: list_update_append)
  ultimately have "consume_line e (length pre) st = Inr (snd (dispatch_line e (takeWhile (\<lambda>c. c \<noteq> 13) l) ?st))"
    using c by (simp add: consume_line_def Let_def)
  moreover have "hp_open ?st" using o by simp
  ultimately show ?thesis using dispatch_open [of ?st e l] s
    by (intro exI [of _ "a @ 0 # d"]) auto
qed

lemma scan_lines_clean:
  "hp_buf st = pre @ data @ stale \<Longrightarrow> 0 \<notin> set data \<Longrightarrow> 0 \<in> set stale \<Longrightarrow> 10 \<notin> set stale \<Longrightarrow> 10 \<notin> set pre \<Longrightarrow> hp_open st \<Longrightarrow>
   \<exists>pre'. length pre' + length (snd (split_lines data)) = length pre + length data \<and> 10 \<notin> set pre' \<and>
     scan_lines e (length pre) st = Inr (length pre',
       st\<lparr>hp_buf := pre' @ snd (split_lines data) @ stale, hp_trace := hp_trace st @ answers e (fst (split_lines data))\<rparr>)"
proof (induction "length data" arbitrary: data pre st rule: less_induct)
  case less
  show ?case
  proof (cases data rule: split_lines_cases)
    case 1
    have "c_strchr 10 (data @ stale) = Inr None" using 1 less.prems by (intro c_strchr_none) auto
    then show ?thesis using 1 less.prems
      by (intro exI [of _ pre]) (simp add: scan_lines.simps [of e "length pre" st] split_lines_none)
  next
    case (2 l d)
    have z: "0 \<notin> set l" "0 \<notin> set d" using 2 less.prems by auto
    let ?st = "st\<lparr>hp_buf := pre @ l @ 0 # d @ stale\<rparr>"
    have nl: "c_strchr 10 (drop (length pre) (hp_buf st)) = Inr (Some (length l))"
      using 2 less.prems(1) c_strchr_some [of 10 l "d @ stale"] z by simp
    have up: "(hp_buf st)[length pre + length l := 0] = pre @ l @ 0 # d @ stale"
      using 2 less.prems(1) by (simp add: list_update_append)
    from consume_line_clean [of ?st pre l "d @ stale" e] z(1) less.prems(6) obtain l' where l':
      "length l' = length l" "set l' \<subseteq> insert 0 (set l)"
      "consume_line e (length pre) ?st = Inr (?st\<lparr>hp_buf := pre @ l' @ 0 # d @ stale, hp_trace := hp_trace st @ answer_line e l\<rparr>)"
      by auto
    let ?pre = "pre @ l' @ [0]"
    let ?s1 = "?st\<lparr>hp_buf := pre @ l' @ 0 # d @ stale, hp_trace := hp_trace st @ answer_line e l\<rparr>"
    have "\<exists>pre'. length pre' + length (snd (split_lines d)) = length ?pre + length d \<and> 10 \<notin> set pre' \<and>
      scan_lines e (length ?pre) ?s1 = Inr (length pre',
        ?s1\<lparr>hp_buf := pre' @ snd (split_lines d) @ stale, hp_trace := hp_trace ?s1 @ answers e (fst (split_lines d))\<rparr>)"
      by (rule less.hyps) (use 2 z less.prems l' in auto)
    then obtain pre' where pre': "length pre' + length (snd (split_lines d)) = length ?pre + length d" "10 \<notin> set pre'"
      "scan_lines e (length ?pre) ?s1 = Inr (length pre',
        ?s1\<lparr>hp_buf := pre' @ snd (split_lines d) @ stale, hp_trace := hp_trace ?s1 @ answers e (fst (split_lines d))\<rparr>)" by blast
    have "scan_lines e (length pre) st = scan_lines e (length ?pre) ?s1"
      using nl up l' by (simp add: scan_lines.simps [of e "length pre" st])
    then show ?thesis using pre' l'(1) 2
      by (intro exI [of _ pre']) (simp add: split_lines_line)
  qed
qed


section \<open>Reads\<close>

definition hp_ok :: "hp \<Rightarrow> bool" where
  "hp_ok st \<longleftrightarrow> length (hp_buf st) = 8192 \<and> last (hp_buf st) = 0 \<and> unat (hp_len st) < 8192
     \<and> 10 \<notin> set (hp_buf st) \<and> 0 \<notin> set (take (unat (hp_len st)) (hp_buf st))"

definition pending :: "hp \<Rightarrow> u8 list" where
  "pending st = take (unat (hp_len st)) (hp_buf st)"

lemma read_loop_chunks:
  "unat (hp_len st) + length (concat cs) < 8192 \<Longrightarrow> length (hp_buf st) = 8192 \<Longrightarrow>
   (\<And>c. c \<in> set cs \<Longrightarrow> c \<noteq> [] \<and> length c \<le> 4096) \<Longrightarrow>
   read_loop (map ReadOk cs @ rs) st = read_loop rs (st\<lparr>
     hp_buf := take (unat (hp_len st)) (hp_buf st) @ concat cs @ drop (unat (hp_len st) + length (concat cs)) (hp_buf st),
     hp_len := hp_len st + word_of_nat (length (concat cs))\<rparr>)"
proof (induction cs arbitrary: st)
  case Nil
  then show ?case by simp
next
  case (Cons c cs)
  have c: "c \<noteq> []" "length c \<le> 4096" using Cons.prems(3) by auto
  have u: "unat (hp_len st + word_of_nat (length c)) = unat (hp_len st) + length c"
    using Cons.prems(1) by (simp add: unat_u32_add_small unat_u32_of_nat)
  let ?st = "st\<lparr>hp_buf := take (unat (hp_len st)) (hp_buf st) @ c @ drop (unat (hp_len st) + length c) (hp_buf st),
     hp_len := hp_len st + word_of_nat (length c)\<rparr>"
  have "read_loop (map ReadOk (c # cs) @ rs) st = read_loop (map ReadOk cs @ rs) ?st"
    using c u Cons.prems(1) by (simp add: Let_def kReadChunk_def kPendingSize_def)
  also have "\<dots> = read_loop rs (?st\<lparr>
     hp_buf := take (unat (hp_len ?st)) (hp_buf ?st) @ concat cs @ drop (unat (hp_len ?st) + length (concat cs)) (hp_buf ?st),
     hp_len := hp_len ?st + word_of_nat (length (concat cs))\<rparr>)"
    by (rule Cons.IH) (use Cons.prems u in auto)
  also have "\<dots> = read_loop rs (st\<lparr>
     hp_buf := take (unat (hp_len st)) (hp_buf st) @ concat (c # cs) @ drop (unat (hp_len st) + length (concat (c # cs))) (hp_buf st),
     hp_len := hp_len st + word_of_nat (length (concat (c # cs)))\<rparr>)"
    using u Cons.prems(1,2) by (simp add: ac_simps)
  finally show ?case .
qed

text \<open>Moving the rest to the front leaves a buffer without newlines that ends with a terminator.\<close>

lemma moved_buffer:
  assumes "length (pre @ r @ stale) = 8192" "length r < 8192" "stale \<noteq> []" "last stale = (0 :: u8)"
    and "10 \<notin> set pre" "10 \<notin> set r" "10 \<notin> set stale"
  defines "buf \<equiv> r @ drop (length r) (pre @ r @ stale)"
  shows "length buf = 8192" "last buf = 0" "10 \<notin> set buf"
proof -
  show "length buf = 8192" using assms(1,2) by (simp add: buf_def)
  have "length r < length (pre @ r @ stale)" using assms(1,2) by linarith
  then have "drop (length r) (pre @ r @ stale) \<noteq> []" by (simp only: drop_eq_Nil not_le)
  then have "last buf = last (pre @ r @ stale)" by (simp add: buf_def last_append last_drop del: drop_append)
  then show "last buf = 0" using assms(3,4) by simp
  show "10 \<notin> set buf" using assms(5-7) by (auto simp: buf_def dest!: in_set_dropD)
qed

text \<open>Once the lines are answered, what is left goes to the front of the buffer.\<close>

lemma rest_moved:
  assumes "hp_open st" "read_loop reads st = (True, s2)" "scan_lines e 0 s2 = Inr (length pre, s3)"
    and "hp_buf s3 = pre @ r @ stale" "length (hp_buf s3) = 8192" "length r < 8192"
    and "hp_len s3 - word_of_nat (length pre) = word_of_nat (length r)"
  shows "read_more_locked e reads st =
    Inr (True, s3\<lparr>hp_buf := r @ drop (length r) (pre @ r @ stale), hp_len := word_of_nat (length r)\<rparr>)"
proof -
  have u: "unat (word_of_nat (length r) :: u32) = length r" using assms(6) by (simp add: unat_u32_of_nat)
  have run: "read_more_locked e reads st =
    (if length pre \<noteq> 0 \<and> (word_of_nat (length r) :: u32) > 0
     then Inr (True, s3\<lparr>hp_buf := r @ drop (length r) (pre @ r @ stale), hp_len := word_of_nat (length r)\<rparr>)
     else Inr (True, s3\<lparr>hp_len := word_of_nat (length r)\<rparr>))"
    using assms(1-5,7) u by (cases s3) (auto simp: read_more_locked_def connect_pipe_locked_def Let_def)
  show ?thesis
  proof (cases "length pre \<noteq> 0 \<and> r \<noteq> []")
    case True
    then have "(word_of_nat (length r) :: u32) > 0" using u by (simp add: word_less_nat_alt)
    with True run show ?thesis by simp
  next
    case False
    then have "r @ drop (length r) (pre @ r @ stale) = hp_buf s3" using assms(4) by auto
    moreover have "\<not> (length pre \<noteq> 0 \<and> (word_of_nat (length r) :: u32) > 0)" using False by auto
    ultimately show ?thesis unfolding run by simp
  qed
qed

text \<open>One call: the lines that the pending text and the new chunks complete are answered, the rest is pending.\<close>

lemma read_more_chunks:
  assumes ok: "hp_ok st" and o: "hp_open st"
    and fit: "length (pending st) + length (concat cs) < 8192"
    and cs: "\<And>c. c \<in> set cs \<Longrightarrow> c \<noteq> [] \<and> length c \<le> 4096 \<and> 0 \<notin> set c"
  obtains st' where "read_more_locked e (map ReadOk cs) st = Inr (True, st')" "hp_ok st'" "hp_open st'"
    "pending st' = snd (split_lines (pending st @ concat cs))"
    "hp_trace st' = hp_trace st @ answers e (fst (split_lines (pending st @ concat cs)))" "hp_running st' = hp_running st"
proof -
  let ?n = "unat (hp_len st)" and ?new = "concat cs"
  let ?data = "pending st @ ?new" and ?stale = "drop (?n + length ?new) (hp_buf st)"
  let ?r = "snd (split_lines ?data)"
  have k: "length (hp_buf st) = 8192" "last (hp_buf st) = 0" "?n < 8192" "10 \<notin> set (hp_buf st)" "0 \<notin> set (pending st)"
    using ok by (auto simp: hp_ok_def pending_def)
  have pl: "length (pending st) = ?n" using k by (simp add: pending_def)
  have fit': "?n + length ?new < 8192" using fit pl by simp
  let ?s2 = "st\<lparr>hp_buf := ?data @ ?stale, hp_len := hp_len st + word_of_nat (length ?new)\<rparr>"
  have rl: "read_loop (map ReadOk cs) st = (True, ?s2)"
    using read_loop_chunks [of st cs "[]"] fit' k(1) cs by (simp add: pending_def)
  have sl: "?stale \<noteq> []" using fit' k(1) by simp
  have ls: "last ?stale = 0" using k(2) sl by (simp add: last_drop)
  have st: "0 \<in> set ?stale" "10 \<notin> set ?stale" using ls last_in_set [OF sl] k(4) by (auto dest: in_set_dropD)
  have dz: "0 \<notin> set ?data" using k(5) cs by auto
  obtain pre where pre: "length pre + length ?r = length ?data" "10 \<notin> set pre"
    "scan_lines e 0 ?s2 = Inr (length pre, ?s2\<lparr>hp_buf := pre @ ?r @ ?stale,
       hp_trace := hp_trace st @ answers e (fst (split_lines ?data))\<rparr>)"
    using scan_lines_clean [of ?s2 "[]" ?data ?stale e] dz st o by auto
  have ln: "length ?data = ?n + length ?new" using pl by simp
  have rem: "hp_len st + word_of_nat (length ?new) - word_of_nat (length pre) = word_of_nat (length ?r)"
  proof -
    have "hp_len st + word_of_nat (length ?new) = word_of_nat (?n + length ?new)" by simp
    also have "?n + length ?new = length pre + length ?r" using pre(1) ln by simp
    finally show ?thesis by simp
  qed
  have ru: "unat (word_of_nat (length ?r) :: u32) = length ?r" "length ?r < 8192"
    using pre(1) ln fit' by (simp_all add: unat_u32_of_nat)
  have rz: "0 \<notin> set ?r" "10 \<notin> set ?r" using split_lines_rest [of ?data] dz by auto
  let ?buf = "pre @ ?r @ ?stale"
  define buf' where "buf' = ?r @ drop (length ?r) ?buf"
  let ?s3 = "st\<lparr>hp_buf := buf', hp_len := word_of_nat (length ?r),
       hp_trace := hp_trace st @ answers e (fst (split_lines ?data))\<rparr>"
  have bl: "length ?buf = 8192" using pre(1) ln k(1) fit' by simp
  have run: "read_more_locked e (map ReadOk cs) st = Inr (True, ?s3)"
    using rest_moved [OF o rl pre(3)] bl ru(2) rem by (simp add: buf'_def)
  note mv = moved_buffer [OF bl ru(2) sl ls pre(2) rz(2) st(2), folded buf'_def]
  have "hp_ok ?s3" using mv ru rz by (simp add: hp_ok_def buf'_def)
  moreover have "pending ?s3 = ?r" using ru by (simp add: pending_def buf'_def)
  ultimately show thesis using run o by (intro that [of ?s3]) simp_all
qed


section \<open>The pipe as a stream of lines\<close>

definition chunk_ok :: "u8 list \<Rightarrow> bool" where
  "chunk_ok c \<longleftrightarrow> c \<noteq> [] \<and> length c \<le> 4096 \<and> 0 \<notin> set c"

text \<open>What is pending never fills the buffer together with what one call reads.\<close>

fun rounds_fit :: "u8 list \<Rightarrow> u8 list list list \<Rightarrow> bool" where
  "rounds_fit p [] \<longleftrightarrow> True"
| "rounds_fit p (cs # css) \<longleftrightarrow>
     length p + length (concat cs) < 8192 \<and> rounds_fit (snd (split_lines (p @ concat cs))) css"

definition rounds_of :: "hp_env \<Rightarrow> u8 list list list \<Rightarrow> (hp_env \<times> hp_read list) list" where
  "rounds_of e css = map (\<lambda>cs. (e, map ReadOk cs)) css"

text \<open> C4: however the bytes of the stream are cut into chunks and the chunks into calls, the lines of the stream are answered once
  each and in order, and the text behind the last newline stays pending, as long as the pending text and
  what one call reads fit the buffer and the stream has no zero byte.\<close>

theorem pipe_lines_as_stream:
  assumes "hp_ok st" "hp_open st" "hp_running st \<noteq> 0" "list_all (list_all chunk_ok) css" "rounds_fit (pending st) css"
  shows "\<exists>st'. reader_rounds (rounds_of e css) st = Inr st' \<and> hp_ok st'
    \<and> hp_trace st' = hp_trace st @ answers e (fst (split_lines (pending st @ concat (concat css))))
    \<and> pending st' = snd (split_lines (pending st @ concat (concat css)))"
  using assms
proof (induction css arbitrary: st)
  case Nil
  have "10 \<notin> set (pending st)" using Nil.prems(1) by (auto simp: hp_ok_def pending_def dest: in_set_takeD)
  then show ?case using Nil.prems by (auto simp: rounds_of_def split_lines_none)
next
  case (Cons cs css)
  have fit: "length (pending st) + length (concat cs) < 8192" using Cons.prems(5) by simp
  obtain s1 where s1: "read_more_locked e (map ReadOk cs) st = Inr (True, s1)" "hp_ok s1" "hp_open s1"
    "pending s1 = snd (split_lines (pending st @ concat cs))"
    "hp_trace s1 = hp_trace st @ answers e (fst (split_lines (pending st @ concat cs)))" "hp_running s1 = hp_running st"
    by (rule read_more_chunks [OF Cons.prems(1,2) fit, of e])
      (use Cons.prems(4) in \<open>auto simp: list_all_iff chunk_ok_def\<close>)
  have "\<exists>st'. reader_rounds (rounds_of e css) s1 = Inr st' \<and> hp_ok st'
    \<and> hp_trace st' = hp_trace s1 @ answers e (fst (split_lines (pending s1 @ concat (concat css))))
    \<and> pending st' = snd (split_lines (pending s1 @ concat (concat css)))"
    by (rule Cons.IH) (use Cons.prems s1 in simp_all)
  then show ?case
    using s1 Cons.prems(3) split_lines_append [of "pending st @ concat cs" "concat (concat css)"]
    by (auto simp: rounds_of_def)
qed

definition demo_hp :: hp where
  "demo_hp = hp_start\<lparr>hp_open := True, hp_running := 1\<rparr>"

lemma demo_hp_ok: "hp_ok demo_hp" "hp_open demo_hp" "hp_running demo_hp \<noteq> 0" "pending demo_hp = []" "hp_trace demo_hp = []"
  by (auto simp: hp_ok_def demo_hp_def hp_start_def pending_def kPendingSize_def last_replicate)

text \<open>\<open>commands\<close> in two chunks, and the start of another line.\<close>

theorem pipe_lines_as_stream_witness:
  "\<exists>st'. reader_rounds (rounds_of \<lparr>hpe_connect = [], hpe_write = (\<lambda>_. True)\<rparr>
      [[ascii ''comm''], [ascii ''ands'' @ [13, 10], ascii ''na'']]) demo_hp = Inr st'
    \<and> hp_trace st' = [HpWrite (ascii ''nav_pass_shard_select''), HpWrite [10]] \<and> pending st' = ascii ''na''"
proof -
  let ?css = "[[ascii ''comm''], [ascii ''ands'' @ [13, 10], ascii ''na'']]"
  have w: "list_all (list_all chunk_ok) ?css" "rounds_fit (pending demo_hp) ?css"
    by (simp_all add: chunk_ok_def ascii_def demo_hp_ok of_char_def)
  have s: "split_lines (concat (concat ?css)) = ([ascii ''commands'' @ [13]], ascii ''na'')"
    by (simp add: ascii_def of_char_def)
  have a: "answer_line \<lparr>hpe_connect = [], hpe_write = (\<lambda>_. True)\<rparr> (ascii ''commands'' @ [13])
      = [HpWrite (ascii ''nav_pass_shard_select''), HpWrite [10]]"
    by (simp add: answer_line_def response_def nav_command_list_def ascii_def of_char_def)
  from pipe_lines_as_stream [OF demo_hp_ok(1,2,3) w, of "\<lparr>hpe_connect = [], hpe_write = (\<lambda>_. True)\<rparr>"] s a
  show ?thesis by (auto simp: demo_hp_ok)
qed

text \<open>A call that reads a newline and then more than the buffer takes forgets the length but not the newline: it answers the lines
  that are still in the buffer and then moves a wrapped number of bytes, over four gigabytes, through memory.\<close>

theorem pipe_overflow_crashes:
  assumes "hp_ok st" "hp_open st" "list_all chunk_ok cs" "10 \<in> set (concat cs)"
    and "length (pending st) + length (concat cs) < 8192" "8192 \<le> length (pending st) + length (concat cs) + length b"
    and "length b \<le> 4096"
  shows "read_more_locked e (map ReadOk cs @ [ReadOk b]) st = Inl OobWrite"
proof -
  let ?n = "unat (hp_len st)" and ?new = "concat cs"
  let ?data = "pending st @ ?new" and ?stale = "drop (?n + length ?new) (hp_buf st)"
  have k: "length (hp_buf st) = 8192" "last (hp_buf st) = 0" "?n < 8192" "10 \<notin> set (hp_buf st)" "0 \<notin> set (pending st)"
    using assms(1) by (auto simp: hp_ok_def pending_def)
  have pl: "length (pending st) = ?n" using k by (simp add: pending_def)
  have fit: "?n + length ?new < 8192" "8192 \<le> ?n + length ?new + length b" using assms(5,6) pl by simp_all
  let ?s2 = "st\<lparr>hp_buf := ?data @ ?stale, hp_len := hp_len st + word_of_nat (length ?new)\<rparr>"
  have u: "unat (hp_len st + word_of_nat (length ?new)) = ?n + length ?new"
    using fit by (simp add: unat_u32_add_small unat_u32_of_nat)
  then have u2: "unat (hp_len st + word_of_nat (length ?new) + word_of_nat (length b)) = ?n + length ?new + length b"
    using fit assms(7) by (simp add: unat_u32_add_small unat_u32_of_nat)
  have bn: "b \<noteq> []" using fit by auto
  have "read_loop (map ReadOk cs @ [ReadOk b]) st = read_loop [ReadOk b] ?s2"
    using read_loop_chunks [of st cs "[ReadOk b]"] fit k(1) assms(3)
    by (simp add: pending_def list_all_iff chunk_ok_def del: read_loop.simps)
  also have "\<dots> = (True, ?s2\<lparr>hp_len := 0\<rparr>)"
    using u2 fit bn assms(7) by (simp add: Let_def kReadChunk_def kPendingSize_def)
  finally have rl: "read_loop (map ReadOk cs @ [ReadOk b]) st = (True, ?s2\<lparr>hp_len := 0\<rparr>)" .
  have sl: "?stale \<noteq> []" using fit k(1) by simp
  have "last ?stale = 0" using k(2) sl by (simp add: last_drop)
  then have st: "0 \<in> set ?stale" "10 \<notin> set ?stale" using last_in_set [OF sl] k(4) by (auto dest: in_set_dropD)
  have dz: "0 \<notin> set ?data" using k(5) assms(3) by (auto simp: list_all_iff chunk_ok_def)
  obtain n s3 where n: "n + length (snd (split_lines ?data)) = length ?data"
    "scan_lines e 0 (?s2\<lparr>hp_len := 0\<rparr>) = Inr (n, s3)" "hp_len s3 = 0" "length (hp_buf s3) = 8192"
  proof -
    obtain pre where p: "length pre + length (snd (split_lines ?data)) = length ?data"
      "scan_lines e 0 (?s2\<lparr>hp_len := 0\<rparr>) = Inr (length pre, (?s2\<lparr>hp_len := 0\<rparr>)\<lparr>hp_buf := pre @ snd (split_lines ?data) @ ?stale,
         hp_trace := hp_trace st @ answers e (fst (split_lines ?data))\<rparr>)"
      using scan_lines_clean [of "?s2\<lparr>hp_len := 0\<rparr>" "[]" ?data ?stale e] dz st assms(2) by auto
    show thesis by (rule that [OF p]) (use p pl fit k(1) in auto)
  qed
  have n0: "0 < n" "n < 8192" using n(1) split_lines_shorter [of ?data] assms(4) pl fit(1) by auto
  have neg: "unat (- (word_of_nat n :: u32)) = 2 ^ 32 - n"
  proof -
    have "- (word_of_nat n :: u32) = word_of_nat (2 ^ 32 - n)" using n0 by (simp add: of_nat_diff)
    then have "unat (- (word_of_nat n :: u32)) = unat (word_of_nat (2 ^ 32 - n) :: u32)" by (rule arg_cong)
    also have "\<dots> = 2 ^ 32 - n" by (rule unat_u32_of_nat) (use n0 in simp)
    finally show ?thesis .
  qed
  then have "(- (word_of_nat n :: u32)) > 0" using n0 by (simp add: word_less_nat_alt)
  then show ?thesis using rl n n0 assms(2) neg
    by (simp add: read_more_locked_def connect_pipe_locked_def Let_def)
qed

theorem pipe_overflow_crashes_witness:
  "read_more_locked \<lparr>hpe_connect = [], hpe_write = (\<lambda>_. True)\<rparr>
     [ReadOk (10 # replicate 4095 97), ReadOk (replicate 4096 97)] demo_hp = Inl OobWrite"
  using pipe_overflow_crashes [OF demo_hp_ok(1,2), of "[10 # replicate 4095 97]" "replicate 4096 97"]
  by (simp add: chunk_ok_def demo_hp_ok)

end
