(* ===== verification/Navigation.thy ===== *)
theory Navigation
  imports HandlerPipe Nav
begin

text \<open>
  The way of a navigation command through the library: the reader thread of the command pipe
  (\<open>src/diagnostics/handler_pipe.cpp\<close>) cuts the stream into lines and puts a command into the queue
  (\<open>src/RMI/NavCommands.cpp\<close>) for each line that asks for one; the game's main thread takes the commands out and sends
  the requests (\<open>src/RMI/Nav.cpp\<close>), from its detours or from the message hook; a third thread wakes it up. Their operations
  interleave in any order; what one thread does is in its own order.
\<close>

section \<open>The three threads\<close>

record nav_sys =
  ns_pipe :: hp
  ns_todo :: nat                 \<comment> \<open>commands of lines cut by the running read that are not yet in the queue\<close>
  ns_nav :: nav

datatype nav_act =
    Reads hp_env "u8 list list"  \<comment> \<open>a call of \<open>read_more_locked\<close> with the chunks it reads\<close>
  | Enqueues nav_env             \<comment> \<open>the call of \<open>NavEnqueueCommand\<close> for the next line\<close>
  | Pumps nav_env                \<comment> \<open>\<open>NavPump\<close> from a detour\<close>
  | Messages nav_env int         \<comment> \<open>the message hook\<close>
  | Wakes                        \<comment> \<open>a post of the wake-up thread\<close>

definition commands :: "hp \<Rightarrow> nat" where
  "commands p = length (filter (\<lambda>x. x = HpEnqueue) (hp_trace p))"

inductive nav_sys_step :: "nav_sys \<Rightarrow> nav_act \<Rightarrow> nav_sys \<Rightarrow> bool" where
  reads: "ns_todo s = 0 \<Longrightarrow> read_more_locked e (map ReadOk cs) (ns_pipe s) = Inr (ok, p) \<Longrightarrow>
    nav_sys_step s (Reads e cs) (s\<lparr>ns_pipe := p, ns_todo := commands p - commands (ns_pipe s)\<rparr>)"
| enqueues: "ns_todo s = Suc n \<Longrightarrow> NavEnqueueCommand e PassShardSelect (ns_nav s) = Inr v \<Longrightarrow>
    nav_sys_step s (Enqueues e) (s\<lparr>ns_todo := n, ns_nav := v\<rparr>)"
| pumps: "NavPump e (ns_nav s) = Inr v \<Longrightarrow> nav_sys_step s (Pumps e) (s\<lparr>ns_nav := v\<rparr>)"
| messages: "nav_getmsg_proc e code (ns_nav s) = Inr v \<Longrightarrow> nav_sys_step s (Messages e code) (s\<lparr>ns_nav := v\<rparr>)"
| wakes: "nav_sys_step s Wakes (s\<lparr>ns_nav := wake_main_thread (ns_nav s)\<rparr>)"

inductive_cases nav_sys_stepE: "nav_sys_step s a t"

inductive nav_path :: "nav_sys \<Rightarrow> nav_act list \<Rightarrow> nav_sys \<Rightarrow> bool" where
  stays: "nav_path s [] s"
| goes: "nav_sys_step s a t \<Longrightarrow> nav_path t as u \<Longrightarrow> nav_path s (a # as) u"

inductive_cases nav_path_ConsE: "nav_path s (a # as) u"

text \<open>The bytes read along the way, and the calls that fit the buffer (a call that does not has been dealt with).\<close>

fun bytes_read :: "nav_act list \<Rightarrow> u8 list" where
  "bytes_read [] = []"
| "bytes_read (Reads e cs # as) = concat cs @ bytes_read as"
| "bytes_read (a # as) = bytes_read as"

fun reads_fit :: "u8 list \<Rightarrow> nav_act list \<Rightarrow> bool" where
  "reads_fit p [] \<longleftrightarrow> True"
| "reads_fit p (Reads e cs # as) \<longleftrightarrow>
     list_all chunk_ok cs \<and> length p + length (concat cs) < 8192 \<and> reads_fit (snd (split_lines (p @ concat cs))) as"
| "reads_fit p (a # as) \<longleftrightarrow> reads_fit p as"

definition asks_for_shard :: "u8 list \<Rightarrow> bool" where
  "asks_for_shard l \<longleftrightarrow> takeWhile (\<lambda>c. c \<noteq> 13) l = ascii ''nav_pass_shard_select''"

definition selections :: "nav \<Rightarrow> nat" where
  "selections st = length (filter (\<lambda>x. case x of SendRmi op _ \<Rightarrow> op = 0x3EB2 | _ \<Rightarrow> False) (nv_trace st))"

section \<open>What is still owed to a command\<close>

text \<open>The selections sent and those that may still come of the commands in the queue and of a flow that has begun.\<close>

definition owed :: "nav \<Rightarrow> nat" where
  "owed st = selections st + length (nq_abs (nv_q st)) + (if nv_pending st \<noteq> 0 \<and> nv_did_select st = 0 then 1 else 0)"

definition nav_ok :: "nav \<Rightarrow> bool" where
  "nav_ok st \<longleftrightarrow> nq_ok (nv_q st) \<and> set (nq_abs (nv_q st)) \<subseteq> {PassShardSelect}"

lemma selections_emit [simp]:
  "selections (emit x st) = selections st + (case x of SendRmi op _ \<Rightarrow> if op = 0x3EB2 then 1 else 0 | _ \<Rightarrow> 0)"
  by (simp add: selections_def emit_def split: nav_event.splits)

lemma selections_upd [simp]:
  "selections (st\<lparr>nv_q := q\<rparr>) = selections st" "selections (st\<lparr>nv_main_tid := t\<rparr>) = selections st"
  "selections (st\<lparr>nv_hook := b\<rparr>) = selections st" "selections (st\<lparr>nv_hook_logged := k\<rparr>) = selections st"
  "selections (st\<lparr>nv_index := k\<rparr>) = selections st" "selections (st\<lparr>nv_pending := k\<rparr>) = selections st"
  "selections (st\<lparr>nv_did_select := k\<rparr>) = selections st" "selections (st\<lparr>nv_did_state := k\<rparr>) = selections st"
  "selections (st\<lparr>nv_did_notify := k\<rparr>) = selections st" "selections (st\<lparr>nv_running := k\<rparr>) = selections st"
  "selections (st\<lparr>nv_logged_lock := k\<rparr>) = selections st"
  by (simp_all add: selections_def)

lemma owed_quiet [simp]:
  "owed (wake_main_thread st) = owed st" "owed (ensure_getmsg_hook e st) = owed st" "owed (note_main_thread e st) = owed st"
  "nv_q (wake_main_thread st) = nv_q st" "nv_q (ensure_getmsg_hook e st) = nv_q st" "nv_q (note_main_thread e st) = nv_q st"
  by (simp_all add: owed_def wake_main_thread_def ensure_getmsg_hook_def note_main_thread_def Let_def)

lemma owed_queue: "owed (st\<lparr>nv_q := q\<rparr>) + length (nq_abs (nv_q st)) = owed st + length (nq_abs q)"
  by (simp add: owed_def)

lemma take_command_owed: "owed (take_command e c st) \<le> owed st + 1"
  by (simp add: owed_def take_command_def start_nav_wakeup_thread_def Let_def)

lemma pump_owed: "owed (pump_pass_shard_select e st) \<le> owed st"
  by (simp add: owed_def pump_pass_shard_select_def send_shard_select_c2s_def send_lobby_enter_notify_def request_lobby_scene_def
      clear_pass_shard_flow_def send_proxy_rmi_def Let_def)

lemma drain_owed:
  "nav_ok st \<Longrightarrow> \<exists>st'. NavDrainCommands e st = Inr st' \<and> nav_ok st' \<and> owed st' \<le> owed st"
proof (induction "nq_abs (nv_q st)" arbitrary: st)
  case Nil
  then obtain q' where "NavDrainCommands e st = Inr (st\<lparr>nv_q := q'\<rparr>)" "nq_ok q'" "nq_abs q' = []"
    using drain_empty [of st e] by (auto simp: nav_ok_def)
  then show ?case by (auto simp: nav_ok_def owed_def)
next
  case (Cons c cs)
  then obtain q' where q': "nq_dequeue True (nv_q st) = Inr (Some c, q')" "nq_ok q'" "nq_abs q' = cs"
    using navring.deq_some [of "nv_q st" c cs] by (auto simp: nav_ok_def)
  let ?st = "take_command e c (st\<lparr>nv_q := q'\<rparr>)"
  have ok: "nav_ok ?st" using q' Cons.prems Cons.hyps(2) [symmetric] by (auto simp: nav_ok_def)
  obtain st' where "NavDrainCommands e ?st = Inr st'" "nav_ok st'" "owed st' \<le> owed ?st"
    using Cons.hyps(1) [OF _ ok] q'(3) by auto
  moreover have "owed ?st \<le> owed st"
    using take_command_owed [of e c "st\<lparr>nv_q := q'\<rparr>"] owed_queue [of q' st] q'(3) Cons.hyps(2) [symmetric] by simp
  ultimately show ?case using q'(1) by (auto simp: NavDrainCommands.simps [of e st])
qed

lemma NavPump_owed: "nav_ok st \<Longrightarrow> \<exists>st'. NavPump e st = Inr st' \<and> nav_ok st' \<and> owed st' \<le> owed st"
proof -
  assume "nav_ok st"
  then have "nav_ok (ensure_getmsg_hook e (note_main_thread e st))" by (simp add: nav_ok_def)
  from drain_owed [OF this, of e] obtain st1 where
    "NavDrainCommands e (ensure_getmsg_hook e (note_main_thread e st)) = Inr st1" "nav_ok st1" "owed st1 \<le> owed st" by auto
  then show ?thesis using pump_owed [of e st1] by (auto simp: NavPump_def nav_ok_def)
qed

lemma message_owed: "nav_ok st \<Longrightarrow> \<exists>st'. nav_getmsg_proc e code st = Inr st' \<and> nav_ok st' \<and> owed st' \<le> owed st"
proof -
  assume ok: "nav_ok st"
  let ?st = "st\<lparr>nv_q := snd (nq_has (nv_q st))\<rparr>"
  have same: "nav_ok ?st" "owed ?st = owed st"
    using ok by (simp_all add: nav_ok_def owed_def nq_has_def nq_ensure_lock_def nq_ok_def nq_abs_def Let_def)
  show ?thesis
    using NavPump_owed [OF ok, of e] NavPump_owed [OF same(1), of e] same ok
    by (auto simp: nav_getmsg_proc_def Let_def split: prod.splits)
qed

lemma enqueue_owed:
  assumes "nav_ok st" "NavEnqueueCommand e PassShardSelect st = Inr st'"
  shows "nav_ok st' \<and> owed st' \<le> owed st + 1"
proof -
  let ?q = "nv_q st"
  have ok: "nq_ok ?q" using assms(1) by (simp add: nav_ok_def)
  obtain b q' where e: "nq_enqueue PassShardSelect ?q = Inr (b, q')" "st' = (if b then NavSchedulePump e (st\<lparr>nv_q := q'\<rparr>) else st\<lparr>nv_q := q'\<rparr>)"
    using assms(2) by (auto simp: NavEnqueueCommand_def bindR_eq_Inr Let_def)
  have "nq_ok q' \<and> (nq_abs q' = nq_abs ?q \<or> nq_abs q' = nq_abs ?q @ [PassShardSelect])"
  proof (cases "length (nq_abs ?q) = 16")
    case True
    then show ?thesis using navring.enq_full [OF ok _ True, of PassShardSelect] e(1) by auto
  next
    case False
    then have lt: "length (nq_abs ?q) < 16" using navring.bounded [OF ok] by simp
    have "0 < nq_room ?q"
    proof (rule ccontr)
      assume "\<not> 0 < nq_room ?q"
      then have "nq_enqueue PassShardSelect ?q = Inl SignedOverflow"
        using nq_abs_length [OF ok] lt ok
        by (simp add: nq_enqueue_def nq_ensure_lock_def kQueueSize_def add_i32_def i32_ok_def nq_room_def nq_ok_def Let_def)
      then show False using e(1) by simp
    qed
    then show ?thesis using navring.enq_room [OF ok _ _ lt, of PassShardSelect] e(1) by auto
  qed
  then show ?thesis using e(2) assms(1) owed_queue [of q' st] by (auto simp: nav_ok_def NavSchedulePump_def)
qed

section \<open>Lines become commands, commands become selections\<close>

lemma answer_commands: "length (filter (\<lambda>x. x = HpEnqueue) (answer_line e l)) = (if asks_for_shard l then 1 else 0)"
proof -
  have "ascii ''nav_pass_shard_select'' \<noteq> []" "ascii ''nav_pass_shard_select'' \<noteq> ascii ''commands''"
    by (simp_all add: ascii_def)
  then show ?thesis by (auto simp: answer_line_def asks_for_shard_def response_def Let_def)
qed

lemma answers_commands: "length (filter (\<lambda>x. x = HpEnqueue) (answers e ls)) = length (filter asks_for_shard ls)"
  by (induction ls) (simp_all add: answer_commands)

text \<open>\<open>k\<close> commands were there before.\<close>

definition sys_ok :: "nat \<Rightarrow> nav_sys \<Rightarrow> bool" where
  "sys_ok k s \<longleftrightarrow> hp_ok (ns_pipe s) \<and> hp_open (ns_pipe s) \<and> nav_ok (ns_nav s) \<and> owed (ns_nav s) + ns_todo s + k \<le> commands (ns_pipe s)"

lemma read_commands:
  assumes "sys_ok k s" "ns_todo s = 0" "read_more_locked e (map ReadOk cs) (ns_pipe s) = Inr (ok, p)"
    and "list_all chunk_ok cs" "length (pending (ns_pipe s)) + length (concat cs) < 8192"
  shows "sys_ok k (s\<lparr>ns_pipe := p, ns_todo := commands p - commands (ns_pipe s)\<rparr>)"
    and "pending p = snd (split_lines (pending (ns_pipe s) @ concat cs))"
    and "commands p = commands (ns_pipe s) + length (filter asks_for_shard (fst (split_lines (pending (ns_pipe s) @ concat cs))))"
proof -
  have ok1: "hp_ok (ns_pipe s)" "hp_open (ns_pipe s)" using assms(1) by (simp_all add: sys_ok_def)
  obtain p1 where p1: "read_more_locked e (map ReadOk cs) (ns_pipe s) = Inr (True, p1)" "hp_ok p1" "hp_open p1"
    "pending p1 = snd (split_lines (pending (ns_pipe s) @ concat cs))"
    "hp_trace p1 = hp_trace (ns_pipe s) @ answers e (fst (split_lines (pending (ns_pipe s) @ concat cs)))"
    by (rule read_more_chunks [OF ok1 assms(5), of e]) (use assms(4) in \<open>auto simp: list_all_iff chunk_ok_def\<close>)
  then have p: "p1 = p" using assms(3) by simp
  then show "pending p = snd (split_lines (pending (ns_pipe s) @ concat cs))" using p1(4) by simp
  show c: "commands p = commands (ns_pipe s) + length (filter asks_for_shard (fst (split_lines (pending (ns_pipe s) @ concat cs))))"
    using p1(5) p by (simp add: commands_def answers_commands)
  show "sys_ok k (s\<lparr>ns_pipe := p, ns_todo := commands p - commands (ns_pipe s)\<rparr>)"
    using p1(2,3) p assms(1,2) c by (simp add: sys_ok_def)
qed

lemma step_keeps:
  assumes "nav_sys_step s a t" "sys_ok k s" "\<And>e cs. a \<noteq> Reads e cs"
  shows "sys_ok k t \<and> ns_pipe t = ns_pipe s"
  using assms
proof (cases rule: nav_sys_step.cases)
  case (enqueues n e v)
  then show ?thesis using assms(2) enqueue_owed [of "ns_nav s" e v] by (auto simp: sys_ok_def)
next
  case (pumps e v)
  then show ?thesis using assms(2) NavPump_owed [of "ns_nav s" e] by (auto simp: sys_ok_def)
next
  case (messages e code v)
  then show ?thesis using assms(2) message_owed [of "ns_nav s" e code] by (auto simp: sys_ok_def)
next
  case wakes
  then show ?thesis using assms(2) by (simp add: sys_ok_def nav_ok_def)
qed auto

lemma path_commands:
  "nav_path s as t \<Longrightarrow> sys_ok k s \<Longrightarrow> reads_fit (pending (ns_pipe s)) as \<Longrightarrow>
   sys_ok k t \<and> commands (ns_pipe t) = commands (ns_pipe s)
     + length (filter asks_for_shard (fst (split_lines (pending (ns_pipe s) @ bytes_read as))))"
proof (induction rule: nav_path.induct)
  case (stays s)
  have "10 \<notin> set (pending (ns_pipe s))" using stays by (auto simp: sys_ok_def hp_ok_def pending_def dest: in_set_takeD)
  then show ?case using stays by (simp add: split_lines_none)
next
  case (goes s a t as u)
  show ?case
  proof (cases "\<exists>e cs. a = Reads e cs")
    case True
    then obtain e cs where a: "a = Reads e cs" by blast
    with goes.hyps(1) obtain ok p where r: "ns_todo s = 0" "read_more_locked e (map ReadOk cs) (ns_pipe s) = Inr (ok, p)"
      "t = s\<lparr>ns_pipe := p, ns_todo := commands p - commands (ns_pipe s)\<rparr>" by (auto elim: nav_sys_stepE)
    note rc = read_commands [OF goes.prems(1) r(1,2)]
    have fit: "list_all chunk_ok cs" "length (pending (ns_pipe s)) + length (concat cs) < 8192"
      "reads_fit (snd (split_lines (pending (ns_pipe s) @ concat cs))) as" using goes.prems(2) by (auto simp: a)
    then show ?thesis
      using goes.IH rc [OF fit(1,2)] r(3) split_lines_append [of "pending (ns_pipe s) @ concat cs" "bytes_read as"] by (simp add: a)
  next
    case False
    then have "sys_ok k t" "ns_pipe t = ns_pipe s" using step_keeps [OF goes.hyps(1) goes.prems(1)] by auto
    moreover have "bytes_read (a # as) = bytes_read as" "reads_fit p (a # as) = reads_fit p as" for p
      using False by (cases a; auto)+
    ultimately show ?thesis using goes.IH goes.prems(2) by simp
  qed
qed

text \<open>C6: However the reader thread, the main thread and the wake-up thread interleave, every shard selection sent to the server was
  asked for by a line of its own on the command pipe; and the main thread's operations never fail, in whatever state of the
  others they come.\<close>

theorem selections_asked_for:
  assumes "nav_path s as t" "ns_nav s = nav_start" "ns_todo s = 0"
    and "hp_ok (ns_pipe s)" "hp_open (ns_pipe s)" "pending (ns_pipe s) = []" "reads_fit [] as"
  shows "selections (ns_nav t) \<le> length (filter asks_for_shard (fst (split_lines (bytes_read as))))
    \<and> (\<forall>e. \<exists>v. NavPump e (ns_nav t) = Inr v) \<and> (\<forall>e code. \<exists>v. nav_getmsg_proc e code (ns_nav t) = Inr v)"
proof -
  have "owed nav_start = 0" "nav_ok nav_start"
    using navq_start_ok by (simp_all add: owed_def nav_ok_def nav_start_def selections_def)
  then have "sys_ok (commands (ns_pipe s)) s" using assms(2-5) by (simp add: sys_ok_def)
  from path_commands [OF assms(1) this] assms(6,7) have t: "sys_ok (commands (ns_pipe s)) t" "commands (ns_pipe t) = commands (ns_pipe s)
     + length (filter asks_for_shard (fst (split_lines (bytes_read as))))" by auto
  then have "nav_ok (ns_nav t)" "selections (ns_nav t) \<le> owed (ns_nav t)" by (auto simp: sys_ok_def owed_def)
  then show ?thesis using NavPump_owed message_owed t by (fastforce simp: sys_ok_def)
qed

text \<open>One line, put into the queue and pumped.\<close>

theorem selections_asked_for_witness:
  "\<exists>t. nav_path \<lparr>ns_pipe = demo_hp, ns_todo = 0, ns_nav = nav_start\<rparr>
      [Reads \<lparr>hpe_connect = [], hpe_write = (\<lambda>_. True)\<rparr> [ascii ''nav_pass_shard_select'' @ [10]],
       Enqueues (demo_env 3 False), Pumps (demo_env 3 False)] t
    \<and> selections (ns_nav t) \<le> 1"
proof -
  let ?e = "\<lparr>hpe_connect = [], hpe_write = (\<lambda>_. True)\<rparr>" and ?l = "ascii ''nav_pass_shard_select''"
  let ?s = "\<lparr>ns_pipe = demo_hp, ns_todo = 0, ns_nav = nav_start\<rparr>"
  let ?as = "[Reads ?e [?l @ [10]], Enqueues (demo_env 3 False), Pumps (demo_env 3 False)]"
  have l: "10 \<notin> set ?l" "0 \<notin> set ?l" "13 \<notin> set ?l" "length ?l = 21" by (simp_all add: ascii_def of_char_def)
  have fit: "reads_fit [] ?as" using l by (simp add: chunk_ok_def)
  have one: "filter asks_for_shard (fst (split_lines (bytes_read ?as))) = [?l]"
    using l by (simp add: split_lines_line asks_for_shard_def takeWhile_eq_all_conv [THEN iffD2])
  have ok: "sys_ok 0 ?s" using demo_hp_ok navq_start_ok
    by (simp add: sys_ok_def nav_ok_def owed_def nav_start_def selections_def commands_def)
  obtain p where p: "read_more_locked ?e (map ReadOk [?l @ [10]]) demo_hp = Inr (True, p)"
    using read_more_chunks [OF demo_hp_ok(1,2), of "[?l @ [10]]" ?e] l demo_hp_ok(4) by auto
  have c: "commands p = 1"
    using read_commands(3) [OF ok, of ?e "[?l @ [10]]" True p] p l demo_hp_ok(4,5) one
    by (simp add: chunk_ok_def commands_def)
  obtain v where v: "NavEnqueueCommand (demo_env 3 False) PassShardSelect nav_start = Inr v"
    by (auto simp: NavEnqueueCommand_def nq_enqueue_def nq_ensure_lock_def nav_start_def navq_start_def kQueueSize_def
        add_i32_def i32_ok_def nq_index_def Let_def)
  have "nav_ok nav_start" using ok by (simp add: sys_ok_def)
  then obtain w where w: "NavPump (demo_env 3 False) v = Inr w"
    using NavPump_owed [of v] enqueue_owed [OF _ v] by blast
  have path: "nav_path ?s ?as \<lparr>ns_pipe = p, ns_todo = 0, ns_nav = w\<rparr>"
    using goes [OF reads [of ?s ?e "[?l @ [10]]" True p] goes [OF enqueues goes [OF pumps stays]]] p c v w demo_hp_ok(5)
    by (simp add: commands_def)
  have "selections w \<le> 1"
    using selections_asked_for [OF path _ _ _ _ _ fit, unfolded one] demo_hp_ok by simp
  with path show ?thesis by force
qed

end
