(* ===== verification/HookManager.thy ===== *)
theory HookManager
  imports Prelude
begin

text \<open>
  Code patching, \<open>src/hook_manager.cpp\<close>: detours written over the first bytes of a function of the game,
  import-table slots replaced, and both put back. Memory is a function from 32-bit addresses to bytes
  (reads of mapped code do not fail); whether Windows lets a range be made writable and written is part of the
  answers of the environment. Stubs are named by numbers; the two vectors of registered stubs are lists of them.
  The patch lock makes each operation one step. Log lines are left out.
\<close>

section \<open>Memory\<close>

type_synonym mem = "u32 \<Rightarrow> u8"

definition mem_read :: "mem \<Rightarrow> u32 \<Rightarrow> nat \<Rightarrow> u8 list" where
  "mem_read m a n = map (\<lambda>i. m (a + word_of_nat i)) [0..<n]"

definition mem_write :: "u32 \<Rightarrow> u8 list \<Rightarrow> mem \<Rightarrow> mem" where
  "mem_write a bs m = (\<lambda>x. if unat (x - a) < length bs then bs ! unat (x - a) else m x)"

definition le4 :: "u32 \<Rightarrow> u8 list" where
  "le4 x = [ucast x, ucast (drop_bit 8 x), ucast (drop_bit 16 x), ucast (drop_bit 24 x)]"

definition read4 :: "mem \<Rightarrow> u32 \<Rightarrow> u32" where
  "read4 m a = ucast (m a) OR push_bit 8 (ucast (m (a + 1))) OR push_bit 16 (ucast (m (a + 2)))
     OR push_bit 24 (ucast (m (a + 3)))"

definition read2 :: "mem \<Rightarrow> u32 \<Rightarrow> u32" where
  "read2 m a = ucast (m a) OR push_bit 8 (ucast (m (a + 1)))"

section \<open>Stubs and state\<close>

record hook_stub =
  hs_addr :: u32
  hs_function :: u32
  hs_orig :: "u8 list"           \<comment> \<open>\<open>original_bytes[12]\<close>\<close>
  hs_hooked :: bool

record sys_stub =
  ss_modname :: string
  ss_symname :: string
  ss_handler :: u32
  ss_hooked :: bool
  ss_patched :: u32              \<comment> \<open>\<open>patched_addr\<close>\<close>
  ss_sym :: u32                  \<comment> \<open>\<open>sym_addr\<close>\<close>

record hm =
  hm_mem :: mem
  hm_stub :: "nat \<Rightarrow> hook_stub"
  hm_sys :: "nat \<Rightarrow> sys_stub"
  hm_hooks :: "nat list"
  hm_syshooks :: "nat list"
  hm_lock_ready :: bool          \<comment> \<open>\<open>g_hook_patch_cs_ready\<close>\<close>

record hm_env =
  he_main :: u32                 \<comment> \<open>base of the main module, 0 when there is none\<close>
  he_protect :: "u32 \<Rightarrow> nat \<Rightarrow> bool"
  he_write :: "u32 \<Rightarrow> nat \<Rightarrow> bool"
  he_module :: "string \<Rightarrow> bool"
  he_proc :: "string \<Rightarrow> string \<Rightarrow> u32"

definition lock_patch :: "hm \<Rightarrow> hm" where
  "lock_patch s = s\<lparr>hm_lock_ready := True\<rparr>"

definition upd_stub :: "nat \<Rightarrow> (hook_stub \<Rightarrow> hook_stub) \<Rightarrow> hm \<Rightarrow> hm" where
  "upd_stub i f s = s\<lparr>hm_stub := (hm_stub s)(i := f (hm_stub s i))\<rparr>"

definition upd_sys :: "nat \<Rightarrow> (sys_stub \<Rightarrow> sys_stub) \<Rightarrow> hm \<Rightarrow> hm" where
  "upd_sys i f s = s\<lparr>hm_sys := (hm_sys s)(i := f (hm_sys s i))\<rparr>"

definition write_memory :: "hm_env \<Rightarrow> u32 \<Rightarrow> u8 list \<Rightarrow> hm \<Rightarrow> bool \<times> hm" where
  "write_memory e a bs s =
     (if he_write e a (length bs) then (True, s\<lparr>hm_mem := mem_write a bs (hm_mem s)\<rparr>) else (False, s))"

definition make_memory_writable :: "hm_env \<Rightarrow> u32 \<Rightarrow> nat \<Rightarrow> bool" where
  "make_memory_writable e a n = he_protect e a n"

definition target_of :: "hm_env \<Rightarrow> u32 \<Rightarrow> u32" where
  "target_of e a = a + he_main e - 0x400000"

definition jump_patch :: "u32 \<Rightarrow> u32 \<Rightarrow> u8 list" where
  "jump_patch tgt fn = 0xE9 # le4 (fn - (tgt + 5))"

section \<open>Detours\<close>

definition make_hook :: "hm_env \<Rightarrow> nat \<Rightarrow> hm \<Rightarrow> bool \<times> hm" where
  "make_hook e i s0 =
     (let s = lock_patch s0
      in if hs_hooked (hm_stub s i) then (True, s)
         else if he_main e = 0 then (False, s)
         else let tgt = target_of e (hs_addr (hm_stub s i));
                  s1 = upd_stub i (\<lambda>h. h\<lparr>hs_orig := mem_read (hm_mem s) tgt 12\<rparr>) s
              in if \<not> make_memory_writable e tgt 12 then (False, s1)
                 else let (ok, s2) = write_memory e tgt (jump_patch tgt (hs_function (hm_stub s1 i))) s1
                      in if \<not> ok then (False, s2)
                         else (True, (upd_stub i (\<lambda>h. h\<lparr>hs_hooked := True\<rparr>) s2)\<lparr>hm_hooks := hm_hooks s2 @ [i]\<rparr>))"

definition restore_hook :: "hm_env \<Rightarrow> nat \<Rightarrow> hm \<Rightarrow> bool \<times> hm" where
  "restore_hook e i s0 =
     (let s = lock_patch s0
      in if \<not> hs_hooked (hm_stub s i) then (True, s)
         else let tgt = target_of e (hs_addr (hm_stub s i))
              in if \<not> make_memory_writable e tgt 12 then (False, s)
                 else let (ok, s1) = write_memory e tgt (hs_orig (hm_stub s i)) s
                      in if \<not> ok then (False, s1)
                         else (True, upd_stub i (\<lambda>h. h\<lparr>hs_hooked := False\<rparr>) s1))"

text \<open>
  \<open>fn = None\<close> is a null function pointer. The called function gets the state and may end with an
  exception, which leaves the hook as it is at that moment.
\<close>

definition invoke_hooked :: "hm_env \<Rightarrow> nat \<Rightarrow> (hm \<Rightarrow> cxx_error option \<times> hm) option \<Rightarrow> hm \<Rightarrow> cxx_error option \<times> hm" where
  "invoke_hooked e i fn s0 =
     (let s = lock_patch s0
      in if he_main e = 0 then (None, s)
         else case fn of
           None \<Rightarrow> (None, s)
         | Some f \<Rightarrow>
             let tgt = target_of e (hs_addr (hm_stub s i));
                 (go, s1) =
                   (if hs_hooked (hm_stub s i) then
                      (if \<not> make_memory_writable e tgt 12 then (False, s)
                       else let (ok, t) = write_memory e tgt (hs_orig (hm_stub s i)) s
                            in if \<not> ok then (False, t) else (True, upd_stub i (\<lambda>h. h\<lparr>hs_hooked := False\<rparr>) t))
                    else (True, s))
             in if \<not> go then (None, s1)
                else (case f s1 of
                    (Some err, s2) \<Rightarrow> (Some err, s2)
                  | (None, s2) \<Rightarrow>
                      if hs_hooked (hm_stub s2 i) then (None, s2)
                      else if \<not> make_memory_writable e tgt 12 then (None, s2)
                      else let (ok, s3) = write_memory e tgt (jump_patch tgt (hs_function (hm_stub s2 i))) s2
                           in if \<not> ok then (None, s3)
                              else (None, upd_stub i (\<lambda>h. h\<lparr>hs_hooked := True\<rparr>) s3)))"

section \<open>Import slots\<close>

definition make_syshook :: "hm_env \<Rightarrow> nat \<Rightarrow> u32 \<Rightarrow> hm \<Rightarrow> bool \<times> hm" where
  "make_syshook e i iat_addr s =
     (if he_main e = 0 then (False, s)
      else let s1 = upd_sys i (\<lambda>h. h\<lparr>ss_patched := target_of e iat_addr\<rparr>) s;
               h1 = hm_sys s1 i
           in if \<not> he_module e (ss_modname h1) then (False, s1)
              else let s2 = upd_sys i (\<lambda>h. h\<lparr>ss_sym := he_proc e (ss_modname h1) (ss_symname h1)\<rparr>) s1
                   in if \<not> make_memory_writable e (ss_patched h1) 4 then (False, s2)
                      else let (ok, s3) = write_memory e (ss_patched h1) (le4 (ss_handler h1)) s2
                           in if \<not> ok then (False, s3)
                              else (True, (upd_sys i (\<lambda>h. h\<lparr>ss_hooked := True\<rparr>) s3)
                                            \<lparr>hm_syshooks := hm_syshooks s3 @ [i]\<rparr>))"

definition restore_syshook :: "hm_env \<Rightarrow> nat \<Rightarrow> hm \<Rightarrow> bool \<times> hm" where
  "restore_syshook e i s =
     (let h = hm_sys s i
      in if \<not> ss_hooked h then (True, s)
         else if \<not> make_memory_writable e (ss_patched h) 4 then (False, s)
         else let (ok, s1) = write_memory e (ss_patched h) (le4 (ss_sym h)) s
              in if \<not> ok then (False, s1) else (True, upd_sys i (\<lambda>h. h\<lparr>ss_hooked := False\<rparr>) s1))"

text \<open>\<open>status && restore\<close>: after the first failure nothing more is restored.\<close>

fun restore_while_ok :: "(nat \<Rightarrow> hm \<Rightarrow> bool \<times> hm) \<Rightarrow> nat list \<Rightarrow> bool \<Rightarrow> hm \<Rightarrow> bool \<times> hm" where
  "restore_while_ok f [] status s = (status, s)"
| "restore_while_ok f (i # is) status s =
     (if status then (let (ok, s1) = f i s in restore_while_ok f is ok s1)
      else restore_while_ok f is False s)"

definition restore_all_hooks :: "hm_env \<Rightarrow> hm \<Rightarrow> bool \<times> hm" where
  "restore_all_hooks e s =
     (let (ok, s1) = restore_while_ok (restore_hook e) (hm_hooks s) True s
      in restore_while_ok (restore_syshook e) (hm_syshooks s1) ok s1)"

section \<open>Every slot of an import\<close>

text \<open>\<open>strcmp\<close> and \<open>_stricmp\<close> with a name in memory; \<open>fold_case\<close> is applied to both sides.\<close>

fun mem_streq :: "(u8 \<Rightarrow> u8) \<Rightarrow> mem \<Rightarrow> u32 \<Rightarrow> u8 list \<Rightarrow> bool" where
  "mem_streq fold_case m a [] \<longleftrightarrow> m a = 0"
| "mem_streq fold_case m a (c # cs) \<longleftrightarrow> fold_case (m a) = fold_case c \<and> mem_streq fold_case m (a + 1) cs"

definition lower :: "u8 \<Rightarrow> u8" where
  "lower c = (if 65 \<le> c \<and> c \<le> 90 then c + 32 else c)"

text \<open>The walk over the thunks of one import; the result is whether to go on, whether a slot was patched, and memory.\<close>

fun thunk_walk :: "nat \<Rightarrow> hm_env \<Rightarrow> u32 \<Rightarrow> u8 list \<Rightarrow> u32 \<Rightarrow> u32 \<Rightarrow> u32 \<Rightarrow> bool \<Rightarrow> mem \<Rightarrow> (bool \<times> bool \<times> mem) option" where
  "thunk_walk 0 e img symbol detour orig thunk patched m = None"
| "thunk_walk (Suc fuel) e img symbol detour orig thunk patched m =
     (let d = read4 m orig
      in if d = 0 then Some (True, patched, m)
         else if d AND 0x80000000 \<noteq> 0 \<or> \<not> mem_streq id m (img + d + 2) symbol
         then thunk_walk fuel e img symbol detour (orig + 4) (thunk + 4) patched m
         else if \<not> make_memory_writable e thunk 4 then Some (False, patched, m)
         else thunk_walk fuel e img symbol detour (orig + 4) (thunk + 4) True (mem_write thunk (le4 detour) m))"

fun import_walk :: "nat \<Rightarrow> hm_env \<Rightarrow> u32 \<Rightarrow> u8 list \<Rightarrow> u8 list \<Rightarrow> u32 \<Rightarrow> u32 \<Rightarrow> bool \<Rightarrow> mem \<Rightarrow> (bool \<times> mem) option" where
  "import_walk 0 e img dll symbol detour imp patched m = None"
| "import_walk (Suc fuel) e img dll symbol detour imp patched m =
     (if read4 m (imp + 12) = 0 then Some (patched, m)
      else if \<not> mem_streq lower m (img + read4 m (imp + 12)) dll
      then import_walk fuel e img dll symbol detour (imp + 20) patched m
      else let thunk = img + read4 m (imp + 16);
               orig0 = img + read4 m imp;
               orig = (if orig0 = 0 then thunk else orig0)
           in case thunk_walk fuel e img symbol detour orig thunk patched m of
                None \<Rightarrow> None
              | Some (go, patched', m') \<Rightarrow>
                  if \<not> go then Some (False, m')
                  else import_walk fuel e img dll symbol detour (imp + 20) patched' m')"

definition hook_import :: "nat \<Rightarrow> hm_env \<Rightarrow> u32 \<Rightarrow> u8 list option \<Rightarrow> u8 list option \<Rightarrow> u32 \<Rightarrow> mem \<Rightarrow> (bool \<times> mem) option" where
  "hook_import fuel e img import_dll symbol detour m =
     (case (import_dll, symbol) of
        (Some dll, Some sname) \<Rightarrow>
          if img = 0 \<or> detour = 0 then Some (False, m)
          else if read2 m img \<noteq> 0x5A4D then Some (False, m)
          else let nt = img + read4 m (img + 0x3C)
               in if read4 m nt \<noteq> 0x4550 then Some (False, m)
                  else if read4 m (nt + 0x80) = 0 then Some (False, m)
                  else import_walk fuel e img dll sname detour (img + read4 m (nt + 0x80)) False m
      | _ \<Rightarrow> Some (False, m))"

section \<open>Reads and writes\<close>

lemma mem_write_in: "unat (x - a) < length bs \<Longrightarrow> mem_write a bs m x = bs ! unat (x - a)"
  by (simp add: mem_write_def)

lemma mem_write_out: "\<not> unat (x - a) < length bs \<Longrightarrow> mem_write a bs m x = m x"
  by (simp add: mem_write_def)

lemma length_mem_read [simp]: "length (mem_read m a n) = n"
  by (simp add: mem_read_def)

lemma length_jump [simp]: "length (jump_patch t f) = 5"
  by (simp add: jump_patch_def le4_def)

lemma nth_mem_read: "unat (x - a) < n \<Longrightarrow> mem_read m a n ! unat (x - a) = m x"
  by (simp add: mem_read_def)

lemma mem_read_cong: "(\<And>x. unat (x - a) < n \<Longrightarrow> m x = m' x) \<Longrightarrow> n \<le> 2 ^ 32 \<Longrightarrow> mem_read m a n = mem_read m' a n"
proof -
  assume eq: "\<And>x. unat (x - a) < n \<Longrightarrow> m x = m' x" and n: "n \<le> 2 ^ 32"
  have "m (a + word_of_nat i) = m' (a + word_of_nat i)" if "i < n" for i
    using that n by (intro eq) (simp add: unat_u32_of_nat)
  then show ?thesis by (simp add: mem_read_def)
qed

lemma mem_read_write: "length bs \<le> 2 ^ 32 \<Longrightarrow> mem_read (mem_write a bs m) a (length bs) = bs"
  by (rule nth_equalityI) (simp_all add: mem_read_def mem_write_def unat_u32_of_nat)

section \<open>Detours that do not overlap\<close>

definition tgt :: "hm_env \<Rightarrow> hm \<Rightarrow> nat \<Rightarrow> u32" where
  "tgt e s i = target_of e (hs_addr (hm_stub s i))"

definition jump :: "hm_env \<Rightarrow> hm \<Rightarrow> nat \<Rightarrow> u8 list" where
  "jump e s i = jump_patch (tgt e s i) (hs_function (hm_stub s i))"

definition hooked :: "hm \<Rightarrow> nat \<Rightarrow> bool" where
  "hooked s i = hs_hooked (hm_stub s i)"

text \<open>The twelve saved bytes of any two stubs are apart.\<close>

definition apart :: "hm_env \<Rightarrow> hm \<Rightarrow> nat set \<Rightarrow> bool" where
  "apart e s S \<longleftrightarrow> (\<forall>i\<in>S. \<forall>j\<in>S. i \<noteq> j \<longrightarrow> (\<forall>x. \<not> (unat (x - tgt e s i) < 12 \<and> unat (x - tgt e s j) < 12)))"

text \<open>
  The invariant: memory is the original \<open>m0\<close> with the jumps of the hooked stubs, every hooked stub is registered,
  and every registered stub has the original bytes of its target.
\<close>

definition hm_inv :: "hm_env \<Rightarrow> nat set \<Rightarrow> mem \<Rightarrow> hm \<Rightarrow> bool" where
  "hm_inv e S m0 s \<longleftrightarrow> apart e s S \<and> set (hm_hooks s) \<subseteq> S
     \<and> (\<forall>i\<in>S. hooked s i \<longrightarrow> i \<in> set (hm_hooks s))
     \<and> (\<forall>i\<in>set (hm_hooks s). hs_orig (hm_stub s i) = mem_read m0 (tgt e s i) 12)
     \<and> (\<forall>i\<in>S. hooked s i \<longrightarrow> (\<forall>x. unat (x - tgt e s i) < 5 \<longrightarrow> hm_mem s x = jump e s i ! unat (x - tgt e s i)))
     \<and> (\<forall>x. (\<forall>i\<in>S. hooked s i \<longrightarrow> \<not> unat (x - tgt e s i) < 5) \<longrightarrow> hm_mem s x = m0 x)"

lemma hm_invD:
  assumes "hm_inv e S m0 s"
  shows "apart e s S" "set (hm_hooks s) \<subseteq> S"
    "\<And>i. i \<in> S \<Longrightarrow> hooked s i \<Longrightarrow> i \<in> set (hm_hooks s)"
    "\<And>i. i \<in> set (hm_hooks s) \<Longrightarrow> hs_orig (hm_stub s i) = mem_read m0 (tgt e s i) 12"
    "\<And>i x. i \<in> S \<Longrightarrow> hooked s i \<Longrightarrow> unat (x - tgt e s i) < 5 \<Longrightarrow> hm_mem s x = jump e s i ! unat (x - tgt e s i)"
    "\<And>x. (\<And>i. i \<in> S \<Longrightarrow> hooked s i \<Longrightarrow> \<not> unat (x - tgt e s i) < 5) \<Longrightarrow> hm_mem s x = m0 x"
  using assms unfolding hm_inv_def by blast+

lemma apartD: "apart e s S \<Longrightarrow> i \<in> S \<Longrightarrow> j \<in> S \<Longrightarrow> unat (x - tgt e s i) < 12 \<Longrightarrow> unat (x - tgt e s j) < 12 \<Longrightarrow> i = j"
  unfolding apart_def by blast

text \<open>Putting the bytes of stub \<open>i\<close> back, and writing its jump, on a state that satisfies the invariant.\<close>

definition unpatched :: "nat \<Rightarrow> u32 \<Rightarrow> hm \<Rightarrow> hm" where
  "unpatched i a s = upd_stub i (\<lambda>h. h\<lparr>hs_hooked := False\<rparr>) (s\<lparr>hm_mem := mem_write a (hs_orig (hm_stub s i)) (hm_mem s)\<rparr>)"

definition patched :: "nat \<Rightarrow> u32 \<Rightarrow> hm \<Rightarrow> hm" where
  "patched i a s = upd_stub i (\<lambda>h. h\<lparr>hs_hooked := True\<rparr>)
     (s\<lparr>hm_mem := mem_write a (jump_patch a (hs_function (hm_stub s i))) (hm_mem s)\<rparr>)"

lemma patch_fields [simp]:
  "tgt e (unpatched i a s) j = tgt e s j" "tgt e (patched i a s) j = tgt e s j"
  "jump e (unpatched i a s) j = jump e s j" "jump e (patched i a s) j = jump e s j"
  "hooked (unpatched i a s) j = (j \<noteq> i \<and> hooked s j)" "hooked (patched i a s) j = (j = i \<or> hooked s j)"
  "hm_hooks (unpatched i a s) = hm_hooks s" "hm_hooks (patched i a s) = hm_hooks s"
  "hs_orig (hm_stub (unpatched i a s) j) = hs_orig (hm_stub s j)"
  "hs_orig (hm_stub (patched i a s) j) = hs_orig (hm_stub s j)"
  "hm_mem (unpatched i a s) = mem_write a (hs_orig (hm_stub s i)) (hm_mem s)"
  "hm_mem (patched i a s) = mem_write a (jump_patch a (hs_function (hm_stub s i))) (hm_mem s)"
  "apart e (unpatched i a s) S = apart e s S" "apart e (patched i a s) S = apart e s S"
  "hm_syshooks (unpatched i a s) = hm_syshooks s" "hm_syshooks (patched i a s) = hm_syshooks s"
  by (auto simp: unpatched_def patched_def upd_stub_def tgt_def jump_def hooked_def apart_def)

lemma inv_unpatched:
  assumes I: "hm_inv e S m0 s" and i: "i \<in> S" "hooked s i"
  shows "hm_inv e S m0 (unpatched i (tgt e s i) s)"
proof -
  note d = hm_invD [OF I]
  have o: "hs_orig (hm_stub s i) = mem_read m0 (tgt e s i) 12" using d(3,4) i by blast
  have inw: "mem_write (tgt e s i) (hs_orig (hm_stub s i)) (hm_mem s) x = m0 x" if "unat (x - tgt e s i) < 12" for x
    using that o by (simp add: mem_write_in nth_mem_read)
  have out: "mem_write (tgt e s i) (hs_orig (hm_stub s i)) (hm_mem s) x = hm_mem s x" if "\<not> unat (x - tgt e s i) < 12" for x
    using that o by (simp add: mem_write_out)
  have A: "mem_write (tgt e s i) (hs_orig (hm_stub s i)) (hm_mem s) x = jump e s j ! unat (x - tgt e s j)"
    if "j \<in> S" "j \<noteq> i" "hooked s j" "unat (x - tgt e s j) < 5" for j x
  proof -
    have "\<not> unat (x - tgt e s i) < 12" using apartD [OF d(1) i(1) that(1), of x] that(2,4) by linarith
    then show ?thesis using out d(5) that by simp
  qed
  have B: "mem_write (tgt e s i) (hs_orig (hm_stub s i)) (hm_mem s) x = m0 x"
    if "\<forall>j\<in>S. j \<noteq> i \<and> hooked s j \<longrightarrow> \<not> unat (x - tgt e s j) < 5" for x
  proof (cases "unat (x - tgt e s i) < 12")
    case True
    then show ?thesis by (rule inw)
  next
    case False
    then have "hm_mem s x = m0 x" by (intro d(6)) (use that in fastforce)
    with out [OF False] show ?thesis by simp
  qed
  show ?thesis unfolding hm_inv_def using d(1-4) A B by auto
qed

lemma inv_patched:
  assumes I: "hm_inv e S m0 s" and i: "i \<in> S" "\<not> hooked s i" "i \<in> set (hm_hooks s)"
  shows "hm_inv e S m0 (patched i (tgt e s i) s)"
proof -
  note d = hm_invD [OF I]
  have j: "jump_patch (tgt e s i) (hs_function (hm_stub s i)) = jump e s i" by (simp add: jump_def)
  have inw: "mem_write (tgt e s i) (jump e s i) (hm_mem s) x = jump e s i ! unat (x - tgt e s i)"
    if "unat (x - tgt e s i) < 5" for x using that by (simp add: jump_def mem_write_in)
  have out: "mem_write (tgt e s i) (jump e s i) (hm_mem s) x = hm_mem s x" if "\<not> unat (x - tgt e s i) < 5" for x
    using that by (simp add: jump_def mem_write_out)
  have A: "mem_write (tgt e s i) (jump e s i) (hm_mem s) x = jump e s k ! unat (x - tgt e s k)"
    if "k \<in> S" "k = i \<or> hooked s k" "unat (x - tgt e s k) < 5" for k x
  proof (cases "k = i")
    case True
    then show ?thesis using inw that(3) by simp
  next
    case False
    then have "\<not> unat (x - tgt e s i) < 5" using apartD [OF d(1) i(1) that(1), of x] that(3) by linarith
    then show ?thesis using out d(5) that False by simp
  qed
  have B: "mem_write (tgt e s i) (jump e s i) (hm_mem s) x = m0 x"
    if "\<forall>k\<in>S. k = i \<or> hooked s k \<longrightarrow> \<not> unat (x - tgt e s k) < 5" for x
    using out [of x] d(6) [of x] that i(1) by auto
  show ?thesis unfolding hm_inv_def using d(1-4) A B i(3) by (auto simp: j)
qed

lemma lock_fields [simp]:
  "hm_mem (lock_patch s) = hm_mem s" "hm_stub (lock_patch s) = hm_stub s" "hm_hooks (lock_patch s) = hm_hooks s"
  "hm_syshooks (lock_patch s) = hm_syshooks s" "tgt e (lock_patch s) i = tgt e s i" "hooked (lock_patch s) i = hooked s i"
  "jump e (lock_patch s) i = jump e s i" "apart e (lock_patch s) S = apart e s S"
  by (simp_all add: lock_patch_def tgt_def hooked_def jump_def apart_def)

lemma inv_lock [simp]: "hm_inv e S m0 (lock_patch s) = hm_inv e S m0 s"
  by (simp add: hm_inv_def)

definition saved :: "nat \<Rightarrow> u32 \<Rightarrow> hm \<Rightarrow> hm" where
  "saved i a s = upd_stub i (\<lambda>h. h\<lparr>hs_orig := mem_read (hm_mem s) a 12\<rparr>) s"

lemma saved_tgt [simp]: "tgt e (saved i a s) j = tgt e s j"
  by (simp add: saved_def upd_stub_def tgt_def)

lemma saved_fields [simp]:
  "hm_mem (saved i a s) = hm_mem s" "hm_hooks (saved i a s) = hm_hooks s" "hm_syshooks (saved i a s) = hm_syshooks s"
  "hooked (saved i a s) j = hooked s j" "jump e (saved i a s) j = jump e s j"
  "apart e (saved i a s) S = apart e s S"
  "hs_orig (hm_stub (saved i a s) j) = (if j = i then mem_read (hm_mem s) a 12 else hs_orig (hm_stub s j))"
  by (simp_all add: jump_def apart_def) (simp_all add: saved_def upd_stub_def hooked_def)

lemma clean_window:
  assumes I: "hm_inv e S m0 s" and i: "i \<in> S" "\<not> hooked s i"
  shows "mem_read (hm_mem s) (tgt e s i) 12 = mem_read m0 (tgt e s i) 12"
proof (rule mem_read_cong)
  note d = hm_invD [OF I]
  fix x assume x: "unat (x - tgt e s i) < 12"
  show "hm_mem s x = m0 x"
  proof (rule d(6))
    fix j assume j: "j \<in> S" "hooked s j"
    then have "j \<noteq> i" using i(2) by auto
    then show "\<not> unat (x - tgt e s j) < 5" using apartD [OF d(1) i(1) j(1) x] by linarith
  qed
qed simp

lemma inv_saved: "hm_inv e S m0 s \<Longrightarrow> i \<in> S \<Longrightarrow> \<not> hooked s i \<Longrightarrow> hm_inv e S m0 (saved i (tgt e s i) s)"
  using clean_window [of e S m0 s i] by (auto simp: hm_inv_def)

lemma inv_register:
  "hm_inv e S m0 s \<Longrightarrow> i \<in> S \<Longrightarrow> hs_orig (hm_stub s i) = mem_read m0 (tgt e s i) 12 \<Longrightarrow>
   hm_inv e S m0 (s\<lparr>hm_hooks := hm_hooks s @ [i]\<rparr>)"
  by (auto simp: hm_inv_def tgt_def hooked_def jump_def apart_def)

lemma target_same: "he_main e' = he_main e \<Longrightarrow> target_of e' (hs_addr (hm_stub s i)) = tgt e s i"
  by (simp add: target_of_def tgt_def)

lemma make_hook_ways:
  assumes "he_main e' = he_main e"
  shows "snd (make_hook e' i s) = lock_patch s
    \<or> \<not> hooked s i \<and> snd (make_hook e' i s) = saved i (tgt e s i) (lock_patch s)
    \<or> \<not> hooked s i \<and> snd (make_hook e' i s) =
        patched i (tgt e s i) ((saved i (tgt e s i) (lock_patch s))\<lparr>hm_hooks := hm_hooks s @ [i]\<rparr>)"
  by (auto simp: make_hook_def Let_def hooked_def saved_def patched_def upd_stub_def write_memory_def
      target_same [OF assms])

lemma restore_hook_ways:
  assumes "he_main e' = he_main e"
  shows "snd (restore_hook e' i s) = lock_patch s
    \<or> hooked s i \<and> snd (restore_hook e' i s) = unpatched i (tgt e s i) (lock_patch s)"
  by (auto simp: restore_hook_def Let_def hooked_def unpatched_def upd_stub_def write_memory_def target_same [OF assms])

lemma inv_make:
  assumes "hm_inv e S m0 s" "i \<in> S" "he_main e' = he_main e"
  shows "hm_inv e S m0 (snd (make_hook e' i s)) \<and> set (hm_hooks s) \<subseteq> set (hm_hooks (snd (make_hook e' i s)))"
proof -
  consider "snd (make_hook e' i s) = lock_patch s"
    | (failed) "\<not> hooked s i" "snd (make_hook e' i s) = saved i (tgt e s i) (lock_patch s)"
    | (made) "\<not> hooked s i" "snd (make_hook e' i s) =
        patched i (tgt e s i) ((saved i (tgt e s i) (lock_patch s))\<lparr>hm_hooks := hm_hooks s @ [i]\<rparr>)"
    using make_hook_ways [OF assms(3)] by blast
  then show ?thesis
  proof cases
  case 1
  then show ?thesis using assms(1) by simp
next
  case failed
  then show ?thesis using inv_saved [of e S m0 "lock_patch s" i] assms(1,2) by simp
next
  case made
  let ?t = "saved i (tgt e s i) (lock_patch s)"
  let ?u = "?t\<lparr>hm_hooks := hm_hooks s @ [i]\<rparr>"
  have t: "hm_inv e S m0 ?t" using inv_saved [of e S m0 "lock_patch s" i] assms(1,2) made(1) by simp
  have "hs_orig (hm_stub ?t i) = mem_read m0 (tgt e ?t i) 12"
    using clean_window [OF assms(1,2) made(1)] by simp
  from inv_register [OF t assms(2) this] have u: "hm_inv e S m0 ?u" by simp
  have f: "tgt e ?u i = tgt e s i" "hooked ?u i = hooked s i" by (simp_all add: tgt_def hooked_def saved_def upd_stub_def)
  have "hm_inv e S m0 (patched i (tgt e ?u i) ?u)"
    by (rule inv_patched [OF u assms(2)]) (use f made(1) in simp_all)
  then show ?thesis using made(2) f by auto
  qed
qed

lemma inv_restore:
  assumes "hm_inv e S m0 s" "i \<in> S" "he_main e' = he_main e"
  shows "hm_inv e S m0 (snd (restore_hook e' i s)) \<and> set (hm_hooks s) \<subseteq> set (hm_hooks (snd (restore_hook e' i s)))"
  using restore_hook_ways [OF assms(3), of i s] inv_unpatched [of e S m0 "lock_patch s" i] assms(1,2) by auto

section \<open>Runs\<close>

text \<open>
  What the program does with its stubs: making, restoring, and invoking the original of a hooked function,
  where the called code may itself do all of this. The answers of Windows may differ from step to step.
\<close>

inductive hm_run :: "hm_env \<Rightarrow> nat set \<Rightarrow> hm \<Rightarrow> hm \<Rightarrow> bool" for e S where
  run_start: "hm_run e S s s"
| run_make: "hm_run e S s t \<Longrightarrow> i \<in> S \<Longrightarrow> he_main e' = he_main e \<Longrightarrow> hm_run e S s (snd (make_hook e' i t))"
| run_restore: "hm_run e S s t \<Longrightarrow> i \<in> S \<Longrightarrow> he_main e' = he_main e \<Longrightarrow> hm_run e S s (snd (restore_hook e' i t))"
| run_invoke: "hm_run e S s t \<Longrightarrow> i \<in> S \<Longrightarrow> hooked t i \<Longrightarrow> he_main e' = he_main e \<Longrightarrow> he_main e \<noteq> 0 \<Longrightarrow>
    (\<And>u. hm_run e S u (snd (f u))) \<Longrightarrow> hm_run e S s (snd (invoke_hooked e' i (Some f) t))"

lemma invoke_ways:
  fixes f :: "hm \<Rightarrow> cxx_error option \<times> hm"
  assumes "he_main e' = he_main e" "he_main e \<noteq> 0" "hooked s i"
  defines "u \<equiv> snd (f (unpatched i (tgt e s i) (lock_patch s)))"
  shows "snd (invoke_hooked e' i (Some f) s) = lock_patch s
    \<or> snd (invoke_hooked e' i (Some f) s) = u
    \<or> \<not> hooked u i \<and> snd (invoke_hooked e' i (Some f) s) =
        upd_stub i (\<lambda>h. h\<lparr>hs_hooked := True\<rparr>)
          (u\<lparr>hm_mem := mem_write (tgt e s i) (jump_patch (tgt e s i) (hs_function (hm_stub u i))) (hm_mem u)\<rparr>)"
proof -
  have up: "upd_stub i (\<lambda>h. h\<lparr>hs_hooked := False\<rparr>)
      ((lock_patch s)\<lparr>hm_mem := mem_write (tgt e s i) (hs_orig (hm_stub s i)) (hm_mem s)\<rparr>) = unpatched i (tgt e s i) (lock_patch s)"
    by (simp add: unpatched_def)
  have m: "he_main e' \<noteq> 0" and hs: "hs_hooked (hm_stub s i)" using assms(1-3) by (simp_all add: hooked_def)
  show ?thesis
    by (auto simp: invoke_hooked_def Let_def m hs target_same [OF assms(1)] write_memory_def up u_def hooked_def
        split: prod.splits option.splits)
qed

lemma stub_addr_kept:
  "tgt e (snd (make_hook e' i s)) j = tgt e s j" "tgt e (snd (restore_hook e' i s)) j = tgt e s j"
  by (auto simp: make_hook_def restore_hook_def Let_def tgt_def upd_stub_def write_memory_def)

lemma hm_run_inv:
  "hm_run e S s t \<Longrightarrow> hm_inv e S m0 s \<Longrightarrow>
   hm_inv e S m0 t \<and> set (hm_hooks s) \<subseteq> set (hm_hooks t) \<and> (\<forall>i. tgt e t i = tgt e s i)"
proof (induction rule: hm_run.induct)
  case (run_start s)
  then show ?case by simp
next
  case (run_make s t i e')
  then show ?case using inv_make [of e S m0 t i e'] by (auto simp: stub_addr_kept)
next
  case (run_restore s t i e')
  then show ?case using inv_restore [of e S m0 t i e'] by (auto simp: stub_addr_kept)
next
  case (run_invoke s t i e' f)
  let ?a = "unpatched i (tgt e t i) (lock_patch t)"
  let ?u = "snd (f ?a)"
  have t: "hm_inv e S m0 t" "set (hm_hooks s) \<subseteq> set (hm_hooks t)" "\<forall>j. tgt e t j = tgt e s j"
    using run_invoke.IH(1) [OF run_invoke.prems] by auto
  have a: "hm_inv e S m0 ?a" using inv_unpatched [of e S m0 "lock_patch t" i] t(1) run_invoke.hyps(2,3) by simp
  have u: "hm_inv e S m0 ?u" "set (hm_hooks t) \<subseteq> set (hm_hooks ?u)" "\<forall>j. tgt e ?u j = tgt e t j"
    using run_invoke.IH(2) [OF a] by auto
  have "hm_inv e S m0 (patched i (tgt e t i) ?u) \<and> set (hm_hooks (patched i (tgt e t i) ?u)) = set (hm_hooks ?u)"
    if "\<not> hooked ?u i"
    using inv_patched [OF u(1) run_invoke.hyps(2) that] u(2,3) hm_invD(3) [OF t(1) run_invoke.hyps(2,3)] by auto
  then show ?case
    using invoke_ways [OF run_invoke.hyps(4,5,3), of f] t u
    by (auto simp: patched_def tgt_def upd_stub_def)
qed

section \<open>Giving everything back\<close>

text \<open>An environment in which Windows refuses nothing.\<close>

definition he_grants :: "hm_env \<Rightarrow> bool" where
  "he_grants e \<longleftrightarrow> (\<forall>a n. he_protect e a n \<and> he_write e a n)"

lemma restore_hook_granted:
  assumes "he_grants e"
  shows "fst (restore_hook e i s)" "\<not> hooked (snd (restore_hook e i s)) i"
    "hooked (snd (restore_hook e i s)) j \<Longrightarrow> hooked s j"
    "hm_hooks (snd (restore_hook e i s)) = hm_hooks s" "hm_syshooks (snd (restore_hook e i s)) = hm_syshooks s"
  using assms by (auto simp: restore_hook_def Let_def he_grants_def make_memory_writable_def write_memory_def hooked_def
      upd_stub_def split: if_splits)

lemma restore_while_granted:
  assumes g: "he_grants e"
  shows "hm_inv e S m0 s \<Longrightarrow> set is \<subseteq> S \<Longrightarrow>
    (let (ok, t) = restore_while_ok (restore_hook e) is True s
     in ok \<and> hm_inv e S m0 t \<and> hm_syshooks t = hm_syshooks s
        \<and> (\<forall>j. hooked t j \<longrightarrow> hooked s j \<and> j \<notin> set is))"
proof (induction "is" arbitrary: s)
  case Nil
  then show ?case by simp
next
  case (Cons i "is")
  obtain ok t where r: "restore_hook e i s = (ok, t)" by (cases "restore_hook e i s")
  have t: "ok" "hm_inv e S m0 t" "hm_syshooks t = hm_syshooks s" "\<not> hooked t i" "\<And>j. hooked t j \<Longrightarrow> hooked s j"
    using restore_hook_granted [OF g, of i s] inv_restore [OF Cons.prems(1), of i e] Cons.prems(2) r by auto
  show ?case using Cons.IH [OF t(2)] Cons.prems(2) r t by (auto simp: Let_def split: prod.splits)
qed

lemma hm_run_syshooks: "hm_run e S s t \<Longrightarrow> hm_syshooks t = hm_syshooks s"
proof (induction rule: hm_run.induct)
  case (run_invoke s t i e' f)
  then show ?case using invoke_ways [OF run_invoke.hyps(4,5,3), of f] by (auto simp: upd_stub_def)
qed (auto simp: make_hook_def restore_hook_def Let_def upd_stub_def write_memory_def lock_patch_def)


text \<open>Two stubs over a memory of counted bytes.\<close>

definition demo_he :: hm_env where
  "demo_he = \<lparr>he_main = 0x400000, he_protect = (\<lambda>_ _. True), he_write = (\<lambda>_ _. True),
     he_module = (\<lambda>_. True), he_proc = (\<lambda>_ _. 0)\<rparr>"

definition demo_hm :: hm where
  "demo_hm = \<lparr>hm_mem = (\<lambda>x. ucast x),
     hm_stub = (\<lambda>i. \<lparr>hs_addr = (if i = 0 then 0x401000 else 0x402000), hs_function = 0x10001000,
       hs_orig = replicate 12 0, hs_hooked = False\<rparr>),
     hm_sys = (\<lambda>_. \<lparr>ss_modname = [], ss_symname = [], ss_handler = 0, ss_hooked = False, ss_patched = 0, ss_sym = 0\<rparr>),
     hm_hooks = [], hm_syshooks = [], hm_lock_ready = False\<rparr>"

lemma demo_apart: "apart demo_he demo_hm {0, 1}"
proof -
  have t: "tgt demo_he demo_hm 0 = 0x401000" "tgt demo_he demo_hm (Suc 0) = 0x402000"
    by (simp_all add: tgt_def target_of_def demo_he_def demo_hm_def)
  have k: False if "unat (x - 0x401000 :: u32) < 12" "unat (x - 0x402000 :: u32) < 12" for x :: u32
  proof -
    have "x - 0x401000 = (x - 0x402000) + 0x1000" by simp
    then have "unat (x - 0x401000) = unat (x - 0x402000) + 0x1000"
      using that(2) unat_u32_add_small [of "x - 0x402000" "0x1000"] by simp
    then show False using that(1) by simp
  qed
  show ?thesis unfolding apart_def using k by (auto simp: t)
qed

lemma demo_run: "hm_run demo_he {0, 1} demo_hm
    (snd (restore_hook demo_he 0 (snd (make_hook demo_he 1 (snd (make_hook demo_he 0 demo_hm))))))"
  by (intro hm_run.intros) simp_all


section \<open>Findings\<close>

text \<open>Invoking the original of a stub that was never made hooks it nevertheless, without registering it and with no
  original bytes saved: restoring all hooks leaves it, and restoring it writes twelve zero bytes over the code.\<close>

theorem invoke_hooks_unmade:
  assumes "\<not> hooked s i" "hs_orig (hm_stub s i) = replicate 12 0" "i \<notin> set (hm_hooks s)" "he_main e \<noteq> 0" "he_grants e"
  shows "let t = snd (invoke_hooked e i (Some (\<lambda>u. (None, u))) s)
    in hooked t i \<and> i \<notin> set (hm_hooks t) \<and> mem_read (hm_mem t) (tgt e s i) 5 = jump e s i
      \<and> mem_read (hm_mem (snd (restore_hook e i t))) (tgt e s i) 12 = replicate 12 0"
proof -
  define t where "t = snd (invoke_hooked e i (Some (\<lambda>u. (None, u))) s)"
  have w: "make_memory_writable e a n" "write_memory e a bs u = (True, u\<lparr>hm_mem := mem_write a bs (hm_mem u)\<rparr>)" for a n bs u
    using assms(5) by (simp_all add: he_grants_def make_memory_writable_def write_memory_def)
  have t: "t = patched i (tgt e s i) (lock_patch s)"
    using assms(1,4) by (simp add: t_def invoke_hooked_def Let_def w patched_def hooked_def target_same)
  have r: "snd (restore_hook e i t) = unpatched i (tgt e s i) (lock_patch t)"
    using t by (simp add: restore_hook_def Let_def w unpatched_def target_same)
      (simp add: t patched_def upd_stub_def hooked_def)
  have "mem_read (hm_mem t) (tgt e s i) 5 = jump e s i"
    using mem_read_write [of "jump e s i" "tgt e s i" "hm_mem s"] by (simp add: t jump_def)
  moreover have "mem_read (hm_mem (snd (restore_hook e i t))) (tgt e s i) 12 = replicate 12 0"
    using mem_read_write [of "hs_orig (hm_stub s i)" "tgt e s i" "hm_mem t"] assms(2) by (simp add: r) (simp add: t)
  moreover have "hooked t i \<and> i \<notin> set (hm_hooks t)" using assms(3) by (simp add: t)
  ultimately show ?thesis unfolding Let_def t_def [symmetric] by blast
qed

theorem invoke_hooks_unmade_witness:
  "let t = snd (invoke_hooked demo_he 0 (Some (\<lambda>u. (None, u))) demo_hm)
   in hooked t 0 \<and> 0 \<notin> set (hm_hooks t) \<and> mem_read (hm_mem (snd (restore_hook demo_he 0 t))) 0x401000 12 = replicate 12 0"
  using invoke_hooks_unmade [of demo_hm 0 demo_he]
  by (simp add: Let_def demo_hm_def demo_he_def he_grants_def hooked_def tgt_def target_of_def)

text \<open>An import whose \<open>OriginalFirstThunk\<close> is 0: the null test is made on the address, not on the field, so the names
  are looked up in the header of the image.\<close>

lemma import_without_names:
  assumes "read4 m imp = 0" "img \<noteq> 0" "read4 m (imp + 12) \<noteq> 0" "mem_streq lower m (img + read4 m (imp + 12)) dll"
  shows "import_walk (Suc fuel) e img dll symbol detour imp p m =
    (case thunk_walk fuel e img symbol detour img (img + read4 m (imp + 16)) p m of
       None \<Rightarrow> None
     | Some (go, p', m') \<Rightarrow> if \<not> go then Some (False, m') else import_walk fuel e img dll symbol detour (imp + 20) p' m')"
  using assms by (simp add: Let_def)

end
