(* ===== verification/ProudConnect.thy ===== *)
theory ProudConnect
  imports Net
begin

text \<open>
  The two reimplemented connect helpers of the game, \<open>src/game/net/proud_connect.cpp\<close>, with what they call:
  opening the socket, parsing and printing IPv4 addresses, binding to a local address, connecting with the
  server override.

  Texts are byte lists without their terminating zero. The connect context and its manager are memory of the
  game: the records have the fields the code uses, named by their offsets where the code has no name. What
  Winsock and the callbacks answer is a record of answers; what is called is a trace, newest event last. Log lines are
  left out, the error texts they carry are modelled.
\<close>

section \<open>Texts of IPv4 addresses\<close>

fun dec_text :: "nat \<Rightarrow> u8 list" where
  "dec_text n = (if n < 10 then [word_of_nat (48 + n)] else dec_text (n div 10) @ [word_of_nat (48 + n mod 10)])"

declare dec_text.simps [simp del]

definition addr_bytes :: "u32 \<Rightarrow> u8 list" where
  "addr_bytes a = [ucast a, ucast (drop_bit 8 a), ucast (drop_bit 16 a), ucast (drop_bit 24 a)]"

definition addr_of_bytes :: "u8 list \<Rightarrow> u32" where
  "addr_of_bytes bs = ucast (bs ! 0) OR push_bit 8 (ucast (bs ! 1)) OR push_bit 16 (ucast (bs ! 2))
     OR push_bit 24 (ucast (bs ! 3))"

definition octet_text :: "u8 \<Rightarrow> u8 list" where
  "octet_text b = dec_text (unat b)"

text \<open>\<open>snprintf\<close> with \<open>%u.%u.%u.%u\<close>: the text counts only when it fits with its terminator.\<close>

definition format_ipv4 :: "u32 \<Rightarrow> nat \<Rightarrow> u8 list option" where
  "format_ipv4 a buf_len =
     (let b = addr_bytes a;
          out = octet_text (b ! 0) @ [46] @ octet_text (b ! 1) @ [46] @ octet_text (b ! 2) @ [46] @ octet_text (b ! 3)
      in if 0 < length out \<and> length out < buf_len then Some out else None)"

text \<open>The inner loop over the digits of one octet: the value and the rest of the text, \<open>None\<close> above 255.\<close>

fun octet_digits :: "nat \<Rightarrow> u8 list \<Rightarrow> (nat \<times> u8 list) option" where
  "octet_digits v [] = Some (v, [])"
| "octet_digits v (c # cs) =
     (if 48 \<le> c \<and> c \<le> 57 then
        (let v' = v * 10 + unat (c - 48) in if v' > 255 then None else octet_digits v' cs)
      else Some (v, c # cs))"

lemma octet_digits_shorter: "octet_digits v cs = Some (r, rest) \<Longrightarrow> length rest \<le> length cs"
  by (induction v cs rule: octet_digits.induct) (auto simp: Let_def split: if_splits)

function parse_octets :: "u8 list \<Rightarrow> u8 list \<Rightarrow> u8 list option" where
  "parse_octets octs [] = (if length octs = 4 then Some octs else None)"
| "parse_octets octs (c # cs) =
     (if 48 \<le> c \<and> c \<le> 57 then
        (case octet_digits 0 (c # cs) of
           None \<Rightarrow> None
         | Some (v, rest) \<Rightarrow>
             if length octs = 4 then None
             else (case rest of
                 [] \<Rightarrow> if length octs = 3 then Some (octs @ [word_of_nat v]) else None
               | d # ds \<Rightarrow> if d \<noteq> 46 then None else parse_octets (octs @ [word_of_nat v]) ds))
      else None)"
  by pat_completeness auto
termination
  by (relation "measure (\<lambda>(octs, cs). length cs)") (auto dest!: octet_digits_shorter simp del: octet_digits.simps)

text \<open>\<open>InetPtonA\<close> is asked first; the answer is the text's length with its terminator and the address.\<close>

definition parse_ipv4_dotted :: "(u8 list \<Rightarrow> u32 option) \<Rightarrow> u8 list option \<Rightarrow> (nat \<times> u32) option" where
  "parse_ipv4_dotted inet_pton s =
     (case s of
        None \<Rightarrow> None
      | Some txt \<Rightarrow>
          if txt = [] then None
          else (case inet_pton txt of
              Some a \<Rightarrow> Some (length txt + 1, a)
            | None \<Rightarrow> map_option (\<lambda>octs. (length txt + 1, addr_of_bytes octs)) (parse_octets [] txt)))"

section \<open>Error texts\<close>

text \<open>Cut at the last occurrence of a character, when it is not before \<open>least\<close>.\<close>

definition cut_last :: "u8 \<Rightarrow> nat \<Rightarrow> u8 list \<Rightarrow> u8 list" where
  "cut_last ch least s =
     (if ch \<notin> set s then s
      else let i = length s - 1 - length (takeWhile (\<lambda>c. c \<noteq> ch) (rev s)) in if least \<le> i then take i s else s)"

record error_texts =
  et_nerr :: u32                 \<comment> \<open>\<open>_sys_nerr\<close>\<close>
  et_strerror :: "u32 \<Rightarrow> u8 list option"
  et_message :: "u32 \<Rightarrow> u8 list option"   \<comment> \<open>\<open>FormatMessageA\<close> into 255 bytes\<close>
  et_unknown :: "u32 \<Rightarrow> u8 list"          \<comment> \<open>the text of \<open>snprintf\<close>\<close>

definition format_wsa_error :: "error_texts \<Rightarrow> u32 \<Rightarrow> u8 list" where
  "format_wsa_error et code =
     (let out = (if code < et_nerr et then (case et_strerror et code of None \<Rightarrow> [] | Some s \<Rightarrow> take 255 s)
                 else (case et_message et code of
                     Some s \<Rightarrow> take 254 s
                   | None \<Rightarrow> take 254 (et_unknown et code)))
      in cut_last 13 1 (cut_last 10 2 out))"

section \<open>Context, manager and answers\<close>

record pctx =
  px_host40 :: "u8 list"         \<comment> \<open>46 bytes at +0x40\<close>
  px_type :: int                 \<comment> \<open>\<open>ctx[29]\<close>, which is also +0x74\<close>
  px_host9e :: "u8 list"         \<comment> \<open>46 bytes at +0x9E\<close>
  px_port51 :: u32               \<comment> \<open>\<open>ctx[51]\<close>, its low half is the port at +0xCC\<close>
  px_host52 :: "u8 list"         \<comment> \<open>46 bytes at \<open>ctx + 52\<close>\<close>
  px_port64 :: u32
  px_close_cb :: bool            \<comment> \<open>\<open>ctx[10]\<close>\<close>
  px_close_arg :: u32            \<comment> \<open>\<open>ctx[11]\<close>\<close>
  px_sock77 :: socket
  px_flag79 :: u32
  px_bound127 :: u32
  px_tick204 :: u32
  px_zero208 :: u32
  px_addrs20c :: int

record pmgr =
  pm_factory :: bool             \<comment> \<open>\<open>mgr[93]\<close>\<close>
  pm_sock_cb :: bool             \<comment> \<open>\<open>mgr[91]\<close>\<close>
  pm_nodelay :: u32              \<comment> \<open>\<open>mgr[197]\<close>\<close>
  pm_keepalive :: u32            \<comment> \<open>\<open>mgr[258]\<close>\<close>
  pm_port :: u16                 \<comment> \<open>\<open>mgr[80]\<close>\<close>
  pm_retries :: int              \<comment> \<open>\<open>mgr[81]\<close>\<close>
  pm_iface :: "u8 list option"   \<comment> \<open>\<open>mgr[213]\<close>\<close>
  pm_err :: u32                  \<comment> \<open>\<open>mgr[8549]\<close>\<close>
  pm_peer_host :: "u8 list"      \<comment> \<open>+34524\<close>
  pm_peer_port :: u32            \<comment> \<open>+34572\<close>
  pm_local_host :: "u8 list"     \<comment> \<open>+34576\<close>
  pm_local_port :: u32           \<comment> \<open>+34624\<close>

record addr_info =
  ai_family :: int
  ai_protocol :: int
  ai_addrlen :: u32
  ai_addr :: "u8 list"

datatype pevent =
    PSocket int int int | PFactory
  | PSetNoDelay socket u32 | PGetRcvBuf socket | PSetRcvBuf socket int | PSetKeepAlive socket u32
  | PNonBlock socket | PSockCb socket | PTimer
  | PResolve "u8 list" | PBind socket u16 u32 | PGetName socket
  | PConnect socket u16 sockaddr_in u32
  | PClose socket | PCloseCb u32

record panswers =
  pa_socket :: socket
  pa_rcvbuf :: "int option"      \<comment> \<open>\<open>getsockopt(SO_RCVBUF)\<close>\<close>
  pa_sock_cb :: int
  pa_resolve :: "int \<Rightarrow> u8 list \<Rightarrow> (int \<times> u32) list option"   \<comment> \<open>\<open>getaddrinfo\<close>: families and addresses\<close>
  pa_pton :: "u8 list \<Rightarrow> u32 option"
  pa_bind :: "u16 \<Rightarrow> bool"
  pa_getname :: bool
  pa_last :: u32                 \<comment> \<open>\<open>WSAGetLastError\<close> after a failure\<close>
  pa_tick :: u32
  pa_connect :: bool
  pa_texts :: error_texts
  pa_inet_addr :: "string \<Rightarrow> u32"
  pa_cfg :: override_config

record pworld =
  pw_ctx :: pctx
  pw_mgr :: pmgr
  pw_statics :: override_statics
  pw_error :: "u8 list"          \<comment> \<open>the text at \<open>ctx\<close> + 684\<close>
  pw_trace :: "pevent list"

definition pev :: "pevent \<Rightarrow> pworld \<Rightarrow> pworld" where
  "pev e w = w\<lparr>pw_trace := pw_trace w @ [e]\<rparr>"

definition pctx_upd :: "(pctx \<Rightarrow> pctx) \<Rightarrow> pworld \<Rightarrow> pworld" where
  "pctx_upd f w = w\<lparr>pw_ctx := f (pw_ctx w)\<rparr>"

definition pmgr_upd :: "(pmgr \<Rightarrow> pmgr) \<Rightarrow> pworld \<Rightarrow> pworld" where
  "pmgr_upd f w = w\<lparr>pw_mgr := f (pw_mgr w)\<rparr>"

definition note_error :: "panswers \<Rightarrow> pworld \<Rightarrow> pworld" where
  "note_error an w = w\<lparr>pw_error := format_wsa_error (pa_texts an) (pa_last an)\<rparr>"


section \<open>Socket options\<close>

definition copy_ctx_fields :: "pworld \<Rightarrow> pworld" where
  "copy_ctx_fields w =
     (let c = pw_ctx w
      in pmgr_upd (\<lambda>m. m\<lparr>pm_peer_host := px_host9e c, pm_local_host := px_host52 c,
           pm_peer_port := px_port51 c, pm_local_port := px_port64 c\<rparr>) w)"

text \<open>The error text of a refused \<open>TCP_NODELAY\<close> is made as for the others; whether it is refused is the first argument.\<close>

definition tcp_nodelay :: "bool \<Rightarrow> panswers \<Rightarrow> socket \<Rightarrow> pworld \<Rightarrow> pworld" where
  "tcp_nodelay refused an s w =
     (let w1 = pev (PSetNoDelay s (pm_nodelay (pw_mgr w))) w in if refused then note_error an w1 else w1)"

definition recvbuf_floor :: "panswers \<Rightarrow> socket \<Rightarrow> pworld \<Rightarrow> pworld" where
  "recvbuf_floor an s w =
     (let w1 = pev (PGetRcvBuf s) w
      in if (case pa_rcvbuf an of None \<Rightarrow> True | Some cur \<Rightarrow> cur \<le> 16416) then pev (PSetRcvBuf s 16416) w1 else w1)"

definition set_keepalive :: "socket \<Rightarrow> pworld \<Rightarrow> pworld" where
  "set_keepalive s w = pev (PSetKeepAlive s (if pm_keepalive (pw_mgr w) \<noteq> 0 then 1 else 0)) w"

definition close_socket_ctx :: "socket \<Rightarrow> pworld \<Rightarrow> pworld" where
  "close_socket_ctx s w =
     (let c = pw_ctx w
      in if \<not> px_close_cb c then pev (PClose s) w
         else if s = px_sock77 c \<and> px_flag79 c \<noteq> 0 then pev (PClose s) (pctx_upd (\<lambda>x. x\<lparr>px_flag79 := 0\<rparr>) w)
         else pev (PCloseCb (px_close_arg c)) w)"

section \<open>Opening\<close>

text \<open>
  The socket options are the four ints and the sixteen bytes of the name of the caller's buffer: a longer address
  is copied behind its end.
\<close>

record sockbuf =
  sf_family :: int
  sf_type :: int
  sf_protocol :: int
  sf_len :: u32
  sf_name :: "u8 list"

definition open_socket :: "panswers \<Rightarrow> addr_info \<Rightarrow> pworld \<Rightarrow> (int \<times> sockbuf \<times> socket \<times> pworld) res" where
  "open_socket an ai w =
     (let af = ai_family ai;
          type = px_type (pw_ctx w);
          protocol = (if type = 2 then ai_protocol ai else 17);
          opt_len = (if ai_addrlen ai > 0x80 then 0x80 else ai_addrlen ai);
          n = unat opt_len
      in if length (ai_addr ai) < n then Inl OobRead
         else if 16 < n then Inl OobWrite
         else let name = take n (ai_addr ai) @ replicate (16 - n) 0;
                  opts = \<lparr>sf_family = af, sf_type = type, sf_protocol = protocol, sf_len = opt_len, sf_name = name\<rparr>;
                  s = pa_socket an;
                  w1 = pev (if pm_factory (pw_mgr w) then PFactory else PSocket af type protocol) w
              in Inr (if s = INVALID_SOCKET then 7 else 0, opts, s, w1))"

definition name_family :: "u8 list \<Rightarrow> u16" where
  "name_family bs = ucast (bs ! 0) OR push_bit 8 (ucast (bs ! 1))"

definition name_in :: "u8 list \<Rightarrow> sockaddr_in" where
  "name_in bs = \<lparr>sin_port = ucast (bs ! 2) OR push_bit 8 (ucast (bs ! 3)), s_addr = addr_of_bytes (drop 4 bs)\<rparr>"

definition pad46 :: "u8 list \<Rightarrow> u8 list" where
  "pad46 s = take 46 (s @ replicate 46 0)"

definition resolve_sockaddr :: "u8 list \<Rightarrow> pworld \<Rightarrow> bool \<times> pworld" where
  "resolve_sockaddr name w =
     (if name_family name \<noteq> AF_INET then (False, w)
      else (case format_ipv4 (s_addr (name_in name)) 46 of
          None \<Rightarrow> (False, w)
        | Some host \<Rightarrow>
            (True, pctx_upd (\<lambda>c. c\<lparr>px_host9e := pad46 host,
               px_port51 := (px_port51 c AND 0xFFFF0000) OR ucast (ntohs (sin_port (name_in name)))\<rparr>) w)))"

definition connect_is_pending :: "u32 \<Rightarrow> bool" where
  "connect_is_pending err \<longleftrightarrow> err = 10035 \<or> (10034 < sint err \<and> sint err \<le> 10036)"

definition connect_with_remap :: "panswers \<Rightarrow> socket \<Rightarrow> u8 list \<Rightarrow> u32 \<Rightarrow> pworld \<Rightarrow> pworld" where
  "connect_with_remap an s name namelen w =
     (if sint namelen \<ge> 16 \<and> name_family name = AF_INET then
        (let (_, sa, os) = remap_sockaddr_in (pa_inet_addr an) (pa_cfg an) (name_in name) (pw_statics w)
         in pev (PConnect s AF_INET sa namelen) (w\<lparr>pw_statics := os\<rparr>))
      else pev (PConnect s (name_family name) (name_in name) namelen) w)"

section \<open>Binding\<close>

definition kIfPrefix :: "u8 list" where "kIfPrefix = [105, 102, 33]"
definition kHostPrefix :: "u8 list" where "kHostPrefix = [104, 111, 115, 116, 33]"

definition starts_with_prefix :: "u8 list \<Rightarrow> u8 list \<Rightarrow> bool" where
  "starts_with_prefix s p \<longleftrightarrow> take (length p) s = p"

definition strip_prefix :: "u8 list \<Rightarrow> u8 list \<Rightarrow> u8 list" where
  "strip_prefix s p = (if starts_with_prefix s p then drop (length p) s else s)"

definition resolve_local_interface :: "int \<Rightarrow> u8 list \<Rightarrow> u8 list option" where
  "resolve_local_interface af iface = None"

fun first_ipv4 :: "nat \<Rightarrow> (int \<times> u32) list \<Rightarrow> u8 list option" where
  "first_ipv4 n [] = None"
| "first_ipv4 n ((fam, a) # rs) =
     (if fam \<noteq> 2 then first_ipv4 n rs
      else (case format_ipv4 a n of None \<Rightarrow> first_ipv4 n rs | Some t \<Rightarrow> Some t))"

definition resolve_hostname :: "panswers \<Rightarrow> int \<Rightarrow> u8 list \<Rightarrow> u8 list option" where
  "resolve_hostname an af host =
     (case pa_resolve an (if af = 2 then 2 else 0) host of None \<Rightarrow> None | Some rs \<Rightarrow> first_ipv4 256 rs)"

definition bind_event :: "socket \<Rightarrow> u16 \<Rightarrow> u32 \<Rightarrow> pworld \<Rightarrow> pworld" where
  "bind_event s port a = pev (PBind s port a)"

text \<open>The loop over the next ports: the port that was bound, or that none was.\<close>

function bind_retry :: "panswers \<Rightarrow> socket \<Rightarrow> u32 \<Rightarrow> u16 \<Rightarrow> int \<Rightarrow> pworld \<Rightarrow> (u16 option \<times> pworld) res" where
  "bind_retry an s a port retries w =
     (if \<not> i32_ok (retries - 1) then Inl SignedOverflow
      else if retries - 1 > 0 then
        (let port' = port + 1; w1 = bind_event s port' a w
         in if pa_bind an port' then Inr (Some port', w1) else bind_retry an s a port' (retries - 1) w1)
      else Inr (None, w))"
  by pat_completeness auto
termination by (relation "measure (\<lambda>(an, s, a, port, retries, w). nat retries)") auto

declare bind_retry.simps [simp del]

definition bind_name :: "panswers \<Rightarrow> socket \<Rightarrow> u32 \<Rightarrow> u16 \<Rightarrow> int \<Rightarrow> pworld \<Rightarrow> (int \<times> pworld) res" where
  "bind_name an s a port retries w =
     (let w1 = bind_event s port a w
      in bindR (if pa_bind an port then Inr (Some port, w1) else bind_retry an s a port retries w1) (\<lambda>(bound, w2).
         case bound of
           None \<Rightarrow> Inr (45, note_error an (pmgr_upd (\<lambda>m. m\<lparr>pm_err := pa_last an\<rparr>) w2))
         | Some _ \<Rightarrow>
             let w3 = pev (PGetName s) w2
             in if pa_getname an then Inr (0, pctx_upd (\<lambda>c. c\<lparr>px_bound127 := 1\<rparr>) w3)
                else Inr (45, note_error an (pmgr_upd (\<lambda>m. m\<lparr>pm_err := pa_last an\<rparr>) w3))))"

definition w_bind_3 :: "panswers \<Rightarrow> socket \<Rightarrow> int \<Rightarrow> pworld \<Rightarrow> (int \<times> pworld) res" where
  "w_bind_3 an s af w =
     (let port = pm_port (pw_mgr w); retries = pm_retries (pw_mgr w)
      in case pm_iface (pw_mgr w) of
           None \<Rightarrow> if port = 0 then Inr (0, w) else if af = 2 then bind_name an s 0 port retries w else Inr (0, w)
         | Some iface \<Rightarrow>
             if length iface < 0xFF then
               (if starts_with_prefix iface kIfPrefix
                   \<and> resolve_local_interface af (strip_prefix iface kIfPrefix) = None then Inr (45, w)
                else let host = (if starts_with_prefix iface kIfPrefix then strip_prefix iface kIfPrefix
                                 else strip_prefix iface kHostPrefix);
                         w1 = pev (PResolve host) w;
                         found = (if starts_with_prefix iface kIfPrefix then resolve_local_interface af host
                                  else resolve_hostname an af host)
                     in case found of
                          None \<Rightarrow> Inr (45, w1)
                        | Some ip_text \<Rightarrow>
                            if af = 2 then
                              (case parse_ipv4_dotted (pa_pton an) (Some ip_text) of
                                 None \<Rightarrow> Inr (0, w1)
                               | Some (_, a) \<Rightarrow> bind_name an s a port retries w1)
                            else Inr (0, w1))
             else if af = 2 then bind_name an s 0 port retries w
             else Inr (0, w))"

section \<open>Connecting\<close>

definition w_connect_3 :: "panswers \<Rightarrow> socket \<Rightarrow> u8 list \<Rightarrow> pworld \<Rightarrow> bool \<times> pworld" where
  "w_connect_3 an s peer w =
     (let (sa, os) =
        (if name_family peer = AF_INET
         then (let (_, sa, os) = remap_sockaddr_in (pa_inet_addr an) (pa_cfg an) (name_in peer) (pw_statics w) in (sa, os))
         else (name_in peer, pw_statics w))
      in (pa_connect an, pev (PConnect s (name_family peer) sa 16) (w\<lparr>pw_statics := os\<rparr>)))"

text \<open>From the bind on: the result code and the socket that is handed out.\<close>

definition finish_connect :: "panswers \<Rightarrow> sockbuf \<Rightarrow> socket \<Rightarrow> bool \<Rightarrow> pworld \<Rightarrow> (int \<times> socket \<times> pworld) res" where
  "finish_connect an buf sock skip w =
     bindR (w_bind_3 an sock (sf_family buf) w) (\<lambda>(bind_rc, w1).
       if bind_rc \<noteq> 0 then Inr (bind_rc, INVALID_SOCKET, close_socket_ctx sock w1)
       else let w2 = pev (PNonBlock sock) w1;
                w3 = pctx_upd (\<lambda>c. c\<lparr>px_tick204 := pa_tick an div 1000, px_zero208 := 0\<rparr>) w2;
                w4 = (if px_addrs20c (pw_ctx w3) > 1 then pev PTimer w3 else w3)
            in if skip \<or> px_type (pw_ctx w4) \<noteq> 1 then Inr (0, sock, w4)
               else let w5 = connect_with_remap an sock (sf_name buf) (sf_len buf) w4
                    in if pa_connect an \<or> connect_is_pending (pa_last an) then Inr (0, sock, w5)
                       else Inr (0, INVALID_SOCKET,
                         close_socket_ctx sock (pmgr_upd (\<lambda>m. m\<lparr>pm_err := pa_last an\<rparr>) (note_error an w5))))"

definition w_connect_2 :: "bool \<Rightarrow> panswers \<Rightarrow> addr_info \<Rightarrow> pworld \<Rightarrow> (int \<times> socket \<times> pworld) res" where
  "w_connect_2 nodelay_refused an ai w =
     bindR (open_socket an ai w) (\<lambda>(rc, buf, sock, w1).
       if rc \<noteq> 0 then Inr (0, INVALID_SOCKET, w1)
       else let (ok, w2) = resolve_sockaddr (sf_name buf) w1
            in if \<not> ok then Inr (0, INVALID_SOCKET, close_socket_ctx sock (note_error an w2))
               else let w3 = copy_ctx_fields (pctx_upd (\<lambda>c. c\<lparr>px_host40 := px_host9e c\<rparr>) w2);
                        w4 = (if pm_nodelay (pw_mgr w3) \<noteq> 0 then tcp_nodelay nodelay_refused an sock w3 else w3);
                        w5 = recvbuf_floor an sock w4;
                        w6 = (if pm_keepalive (pw_mgr w5) \<noteq> 0 then set_keepalive sock w5 else w5)
                    in if pm_sock_cb (pw_mgr w6) then
                         (let w7 = pev (PSockCb sock) w6
                          in if pa_sock_cb an \<noteq> 0 \<and> pa_sock_cb an \<noteq> 2 then Inr (42, INVALID_SOCKET, close_socket_ctx sock w7)
                             else finish_connect an buf sock (pa_sock_cb an = 2) w7)
                       else finish_connect an buf sock False w6)"

section \<open>Addresses and their texts\<close>

lemma unat_u8_of_nat: "m < 256 \<Longrightarrow> unat (word_of_nat m :: u8) = m"
  by (simp add: unat_of_nat take_bit_eq_mod)

lemma digit_char:
  assumes "k < 10"
  shows "48 \<le> (word_of_nat (48 + k) :: u8)" "(word_of_nat (48 + k) :: u8) \<le> 57"
    "unat ((word_of_nat (48 + k) :: u8) - 48) = k"
proof -
  have u: "unat (word_of_nat (48 + k) :: u8) = 48 + k" by (rule unat_u8_of_nat) (use assms in simp)
  show "48 \<le> (word_of_nat (48 + k) :: u8)" "(word_of_nat (48 + k) :: u8) \<le> 57"
    using assms u by (simp_all add: word_le_nat_alt)
  have "(word_of_nat (48 + k) :: u8) - 48 = word_of_nat k" by simp
  then show "unat ((word_of_nat (48 + k) :: u8) - 48) = k"
    using assms unat_u8_of_nat [of k] by simp
qed

lemma octet_digits_step:
  "k < 10 \<Longrightarrow> v * 10 + k \<le> 255 \<Longrightarrow> octet_digits v (word_of_nat (48 + k) # cs) = octet_digits (v * 10 + k) cs"
  using digit_char [of k] by (simp add: Let_def)

lemma octet_digits_text:
  assumes n: "n \<le> 255" and rest: "rest = [] \<or> hd rest = 46"
  shows "octet_digits 0 (dec_text n @ rest) = Some (n, rest)"
proof -
  have stop: "octet_digits v rest = Some (v, rest)" for v using rest by (cases rest) auto
  consider "n < 10" | "10 \<le> n" "n < 100" | "100 \<le> n" by linarith
  then show ?thesis
  proof cases
    case 1
    then show ?thesis using octet_digits_step [of n 0] stop by (simp add: dec_text.simps)
  next
    case 2
    have "n div 10 < 10" using 2 by simp
    then have "dec_text n = [word_of_nat (48 + n div 10), word_of_nat (48 + n mod 10)]"
      using 2 by (simp add: dec_text.simps [of n] dec_text.simps [of "n div 10"])
    then show ?thesis
      using 2 octet_digits_step [of "n div 10" 0] octet_digits_step [of "n mod 10" "n div 10"] stop by simp
  next
    case 3
    have e: "n div 10 div 10 * 10 + n div 10 mod 10 = n div 10" "n div 10 * 10 + n mod 10 = n" by simp_all
    have "\<not> n div 10 < 10" "n div 10 div 10 < 10" using 3 n by simp_all
    then have d: "dec_text n = [word_of_nat (48 + n div 10 div 10), word_of_nat (48 + n div 10 mod 10), word_of_nat (48 + n mod 10)]"
      using 3 n by (simp add: dec_text.simps [of n] dec_text.simps [of "n div 10"] dec_text.simps [of "n div 10 div 10"])
    have s: "octet_digits 0 (word_of_nat (48 + n div 10 div 10) # cs) = octet_digits (n div 10 div 10) cs"
      "octet_digits (n div 10 div 10) (word_of_nat (48 + n div 10 mod 10) # cs) = octet_digits (n div 10) cs"
      "octet_digits (n div 10) (word_of_nat (48 + n mod 10) # cs) = octet_digits n cs" for cs
      using octet_digits_step [of "n div 10 div 10" 0] octet_digits_step [of "n div 10 mod 10" "n div 10 div 10"]
        octet_digits_step [of "n mod 10" "n div 10"] n unfolding e by (simp_all del: octet_digits.simps)
    show ?thesis unfolding d by (simp only: append_Cons append_Nil s stop)
  qed
qed

lemma dec_text_Cons: obtains k cs where "dec_text n = word_of_nat (48 + k) # cs" "k < 10"
proof (induction n arbitrary: thesis rule: dec_text.induct)
  case (1 n)
  show ?case
  proof (cases "n < 10")
    case True
    then show ?thesis by (intro "1.prems" [of n "[]"]) (simp_all add: dec_text.simps)
  next
    case False
    then obtain k cs where "dec_text (n div 10) = word_of_nat (48 + k) # cs" "k < 10" using "1.IH" by blast
    then show ?thesis using False by (intro "1.prems" [of k "cs @ [word_of_nat (48 + n mod 10)]"]) (simp_all add: dec_text.simps [of n])
  qed
qed

lemma parse_octets_step:
  assumes "length octs < 4" "rest = [] \<or> hd rest = 46"
  shows "parse_octets octs (octet_text b @ rest) =
    (case rest of [] \<Rightarrow> if length octs = 3 then Some (octs @ [b]) else None | d # ds \<Rightarrow> parse_octets (octs @ [b]) ds)"
proof -
  have n: "unat b \<le> 255" using unsigned_less [of b, where ?'a = nat] by simp
  obtain k cs where c: "dec_text (unat b) = word_of_nat (48 + k) # cs" "k < 10" by (rule dec_text_Cons)
  have "octet_digits 0 ((word_of_nat (48 + k) # cs) @ rest) = Some (unat b, rest)"
    using octet_digits_text [OF n assms(2)] c(1) by simp
  then show ?thesis
    using assms c(1) digit_char [OF c(2)]
    by (auto simp: octet_text_def simp del: octet_digits.simps split: list.splits)
qed

lemma addr_bytes_inverse: "addr_of_bytes (addr_bytes a) = a"
proof -
  have m: "ucast (x AND 0xFF) = (ucast x :: u8)" for x :: u32
  proof -
    have m: "(0xFF :: u32) = mask 8" by (simp add: mask_eq_exp_minus_1)
    show ?thesis unfolding m by (auto intro!: bit_word_eqI simp: bit_simps)
  qed
  show ?thesis using le_bytes4 [of a] by (simp add: addr_of_bytes_def addr_bytes_def m)
qed

lemma octet_text_nonempty: "octet_text b \<noteq> []"
  by (metis dec_text_Cons list.discI octet_text_def)

lemma octet_text_length: "length (octet_text b) \<le> 3"
proof -
  have n: "unat b < 256" using unsigned_less [of b, where ?'a = nat] by simp
  show ?thesis using n
    by (simp add: octet_text_def dec_text.simps [of "unat b"] dec_text.simps [of "unat b div 10"]
        dec_text.simps [of "unat b div 10 div 10"])
qed

text \<open> C38: an IPv4 address printed into a buffer of at least 16 bytes is parsed back, by the program's own parser when
  \<open>InetPtonA\<close> refuses the text and by \<open>InetPtonA\<close> when it knows it.\<close>

theorem ipv4_text_roundtrip:
  assumes "16 \<le> n" "\<And>s b. pton s = Some b \<Longrightarrow> parse_octets [] s = Some (addr_bytes b)"
  shows "case format_ipv4 a n of None \<Rightarrow> False
    | Some txt \<Rightarrow> length txt < 16 \<and> parse_ipv4_dotted pton (Some txt) = Some (length txt + 1, a)"
proof -
  let ?b = "addr_bytes a"
  let ?txt = "octet_text (?b ! 0) @ [46] @ octet_text (?b ! 1) @ [46] @ octet_text (?b ! 2) @ [46] @ octet_text (?b ! 3)"
  have l: "length ?txt < 16"
    using octet_text_length [of "?b ! 0"] octet_text_length [of "?b ! 1"] octet_text_length [of "?b ! 2"]
      octet_text_length [of "?b ! 3"] by simp
  have p: "parse_octets [] ?txt = Some ?b"
    using parse_octets_step [of "[?b ! 0, ?b ! 1, ?b ! 2]" "[]" "?b ! 3"] by (simp add: parse_octets_step) (simp add: addr_bytes_def)
  have "addr_bytes x = addr_bytes y \<Longrightarrow> x = y" for x y by (metis addr_bytes_inverse)
  then have "parse_ipv4_dotted pton (Some ?txt) = Some (length ?txt + 1, a)"
    using assms(2) p addr_bytes_inverse [of a] octet_text_nonempty
    by (auto simp: parse_ipv4_dotted_def split: option.splits)
  then show ?thesis using l assms(1) by (simp add: format_ipv4_def Let_def)
qed

theorem ipv4_text_roundtrip_witness:
  "case format_ipv4 0x34C9B889 46 of None \<Rightarrow> False
   | Some txt \<Rightarrow> length txt < 16 \<and> parse_ipv4_dotted (\<lambda>_. None) (Some txt) = Some (length txt + 1, 0x34C9B889)"
  by (rule ipv4_text_roundtrip) simp_all

text \<open>The program's parser also accepts a text that ends in a dot.\<close>

lemma parse_octets_trailing_dot:
  assumes "format_ipv4 a 16 = Some txt"
  shows "parse_octets [] (txt @ [46]) = Some (addr_bytes a)"
  using assms by (auto simp: format_ipv4_def Let_def parse_octets_step split: if_splits) (simp add: addr_bytes_def)


section \<open>What becomes of the socket\<close>

definition is_close :: "pevent \<Rightarrow> bool" where
  "is_close e = (case e of PClose _ \<Rightarrow> True | PCloseCb _ \<Rightarrow> True | _ \<Rightarrow> False)"

definition closes :: "pworld \<Rightarrow> nat" where
  "closes w = length (filter is_close (pw_trace w))"

lemma closes_simps [simp]:
  "closes (pev e w) = closes w + (if is_close e then 1 else 0)"
  "closes (pctx_upd f w) = closes w" "closes (pmgr_upd g w) = closes w" "closes (note_error an w) = closes w"
  "closes (w\<lparr>pw_statics := os\<rparr>) = closes w"
  by (simp_all add: closes_def pev_def pctx_upd_def pmgr_upd_def note_error_def)

lemma is_close_simps [simp]:
  "is_close (PClose s)" "is_close (PCloseCb a)" "\<not> is_close (PSocket x y z)" "\<not> is_close PFactory"
  "\<not> is_close (PSetNoDelay s v)" "\<not> is_close (PGetRcvBuf s)" "\<not> is_close (PSetRcvBuf s i)" "\<not> is_close (PSetKeepAlive s v)"
  "\<not> is_close (PNonBlock s)" "\<not> is_close (PSockCb s)" "\<not> is_close PTimer" "\<not> is_close (PResolve h)"
  "\<not> is_close (PBind s p a)" "\<not> is_close (PGetName s)" "\<not> is_close (PConnect s f sa n)"
  by (simp_all add: is_close_def)

lemma closes_close [simp]: "closes (close_socket_ctx s w) = Suc (closes w)"
  by (simp add: close_socket_ctx_def Let_def)

lemma closes_options [simp]:
  "closes (tcp_nodelay r an s w) = closes w" "closes (recvbuf_floor an s w) = closes w" "closes (set_keepalive s w) = closes w"
  "closes (copy_ctx_fields w) = closes w" "closes (bind_event s p a w) = closes w"
  "closes (connect_with_remap an s name n w) = closes w"
  by (simp_all add: tcp_nodelay_def recvbuf_floor_def set_keepalive_def copy_ctx_fields_def bind_event_def
      connect_with_remap_def Let_def split: prod.splits)

lemma closes_retry: "bind_retry an s a port retries w = Inr (b, w') \<Longrightarrow> closes w' = closes w"
proof (induction an s a port retries w rule: bind_retry.induct)
  case (1 an s a port retries w)
  then show ?case
    by (subst (asm) (2) bind_retry.simps) (auto simp: Let_def split: if_splits)
qed

lemma closes_bind_name: "bind_name an s a port retries w = Inr (rc, w') \<Longrightarrow> closes w' = closes w"
  by (auto simp: bind_name_def Let_def bindR_eq_Inr dest!: closes_retry split: if_splits option.splits)

lemma closes_bind: "w_bind_3 an s af w = Inr (rc, w') \<Longrightarrow> closes w' = closes w"
  by (auto simp: w_bind_3_def Let_def dest!: closes_bind_name split: if_splits option.splits)

lemma finish_connect_accounts:
  assumes "finish_connect an buf sock skip w = Inr (rc, out, w')" "sock \<noteq> INVALID_SOCKET"
  shows "if out = INVALID_SOCKET then closes w' = Suc (closes w) else out = sock \<and> rc = 0 \<and> closes w' = closes w"
  using assms by (auto simp: finish_connect_def Let_def bindR_eq_Inr closes_bind split: if_splits)


definition demo_panswers :: panswers where
  "demo_panswers = \<lparr>pa_socket = 5, pa_rcvbuf = Some 8192, pa_sock_cb = 0, pa_resolve = (\<lambda>_ _. None), pa_pton = (\<lambda>_. None),
     pa_bind = (\<lambda>_. True), pa_getname = True, pa_last = 10061, pa_tick = 5000, pa_connect = False,
     pa_texts = \<lparr>et_nerr = 0, et_strerror = (\<lambda>_. None), et_message = (\<lambda>_. None), et_unknown = (\<lambda>_. [63])\<rparr>,
     pa_inet_addr = (\<lambda>_. 9), pa_cfg = \<lparr>server_override = False, server_ip = []\<rparr>\<rparr>"

definition demo_pworld :: pworld where
  "demo_pworld = \<lparr>
     pw_ctx = \<lparr>px_host40 = [], px_type = 1, px_host9e = [], px_port51 = 0, px_host52 = [], px_port64 = 0, px_close_cb = False,
       px_close_arg = 0, px_sock77 = 0, px_flag79 = 0, px_bound127 = 0, px_tick204 = 0, px_zero208 = 0,
       px_addrs20c = 0\<rparr>,
     pw_mgr = \<lparr>pm_factory = False, pm_sock_cb = False, pm_nodelay = 0, pm_keepalive = 0, pm_port = 0, pm_retries = 0, pm_iface = None,
       pm_err = 0, pm_peer_host = [], pm_peer_port = 0, pm_local_host = [], pm_local_port = 0\<rparr>,
     pw_statics = \<lparr>ov_pn_address = None, ov_target = None\<rparr>, pw_error = [], pw_trace = []\<rparr>"

text \<open>A connect that is refused: the socket is closed.\<close>

definition demo_ai :: addr_info where
  "demo_ai = \<lparr>ai_family = 2, ai_protocol = 6, ai_addrlen = 16,
     ai_addr = [2, 0, 0x1B, 0x58, 127, 0, 0, 1, 0, 0, 0, 0, 0, 0, 0, 0]\<rparr>"


text \<open>A stream socket is opened with protocol 17 (UDP); the address's own protocol is used for datagrams only.\<close>

lemma stream_socket_protocol:
  assumes "px_type (pw_ctx w) = 1" "\<not> pm_factory (pw_mgr w)" "open_socket an ai w = Inr (rc, buf, sock, w')"
  shows "pw_trace w' = pw_trace w @ [PSocket (ai_family ai) 1 17]"
  using assms by (auto simp: open_socket_def Let_def pev_def split: if_splits)

text \<open>An address longer than the name of the caller's buffer is copied behind it.\<close>

lemma long_address_overruns:
  assumes "16 < ai_addrlen ai" "128 \<le> length (ai_addr ai)"
  shows "open_socket an ai w = Inl OobWrite"
proof -
  have "16 < unat (if ai_addrlen ai > 0x80 then 0x80 else ai_addrlen ai)"
    "unat (if ai_addrlen ai > 0x80 then 0x80 else ai_addrlen ai) \<le> 128"
    using assms(1) by (auto simp: word_less_nat_alt word_le_nat_alt not_less)
  then show ?thesis using assms(2) by (auto simp: open_socket_def Let_def)
qed

end
