(* ===== verification/JsonEscape.thy ===== *)
theory JsonEscape
  imports Prelude
begin

text \<open>
  String helpers, \<open>src/helpers/strhelp.cpp\<close>: escaping a C string into a fixed buffer for a JSON text, and
  the bounded copies of strings that may not be readable. Source strings are byte lists without
  their terminating zero; the destination is all of its bytes. The converter to UTF-8 of the standard library
  is an argument.
\<close>

section \<open>Escaping\<close>

definition put_bytes :: "u8 list \<Rightarrow> nat \<Rightarrow> u8 list \<Rightarrow> u8 list res" where
  "put_bytes dst pos bs =
     (if pos + length bs \<le> length dst then Inr (take pos dst @ bs @ drop (pos + length bs) dst) else Inl OobWrite)"

definition hex_digit :: "u8 \<Rightarrow> u8" where
  "hex_digit d = (if d < 10 then 48 + d else 87 + d)"

text \<open>\<open>_snprintf_s\<close> with \<open>\\u%04x\<close>: six characters and the terminator, when they fit.\<close>

definition print_u :: "u8 \<Rightarrow> u8 list" where
  "print_u c = [92, 117, 48, 48, hex_digit (drop_bit 4 c), hex_digit (c AND 0xF)]"

text \<open>The loop; the size is the one the caller gives.\<close>

fun escape_loop :: "u8 list \<Rightarrow> nat \<Rightarrow> nat \<Rightarrow> u8 list \<Rightarrow> (nat \<times> u8 list) res" where
  "escape_loop [] dst_size pos dst = Inr (pos, dst)"
| "escape_loop (c # src) dst_size pos dst =
     (if \<not> pos + 1 < dst_size then Inr (pos, dst)
      else if c = 34 \<or> c = 92 then
        (if pos + 2 \<ge> dst_size then Inr (pos, dst)
         else bindR (put_bytes dst pos [92]) (\<lambda>d1. bindR (put_bytes d1 (pos + 1) [c]) (\<lambda>d2.
              escape_loop src dst_size (pos + 2) d2)))
      else if c = 10 then
        (if pos + 2 \<ge> dst_size then Inr (pos, dst)
         else bindR (put_bytes dst pos [92]) (\<lambda>d1. bindR (put_bytes d1 (pos + 1) [110]) (\<lambda>d2.
              escape_loop src dst_size (pos + 2) d2)))
      else if c = 13 then
        (if pos + 2 \<ge> dst_size then Inr (pos, dst)
         else bindR (put_bytes dst pos [92]) (\<lambda>d1. bindR (put_bytes d1 (pos + 1) [114]) (\<lambda>d2.
              escape_loop src dst_size (pos + 2) d2)))
      else if c = 9 then
        (if pos + 2 \<ge> dst_size then Inr (pos, dst)
         else bindR (put_bytes dst pos [92]) (\<lambda>d1. bindR (put_bytes d1 (pos + 1) [116]) (\<lambda>d2.
              escape_loop src dst_size (pos + 2) d2)))
      else if c < 0x20 then
        (if pos + 6 \<ge> dst_size then Inr (pos, dst)
         else bindR (put_bytes dst pos (print_u c @ [0])) (\<lambda>d1. escape_loop src dst_size (pos + 6) d1))
      else bindR (put_bytes dst pos [c]) (\<lambda>d1. escape_loop src dst_size (pos + 1) d1))"

definition json_escape :: "u8 list \<Rightarrow> nat \<Rightarrow> u8 list option \<Rightarrow> u8 list res" where
  "json_escape dst dst_size src =
     (if dst_size = 0 then Inr dst
      else bindR (case src of None \<Rightarrow> Inr (0, dst) | Some s \<Rightarrow> escape_loop s dst_size 0 dst) (\<lambda>(pos, d).
           put_bytes d pos [0]))"

section \<open>Bounded copies\<close>

definition kSafeStringMaxLen :: nat where "kSafeStringMaxLen = 4096"

text \<open>
  A string in memory: \<open>None\<close> is the null pointer; the bytes are what can be read before an access violation
  (which the structured handler turns into a failure), a zero among them ends the string.
\<close>

definition strnlen_s :: "'c::len word list \<Rightarrow> nat \<Rightarrow> nat option" where
  "strnlen_s mem cap =
     (let n = length (takeWhile (\<lambda>c. c \<noteq> 0) (take cap mem))
      in if n < length mem \<or> n = cap then Some n else None)"

definition try_copy_cstr :: "'c::len word list \<Rightarrow> nat \<Rightarrow> 'c word list option" where
  "try_copy_cstr mem cap = map_option (\<lambda>n. take n mem) (strnlen_s mem cap)"

definition string_to_string_safe :: "u8 list option \<Rightarrow> u8 list" where
  "string_to_string_safe str =
     (case str of None \<Rightarrow> [] | Some mem \<Rightarrow> (case try_copy_cstr mem kSafeStringMaxLen of None \<Rightarrow> [] | Some s \<Rightarrow> s))"

definition wstring_to_string :: "(u16 list \<Rightarrow> u8 list) \<Rightarrow> u16 list option \<Rightarrow> nat \<Rightarrow> u8 list" where
  "wstring_to_string to_bytes wide n = (case wide of None \<Rightarrow> [] | Some w \<Rightarrow> to_bytes (take n w))"

definition wstring_to_string_safe :: "(u16 list \<Rightarrow> u8 list) \<Rightarrow> u16 list option \<Rightarrow> u8 list" where
  "wstring_to_string_safe to_bytes str =
     (case str of
        None \<Rightarrow> []
      | Some mem \<Rightarrow> (case try_copy_cstr mem kSafeStringMaxLen of
          None \<Rightarrow> []
        | Some s \<Rightarrow> wstring_to_string to_bytes (Some s) (length s)))"

section \<open>What the escaped text is\<close>

definition esc :: "u8 \<Rightarrow> u8 list" where
  "esc c =
     (if c = 34 \<or> c = 92 then [92, c] else if c = 10 then [92, 110] else if c = 13 then [92, 114]
      else if c = 9 then [92, 116] else if c < 0x20 then print_u c else [c])"

text \<open>Reading an escaped text back as JSON does.\<close>

definition hex_val :: "u8 \<Rightarrow> nat option" where
  "hex_val d = (if 48 \<le> d \<and> d \<le> 57 then Some (unat d - 48)
     else if 97 \<le> d \<and> d \<le> 102 then Some (unat d - 87) else if 65 \<le> d \<and> d \<le> 70 then Some (unat d - 55) else None)"

fun unescape :: "u8 list \<Rightarrow> u8 list option" where
  "unescape [] = Some []"
| "unescape (c # cs) =
     (if c \<noteq> 92 then (if c = 34 then None else map_option (Cons c) (unescape cs))
      else (case cs of
          [] \<Rightarrow> None
        | e # es \<Rightarrow>
            if e = 34 \<or> e = 92 then map_option (Cons e) (unescape es)
            else if e = 110 then map_option (Cons 10) (unescape es)
            else if e = 114 then map_option (Cons 13) (unescape es)
            else if e = 116 then map_option (Cons 9) (unescape es)
            else if e = 117 then
              (case es of
                 a # b # x # y # fs \<Rightarrow>
                   if a = 48 \<and> b = 48 then
                     (case (hex_val x, hex_val y) of
                        (Some i, Some j) \<Rightarrow> map_option (Cons (word_of_nat (16 * i + j))) (unescape fs)
                      | _ \<Rightarrow> None)
                   else None
               | _ \<Rightarrow> None)
            else None))"

lemma put_bytes_ok: "pos + length bs \<le> length dst \<Longrightarrow>
   \<exists>d. put_bytes dst pos bs = Inr d \<and> length d = length dst \<and> take (pos + length bs) d = take pos dst @ bs"
  by (auto simp: put_bytes_def)

lemma put_bytes_twice: "put_bytes dst pos [a] = Inr d \<Longrightarrow> put_bytes d (pos + 1) [b] = put_bytes dst pos [a, b]"
  by (auto simp: put_bytes_def split: if_splits)

text \<open>Every branch of the loop writes the escape of its character.\<close>

lemma escape_loop_step:
  assumes "length dst = n"
  shows "escape_loop (c # src) n pos dst =
    (if pos + length (esc c) < n
     then escape_loop src n (pos + length (esc c))
       (take pos dst @ esc c @ (if c < 0x20 \<and> length (esc c) = 6 then [0] else [])
          @ drop (pos + length (esc c) + (if c < 0x20 \<and> length (esc c) = 6 then 1 else 0)) dst)
     else Inr (pos, dst))"
  using assms
  by (auto simp: esc_def put_bytes_def print_u_def min_def numeral_eq_Suc not_less Suc_le_eq split: if_splits)

definition escaped :: "u8 list \<Rightarrow> u8 list" where
  "escaped s = concat (map esc s)"

lemma escaped_simps [simp]: "escaped [] = []" "escaped (c # s) = esc c @ escaped s"
  by (simp_all add: escaped_def)

lemma small_cases: "c < 0x20 \<Longrightarrow> c \<in> set (map word_of_nat [0..<32])" for c :: u8
proof -
  assume "c < 0x20"
  then have "unat c < 32" by (simp add: word_less_nat_alt)
  moreover have "c = word_of_nat (unat c)" by simp
  ultimately show ?thesis by (auto intro!: image_eqI [of _ _ "unat c"])
qed

lemma hex_digits: "c < 0x20 \<Longrightarrow> hex_val (hex_digit (drop_bit 4 c)) = Some (unat c div 16)
    \<and> hex_val (hex_digit (c AND 0xF)) = Some (unat c mod 16)" for c :: u8
proof -
  assume "c < 0x20"
  moreover have "list_all (\<lambda>c :: u8. hex_val (hex_digit (drop_bit 4 c)) = Some (unat c div 16)
    \<and> hex_val (hex_digit (c AND 0xF)) = Some (unat c mod 16)) (map word_of_nat [0..<32])" by code_simp
  ultimately show ?thesis using small_cases by (auto simp only: list_all_iff)
qed

lemma unescape_esc: "unescape (esc c @ s) = map_option (Cons c) (unescape s)"
  using hex_digits [of c] by (auto simp: esc_def print_u_def)

lemma unescape_escaped: "unescape (escaped s) = Some s"
  by (induction s) (simp_all add: unescape_esc)

lemma escape_loop_result:
  "length dst = n \<Longrightarrow> pos < n \<Longrightarrow>
   \<exists>k d. escape_loop src n pos dst = Inr (pos + length (escaped (take k src)), d) \<and> length d = n
     \<and> take (pos + length (escaped (take k src))) d = take pos dst @ escaped (take k src)
     \<and> pos + length (escaped (take k src)) < n \<and> k \<le> length src
     \<and> (k < length src \<longrightarrow> n \<le> pos + length (escaped (take (Suc k) src)))"
proof (induction src arbitrary: pos dst)
  case Nil
  then show ?case by simp
next
  case (Cons c src)
  show ?case
  proof (cases "pos + length (esc c) < n")
    case True
    define tail where "tail = (if c < 0x20 \<and> length (esc c) = 6 then [0 :: u8] else [])"
    define dst' where "dst' = take pos dst @ esc c @ tail @ drop (pos + length (esc c) + length tail) dst"
    have run: "escape_loop (c # src) n pos dst = escape_loop src n (pos + length (esc c)) dst'"
      using escape_loop_step [OF Cons.prems(1), of c src pos] True by (simp add: dst'_def tail_def)
    have tl: "length tail \<le> 1" by (simp add: tail_def)
    have l: "length dst' = n" using Cons.prems True tl by (simp add: dst'_def)
    have t: "take (pos + length (esc c)) dst' = take pos dst @ esc c" using Cons.prems by (simp add: dst'_def)
    from Cons.IH [OF l True] obtain k d where k:
      "escape_loop src n (pos + length (esc c)) dst' = Inr (pos + length (esc c) + length (escaped (take k src)), d)" "length d = n"
      "take (pos + length (esc c) + length (escaped (take k src))) d = take (pos + length (esc c)) dst' @ escaped (take k src)"
      "pos + length (esc c) + length (escaped (take k src)) < n" "k \<le> length src"
      "k < length src \<longrightarrow> n \<le> pos + length (esc c) + length (escaped (take (Suc k) src))" by blast
    then show ?thesis using run t by (intro exI [of _ "Suc k"] exI [of _ d]) (simp add: add.assoc)
  next
    case False
    then have "escape_loop (c # src) n pos dst = Inr (pos, dst)"
      using escape_loop_step [OF Cons.prems(1), of c src pos] by simp
    then show ?thesis using False Cons.prems by (intro exI [of _ 0] exI [of _ dst]) simp
  qed
qed

lemma json_escape_text:
  assumes "length dst = n" "0 < n"
  shows "\<exists>k rest. json_escape dst n (Some src) = Inr (escaped (take k src) @ 0 # rest)
    \<and> length (escaped (take k src)) + 1 + length rest = n
    \<and> (if length (escaped src) < n then k = length src else n \<le> length (escaped (take (Suc k) src)))"
proof -
  from escape_loop_result [OF assms, of src] obtain k d where k:
    "escape_loop src n 0 dst = Inr (length (escaped (take k src)), d)" "length d = n"
    "take (length (escaped (take k src))) d = escaped (take k src)" "length (escaped (take k src)) < n" "k \<le> length src"
    "k < length src \<longrightarrow> n \<le> length (escaped (take (Suc k) src))" by auto
  have le: "length (escaped (take m src)) \<le> length (escaped src)" for m
  proof -
    have "escaped src = escaped (take m src) @ escaped (drop m src)"
      by (simp add: escaped_def flip: concat_append map_append)
    then show ?thesis by simp
  qed
  have "json_escape dst n (Some src) = Inr (escaped (take k src) @ 0 # drop (Suc (length (escaped (take k src)))) d)"
    using k assms(2) by (simp add: json_escape_def put_bytes_def)
  moreover have "if length (escaped src) < n then k = length src else n \<le> length (escaped (take (Suc k) src))"
    using k(4-6) le [of "Suc k"] by (cases "k = length src") auto
  ultimately show ?thesis using k(2,4)
    by (intro exI [of _ k] exI [of _ "drop (Suc (length (escaped (take k src)))) d"]) auto
qed

text \<open>No zero gets into the escape of a C string, so the text read back is all of it.\<close>

lemma esc_no_zero: "c \<noteq> 0 \<Longrightarrow> 0 \<notin> set (esc c)"
proof -
  have "list_all (\<lambda>c. c = 0 \<or> 0 \<notin> set (esc c)) (map word_of_nat [0..<256])" by code_simp
  from all_u8 [OF this, of c] show "c \<noteq> 0 \<Longrightarrow> 0 \<notin> set (esc c)" by simp
qed

lemma escaped_no_zero: "0 \<notin> set s \<Longrightarrow> 0 \<notin> set (escaped s)"
  by (induction s) (auto simp: esc_no_zero)

text \<open> C36: escaping never writes outside the buffer, always ends the text with a zero, and the text is the escape of the longest prefix of
  the source that fits: reading it back as JSON gives exactly that prefix.\<close>

theorem json_escape_longest_prefix:
  assumes "length dst = n" "0 < n"
  shows "\<exists>k rest. json_escape dst n (Some src) = Inr (escaped (take k src) @ 0 # rest)
    \<and> length (escaped (take k src)) + 1 + length rest = n
    \<and> unescape (escaped (take k src)) = Some (take k src)
    \<and> (if length (escaped src) < n then k = length src else n \<le> length (escaped (take (Suc k) src)))"
  using json_escape_text [OF assms] unescape_escaped by metis

theorem json_escape_longest_prefix_witness:
  "\<exists>k rest. json_escape (replicate 8 7) 8 (Some [65, 34, 10, 1, 66]) = Inr (escaped (take k [65, 34, 10, 1, 66]) @ 0 # rest)
    \<and> unescape (escaped (take k [65, 34, 10, 1, 66])) = Some (take k [65, 34, 10, 1, 66])"
  using json_escape_longest_prefix [of "replicate 8 7" 8 "[65, 34, 10, 1, 66]"] by auto

end
