(* ===== verification/ProudDb.thy ===== *)
theory ProudDb
  imports Prelude
begin

text \<open>
  The table of protocol names, \<open>src/thegame/proud_db.cpp\<close>: numbers in JSON values and keys, loading the
  opcode and RMI tables, and the comment a traced frame gets.

  A JSON value is a datatype; what the JSON library makes of a file is an argument. Its objects are association lists in
  the order in which the library iterates them. Texts are byte lists; a \<open>std::string\<close> may contain zero bytes,
  its \<open>c_str()\<close> ends at the first.
\<close>

section \<open>Numbers\<close>

datatype json =
    JUnsigned nat                \<comment> \<open>\<open>number_unsigned\<close>, below 2 ^ 64\<close>
  | JInteger int                 \<comment> \<open>\<open>number_integer\<close>, a negative number\<close>
  | JString "u8 list"
  | JObject "(u8 list \<times> json) list"
  | JOther

definition is_space_char :: "u8 \<Rightarrow> bool" where
  "is_space_char c \<longleftrightarrow> c = 32 \<or> (9 \<le> c \<and> c \<le> 13)"

definition trim_ascii :: "u8 list \<Rightarrow> u8 list" where
  "trim_ascii s = rev (dropWhile is_space_char (rev (dropWhile is_space_char s)))"

text \<open>The value of a character as a digit of the base, and \<open>strtoull\<close>: the number and how many characters it took,
  0 when there is no number. A minus sign negates modulo 2 ^ 64; a number out of range gives 2 ^ 64 - 1.\<close>

definition digit_value :: "u8 \<Rightarrow> nat" where
  "digit_value c =
     (if 48 \<le> c \<and> c \<le> 57 then unat c - 48
      else if 97 \<le> c \<and> c \<le> 122 then unat c - 87
      else if 65 \<le> c \<and> c \<le> 90 then unat c - 55 else 99)"

definition digit_of :: "nat \<Rightarrow> u8 \<Rightarrow> nat option" where
  "digit_of base c = (if digit_value c < base then Some (digit_value c) else None)"

fun take_digits :: "nat \<Rightarrow> nat \<Rightarrow> nat \<Rightarrow> u8 list \<Rightarrow> nat \<times> nat" where
  "take_digits base acc n [] = (acc, n)"
| "take_digits base acc n (c # cs) =
     (case digit_of base c of None \<Rightarrow> (acc, n) | Some d \<Rightarrow> take_digits base (acc * base + d) (Suc n) cs)"

definition has_0x :: "u8 list \<Rightarrow> bool" where
  "has_0x s = (case s of z # x # d # _ \<Rightarrow> z = 48 \<and> (x = 120 \<or> x = 88) \<and> digit_of 16 d \<noteq> None | _ \<Rightarrow> False)"

definition c_strtoull :: "nat \<Rightarrow> u8 list \<Rightarrow> nat \<times> nat" where
  "c_strtoull base s =
     (let ws = length (takeWhile is_space_char s); s1 = drop ws s;
          neg = (take 1 s1 = [45]); sg = (if take 1 s1 = [45] \<or> take 1 s1 = [43] then 1 else 0); s2 = drop sg s1;
          px = (if base = 16 \<and> has_0x s2 then 2 else 0);
          (v, n) = take_digits base 0 0 (drop px s2)
      in if n = 0 then (0, 0)
         else (if v \<ge> 2 ^ 64 then 2 ^ 64 - 1 else if neg then (2 ^ 64 - v) mod 2 ^ 64 else v, ws + sg + px + n))"

definition parse_text :: "u8 list \<Rightarrow> nat option" where
  "parse_text txt =
     (let s = trim_ascii txt
      in if s = [] then None
         else let base = (if length s \<ge> 2 \<and> s ! 0 = 48 \<and> (s ! 1 = 120 \<or> s ! 1 = 88) then 16 else 10);
                  c = takeWhile (\<lambda>c. c \<noteq> 0) s;
                  (n, used) = c_strtoull base c
              in if used = 0 \<or> used < length c then None else Some n)"

definition parse_uint64 :: "json \<Rightarrow> nat option" where
  "parse_uint64 v =
     (case v of
        JUnsigned n \<Rightarrow> Some n
      | JInteger n \<Rightarrow> if n < 0 then None else Some (nat n)
      | JString s \<Rightarrow> parse_text s
      | _ \<Rightarrow> None)"

definition parse_uint8_key :: "u8 list \<Rightarrow> u8 option" where
  "parse_uint8_key key =
     (case parse_uint64 (JString key) of None \<Rightarrow> None | Some n \<Rightarrow> if n > 0xFF then None else Some (word_of_nat n))"

section \<open>Tables\<close>

record proud_db =
  db_opcodes :: "u8 \<Rightarrow> u8 list option"
  db_s2c :: "u16 \<Rightarrow> u8 list option"
  db_c2s :: "u16 \<Rightarrow> u8 list option"
  db_loaded :: bool

definition empty_db :: proud_db where
  "empty_db = \<lparr>db_opcodes = Map.empty, db_s2c = Map.empty, db_c2s = Map.empty, db_loaded = False\<rparr>"

fun load_rmi_entries :: "(u8 list \<times> json) list \<Rightarrow> (u16 \<Rightarrow> u8 list option) \<Rightarrow> (u16 \<Rightarrow> u8 list option)" where
  "load_rmi_entries [] out = out"
| "load_rmi_entries ((key, v) # es) out =
     (case parse_uint64 v of
        None \<Rightarrow> load_rmi_entries es out
      | Some n \<Rightarrow> if n > 0xFFFF then load_rmi_entries es out else load_rmi_entries es (out(word_of_nat n \<mapsto> key)))"

definition load_rmi_table :: "json \<Rightarrow> (u16 \<Rightarrow> u8 list option) \<Rightarrow> (u16 \<Rightarrow> u8 list option)" where
  "load_rmi_table obj out = (case obj of JObject es \<Rightarrow> load_rmi_entries es out | _ \<Rightarrow> out)"

fun load_opcodes :: "(u8 list \<times> json) list \<Rightarrow> (u8 \<Rightarrow> u8 list option) \<Rightarrow> (u8 \<Rightarrow> u8 list option)" where
  "load_opcodes [] out = out"
| "load_opcodes ((key, v) # es) out =
     (case parse_uint8_key key of
        None \<Rightarrow> load_opcodes es out
      | Some opc \<Rightarrow> load_opcodes es (case v of JString s \<Rightarrow> out(opc \<mapsto> s) | _ \<Rightarrow> out))"

definition member :: "json \<Rightarrow> u8 list \<Rightarrow> json option" where
  "member v key = (case v of JObject es \<Rightarrow> map_of es key | _ \<Rightarrow> None)"

definition bytes_of :: "string \<Rightarrow> u8 list" where
  "bytes_of s = map (\<lambda>c. word_of_nat (of_char c)) s"

definition load_from_json :: "json \<Rightarrow> proud_db" where
  "load_from_json root =
     (let ops = (case member root (bytes_of ''Opcodes'') of Some (JObject es) \<Rightarrow> load_opcodes es Map.empty | _ \<Rightarrow> Map.empty);
          (s2c, c2s) = (case member root (bytes_of ''RMI'') of
             Some (JObject es) \<Rightarrow>
               (case map_of es (bytes_of ''S2C'') of None \<Rightarrow> Map.empty | Some v \<Rightarrow> load_rmi_table v Map.empty,
                case map_of es (bytes_of ''C2S'') of None \<Rightarrow> Map.empty | Some v \<Rightarrow> load_rmi_table v Map.empty)
           | _ \<Rightarrow> (Map.empty, Map.empty))
      in \<lparr>db_opcodes = ops, db_s2c = s2c, db_c2s = c2s, db_loaded = True\<rparr>)"

text \<open>What the file gives: it cannot be opened, the library rejects it, or a value.\<close>

datatype file_json = NoFile | ParseError | Parsed json

definition load_proud_db_once :: "file_json \<Rightarrow> proud_db \<Rightarrow> proud_db" where
  "load_proud_db_once f db = (case f of Parsed root \<Rightarrow> load_from_json root | _ \<Rightarrow> db)"

text \<open>\<open>std::call_once\<close>: the flag and the tables.\<close>

definition call_load :: "file_json \<Rightarrow> bool \<times> proud_db \<Rightarrow> bool \<times> proud_db" where
  "call_load f st = (if fst st then st else (True, load_proud_db_once f (snd st)))"

section \<open>Comments\<close>

definition resolve_rmi_name :: "proud_db \<Rightarrow> u16 \<Rightarrow> u8 list" where
  "resolve_rmi_name db i =
     (case (db_s2c db i, db_c2s db i) of
        (Some s, Some c) \<Rightarrow> bytes_of ''S2C:'' @ s @ bytes_of '' / C2S:'' @ c
      | (Some s, None) \<Rightarrow> bytes_of ''S2C:'' @ s
      | (None, Some c) \<Rightarrow> bytes_of ''C2S:'' @ c
      | (None, None) \<Rightarrow> [])"

definition hex_nibble :: "nat \<Rightarrow> u8" where
  "hex_nibble d = (if d < 10 then word_of_nat (48 + d) else word_of_nat (87 + d))"

definition hex2 :: "u8 \<Rightarrow> u8 list" where
  "hex2 x = [hex_nibble (unat x div 16), hex_nibble (unat x mod 16)]"

definition hex4 :: "u16 \<Rightarrow> u8 list" where
  "hex4 x = hex2 (ucast (drop_bit 8 x)) @ hex2 (ucast x)"

definition frame_comment :: "proud_db \<Rightarrow> u8 \<Rightarrow> u16 \<Rightarrow> bool \<Rightarrow> bool \<times> u8 list" where
  "frame_comment db opc rmi_id has_rmi =
     (let (known, comment) = (case db_opcodes db opc of Some s \<Rightarrow> (True, s) | None \<Rightarrow> (False, []))
      in if \<not> has_rmi then (known, if known then comment else bytes_of ''opcode 0x'' @ hex2 opc)
         else let rmi_name = resolve_rmi_name db rmi_id
              in if rmi_name \<noteq> [] then (True, if comment = [] then rmi_name else comment @ bytes_of '' '' @ rmi_name)
                 else (known, if comment = [] then bytes_of ''rmi 0x'' @ hex4 rmi_id
                              else comment @ bytes_of '' rmi 0x'' @ hex4 rmi_id))"

definition generate_frame_comment :: "file_json \<Rightarrow> u8 \<Rightarrow> u16 \<Rightarrow> bool \<Rightarrow> bool \<times> proud_db
    \<Rightarrow> (bool \<times> u8 list) \<times> (bool \<times> proud_db)" where
  "generate_frame_comment f opc rmi_id has_rmi st =
     (let st1 = call_load f st in (frame_comment (snd st1) opc rmi_id has_rmi, st1))"

section \<open>Lemmas\<close>

lemma dropWhile_idle: "s = [] \<or> \<not> P (hd s) \<Longrightarrow> dropWhile P s = s"
  by (cases s) auto

lemma trim_ascii_padded:
  assumes "list_all is_space_char p" "list_all is_space_char q" "s \<noteq> []" "\<not> is_space_char (hd s)" "\<not> is_space_char (last s)"
  shows "trim_ascii (p @ s @ q) = s"
proof -
  have "dropWhile is_space_char (p @ s @ q) = s @ q"
    using assms by (simp add: dropWhile_append2 list_all_iff dropWhile_idle)
  moreover have "dropWhile is_space_char (rev q @ rev s) = rev s"
    using assms dropWhile_append2 [of "rev q" is_space_char "rev s"]
      dropWhile_idle [of "rev s" is_space_char] by (simp add: list_all_iff hd_rev)
  ultimately show ?thesis by (simp add: trim_ascii_def)
qed

text \<open>What a text of digits is worth, and its texts: every number has one in every base, with any number of
  leading zeros.\<close>

definition digits_value :: "nat \<Rightarrow> u8 list \<Rightarrow> nat" where
  "digits_value base ds = foldl (\<lambda>a c. a * base + the (digit_of base c)) 0 ds"

function num_text :: "nat \<Rightarrow> nat \<Rightarrow> u8 list" where
  "num_text base n =
     (if n < base \<or> base < 2 then [hex_nibble n] else num_text base (n div base) @ [hex_nibble (n mod base)])"
  by auto
termination by (relation "measure snd") auto

declare num_text.simps [simp del]

definition is_digits :: "nat \<Rightarrow> u8 list \<Rightarrow> bool" where
  "is_digits base ds = list_all (\<lambda>c. digit_of base c \<noteq> None) ds"

lemma take_digits_all:
  "is_digits base ds \<Longrightarrow>
   take_digits base acc n ds = (foldl (\<lambda>a c. a * base + the (digit_of base c)) acc ds, n + length ds)"
  by (induction ds arbitrary: acc n) (auto simp: is_digits_def)

lemma digit_of_nibble: "base \<le> 16 \<Longrightarrow> d < base \<Longrightarrow> digit_of base (hex_nibble d) = Some d"
proof -
  have "list_all (\<lambda>d. digit_value (hex_nibble d) = d) [0..<16]" by code_simp
  moreover assume "base \<le> 16" "d < base"
  ultimately show ?thesis by (simp add: list_all_iff digit_of_def)
qed

lemma num_text_digits: "2 \<le> base \<Longrightarrow> base \<le> 16 \<Longrightarrow> is_digits base (num_text base n)"
  by (induction base n rule: num_text.induct)
     (subst num_text.simps, simp add: is_digits_def digit_of_nibble)

lemma num_text_value: "2 \<le> base \<Longrightarrow> base \<le> 16 \<Longrightarrow> digits_value base (num_text base n) = n"
proof (induction base n rule: num_text.induct)
  case (1 base n)
  then show ?case
    by (subst num_text.simps) (simp add: digits_value_def digit_of_nibble)
qed

lemma num_text_nonempty: "num_text base n \<noteq> []"
  by (subst num_text.simps) simp

lemma zeros_value: "2 \<le> base \<Longrightarrow> digits_value base (replicate z 48 @ ds) = digits_value base ds"
proof -
  assume "2 \<le> base"
  then have "digit_of base 48 = Some 0" by (simp add: digit_of_def digit_value_def)
  then have "foldl (\<lambda>a c. a * base + the (digit_of base c)) 0 (replicate z 48) = 0" by (induction z) simp_all
  then show ?thesis by (simp add: digits_value_def)
qed

lemma digit_char_value: "digit_of base c \<noteq> None \<Longrightarrow> base \<le> 16 \<Longrightarrow>
    \<not> is_space_char c \<and> c \<noteq> 0 \<and> c \<noteq> 43 \<and> c \<noteq> 45 \<and> c \<noteq> 120 \<and> c \<noteq> 88"
proof -
  have "list_all (\<lambda>c :: u8. digit_value c < 16 \<longrightarrow>
           \<not> is_space_char c \<and> c \<noteq> 0 \<and> c \<noteq> 43 \<and> c \<noteq> 45 \<and> c \<noteq> 120 \<and> c \<noteq> 88)
          (map word_of_nat [0..<256])" by code_simp
  then have "digit_value c < 16 \<longrightarrow> \<not> is_space_char c \<and> c \<noteq> 0 \<and> c \<noteq> 43 \<and> c \<noteq> 45 \<and> c \<noteq> 120 \<and> c \<noteq> 88"
    by (rule all_u8)
  moreover assume "digit_of base c \<noteq> None" "base \<le> 16"
  ultimately show ?thesis by (auto simp: digit_of_def split: if_splits)
qed

lemma is_digits_char:
  "is_digits base ds \<Longrightarrow> base \<le> 16 \<Longrightarrow> c \<in> set ds \<Longrightarrow>
   \<not> is_space_char c \<and> c \<noteq> 0 \<and> c \<noteq> 43 \<and> c \<noteq> 45 \<and> c \<noteq> 120 \<and> c \<noteq> 88"
  using digit_char_value by (auto simp: is_digits_def list_all_iff)

text \<open>The text after its prefix: what the parser makes of a number in any padding.\<close>

definition prefix_of :: "nat \<Rightarrow> u8 list" where
  "prefix_of base = (if base = 16 then [48, 120] else [])"

lemma digits_not_0x: "is_digits 10 ds \<Longrightarrow> length ds \<ge> 2 \<Longrightarrow> ds ! 1 \<noteq> 120 \<and> ds ! 1 \<noteq> 88"
  using is_digits_char [of 10 ds "ds ! 1"] by simp

lemma take_digits_value: "is_digits base ds \<Longrightarrow> take_digits base 0 0 ds = (digits_value base ds, length ds)"
  by (simp add: take_digits_all digits_value_def)

lemma strtoull_parts:
  assumes "\<not> is_space_char (hd s)" "hd s \<noteq> 43" "hd s \<noteq> 45" "s \<noteq> []"
  shows "c_strtoull base s =
     (let px = (if base = 16 \<and> has_0x s then 2 else 0); (v, n) = take_digits base 0 0 (drop px s)
      in if n = 0 then (0, 0) else (if v \<ge> 2 ^ 64 then 2 ^ 64 - 1 else v, px + n))"
  using assms by (cases s) (auto simp: c_strtoull_def Let_def split: prod.splits)

lemma strtoull_digits:
  assumes "base = 10 \<or> base = 16" "is_digits base ds" "ds \<noteq> []"
  shows "c_strtoull base (prefix_of base @ ds) =
    (if digits_value base ds \<ge> 2 ^ 64 then 2 ^ 64 - 1 else digits_value base ds, length (prefix_of base @ ds))"
proof -
  obtain c cs where ds: "ds = c # cs" using assms(3) by (cases ds) auto
  have "\<not> is_space_char c \<and> c \<noteq> 43 \<and> c \<noteq> 45" using is_digits_char [OF assms(2), of c] assms(1) ds by auto
  moreover have "\<not> is_space_char 48" by (simp add: is_space_char_def)
  moreover have "has_0x (48 # 120 # ds)" if "base = 16" using assms(2) that by (simp add: has_0x_def ds is_digits_def)
  ultimately show ?thesis using assms take_digits_value [OF assms(2)]
    by (auto simp: strtoull_parts prefix_of_def ds Let_def)
qed

lemma parse_text_digits:
  assumes base: "base = 10 \<or> base = 16" and ds: "is_digits base ds" "ds \<noteq> []"
    and pad: "list_all is_space_char p" "list_all is_space_char q"
  shows "parse_text (p @ (prefix_of base @ ds) @ q) =
    Some (if digits_value base ds \<ge> 2 ^ 64 then 2 ^ 64 - 1 else digits_value base ds)"
proof -
  let ?s = "prefix_of base @ ds"
  have chars: "\<not> is_space_char c \<and> c \<noteq> 0" if "c \<in> set ?s" for c
  proof -
    have "c \<in> set ds \<or> c = 48 \<or> c = 120" using that by (auto simp: prefix_of_def split: if_splits)
    then show ?thesis using base is_digits_char [OF ds(1), of c] by (auto simp: is_space_char_def)
  qed
  then have "trim_ascii (p @ ?s @ q) = ?s"
    using ds(2) pad by (intro trim_ascii_padded) (auto simp: hd_append dest: hd_in_set last_in_set)
  moreover have "takeWhile (\<lambda>c. c \<noteq> 0) ?s = ?s" using chars by (auto intro: takeWhile_eq_all_conv [THEN iffD2])
  moreover have "(if length ?s \<ge> 2 \<and> ?s ! 0 = 48 \<and> (?s ! 1 = 120 \<or> ?s ! 1 = 88) then 16 else 10) = base"
    using base digits_not_0x ds by (auto simp: prefix_of_def)
  ultimately show ?thesis using strtoull_digits [OF base ds] ds(2)
    unfolding parse_text_def Let_def append_assoc [symmetric] by (simp del: append_assoc takeWhile_eq_all_conv)
qed

text \<open>A number survives being printed and read: a decimal text of a number below 2 ^ 64, or a hexadecimal one after
  \<open>0x\<close>, with any number of leading zeros and any white space around it, is read as that number.\<close>

theorem parse_printed_number:
  assumes "base = 10 \<or> base = 16" "n < 2 ^ 64" "list_all is_space_char p" "list_all is_space_char q"
  shows "parse_uint64 (JString (p @ prefix_of base @ replicate z 48 @ num_text base n @ q)) = Some n"
proof -
  have "digit_of base 48 \<noteq> None" using assms(1) by (auto simp: digit_of_def digit_value_def)
  then have "is_digits base (replicate z 48 @ num_text base n)"
    using assms(1) num_text_digits [of base n] by (auto simp: is_digits_def list_all_iff simp del: not_None_eq)
  then show ?thesis
    using parse_text_digits [of base "replicate z 48 @ num_text base n" p q] assms num_text_nonempty
    by (auto simp: parse_uint64_def zeros_value num_text_value)
qed

theorem parse_printed_number_witness:
  "parse_uint64 (JString ([32] @ prefix_of 16 @ replicate 2 48 @ num_text 16 0xBEEF @ [10])) = Some 0xBEEF"
  by (rule parse_printed_number) (simp_all add: is_space_char_def)

text \<open>A negative text is a number too: \<open>strtoull\<close> wraps it, so that the key below names opcode 1.\<close>

lemma negative_text_wraps:
  "parse_uint8_key (bytes_of ''-18446744073709551615'') = Some 1"
  by (simp add: parse_uint8_key_def parse_uint64_def parse_text_def trim_ascii_def bytes_of_def is_space_char_def
        c_strtoull_def digit_of_def digit_value_def Let_def)

text \<open>The comment of a frame: it never comes out empty unless the table has an empty name for the opcode, and the frame
  is known exactly when one of its names is.\<close>

lemma rmi_name_empty: "resolve_rmi_name db i = [] \<longleftrightarrow> db_s2c db i = None \<and> db_c2s db i = None"
  by (simp add: resolve_rmi_name_def bytes_of_def split: option.splits)

lemma frame_comment_nonempty:
  assumes "db_opcodes db opc \<noteq> Some [] \<or> has_rmi"
  shows "snd (frame_comment db opc i has_rmi) \<noteq> []"
  using assms by (cases "db_opcodes db opc"; cases has_rmi) (simp_all add: frame_comment_def bytes_of_def hex2_def hex4_def Let_def)

lemma frame_comment_known:
  "fst (frame_comment db opc i has_rmi) \<longleftrightarrow>
   db_opcodes db opc \<noteq> None \<or> has_rmi \<and> (db_s2c db i \<noteq> None \<or> db_c2s db i \<noteq> None)"
  by (cases "db_opcodes db opc"; cases has_rmi) (auto simp: frame_comment_def rmi_name_empty Let_def)

text \<open>The tables are loaded once: what the file holds at a later frame does not matter, also when the first load failed.\<close>

lemma loaded_once:
  "snd (generate_frame_comment f opc i has_rmi st) = st1 \<Longrightarrow>
   generate_frame_comment g opc' i' has' st1 = (frame_comment (snd st1) opc' i' has', st1)"
  by (auto simp: generate_frame_comment_def call_load_def Let_def split: if_splits)

end
