(* ===== verification/Logging.thy ===== *)
theory Logging
  imports Prelude
begin

text \<open>
  Settings and logs: \<open>src/thegame/config.cpp\<close>, \<open>src/thegame/log.cpp\<close> and the log file names of
  \<open>src/thegame/paths.cpp\<close>.

  The process environment is a map from names to values. \<open>GetEnvironmentVariableA\<close> leaves the buffer as it was when
  the value does not fit, so what the buffers held before is an argument. What the logs write is a trace, in order. The
  maps \<open>silenced\<close> and \<open>file_silenced\<close> are total functions: \<open>operator[]\<close> inserts
  \<open>false\<close> for a missing key. Texts are HOL strings.
\<close>

section \<open>Settings\<close>

record cfg =
  no_console :: bool
  no_colors :: bool
  pipes :: bool
  disable_hooks :: bool
  disable_syshooks :: bool
  disable_entrypoint_hook :: bool
  disable_veh :: bool
  disable_park_thread :: bool
  disable_int :: bool
  minidump_enabled :: bool
  no_network_logs :: bool
  quiet_network :: bool
  silent_keepalive :: bool
  silent_network :: bool
  no_proud_logs :: bool
  silent_proud :: bool
  server_override :: bool
  server_ip :: string

type_synonym environ = "string \<Rightarrow> string option"

definition zero_char :: char where "zero_char = CHR 0x00"

definition is_upper_char :: "char \<Rightarrow> bool" where
  "is_upper_char c \<longleftrightarrow> (65 :: nat) \<le> of_char c \<and> of_char c \<le> (90 :: nat)"

definition lower_char :: "char \<Rightarrow> char" where
  "lower_char c = (if is_upper_char c then char_of (of_char c + 32 :: nat) else c)"

definition stricmp_eq :: "string \<Rightarrow> string \<Rightarrow> bool" where
  "stricmp_eq a b \<longleftrightarrow> map lower_char a = map lower_char b"

definition env_truthy_value :: "string option \<Rightarrow> bool" where
  "env_truthy_value value =
     (case value of
        None \<Rightarrow> False
      | Some [] \<Rightarrow> False
      | Some (c # cs) \<Rightarrow>
          if c = CHR ''0'' then False
          else \<not> (stricmp_eq (c # cs) ''false'' \<or> stricmp_eq (c # cs) ''off'' \<or> stricmp_eq (c # cs) ''no''))"

definition kBufSize :: nat where "kBufSize = 64"

text \<open>The number returned and the buffer after the call.\<close>

definition get_environment_variable :: "environ \<Rightarrow> string \<Rightarrow> string \<Rightarrow> nat \<times> string" where
  "get_environment_variable env name buf =
     (case env name of
        None \<Rightarrow> (0, buf)
      | Some v \<Rightarrow>
          if length v < length buf then (length v, v @ [zero_char] @ drop (Suc (length v)) buf)
          else (Suc (length v), buf))"

text \<open>Reading the buffer as a C string.\<close>

definition buf_cstr :: "string \<Rightarrow> string res" where
  "buf_cstr buf = (if zero_char \<in> set buf then Inr (takeWhile (\<lambda>c. c \<noteq> zero_char) buf) else Inl OobRead)"

definition merge_flag :: "environ \<Rightarrow> string \<Rightarrow> string \<Rightarrow> int \<Rightarrow> bool res" where
  "merge_flag env buf name compile_default =
     (let (n, b) = get_environment_variable env name buf
      in if n > 0 then bindR (buf_cstr b) (\<lambda>s. Inr (env_truthy_value (Some s)))
         else Inr (compile_default \<noteq> 0))"

definition merge_string :: "environ \<Rightarrow> string \<Rightarrow> string \<Rightarrow> string \<Rightarrow> string res" where
  "merge_string env buf name compile_default =
     (let (n, b) = get_environment_variable env name buf
      in if n > 0 then buf_cstr b else Inr compile_default)"

text \<open>The compile-time defaults of \<open>config.hpp\<close>.\<close>

record cfg_defaults =
  d_no_console :: int
  d_no_colors :: int
  d_pipes :: int
  d_disable_hooks :: int
  d_disable_syshooks :: int
  d_disable_entrypoint_hook :: int
  d_disable_veh :: int
  d_disable_park_thread :: int
  d_disable_int :: int
  d_minidump_enabled :: int
  d_no_network_logs :: int
  d_quiet_network :: int
  d_silent_keepalive :: int
  d_silent_network :: int
  d_no_proud_logs :: int
  d_silent_proud :: int

definition config_defaults :: cfg_defaults where
  "config_defaults = \<lparr>d_no_console = 0, d_no_colors = 0, d_pipes = 1, d_disable_hooks = 0, d_disable_syshooks = 0,
     d_disable_entrypoint_hook = 0, d_disable_veh = 0, d_disable_park_thread = 1, d_disable_int = 1,
     d_minidump_enabled = 0, d_no_network_logs = 0, d_quiet_network = 1, d_silent_keepalive = 1, d_silent_network = 0,
     d_no_proud_logs = 0, d_silent_proud = 0\<rparr>"

text \<open>Each call has a buffer of its own on the stack; \<open>bufs\<close> gives what it holds before the call.\<close>

definition init_config :: "cfg_defaults \<Rightarrow> environ \<Rightarrow> (string \<Rightarrow> string) \<Rightarrow> cfg res" where
  "init_config d env bufs =
     (let flag = (\<lambda>name def. merge_flag env (bufs name) name def) in
      bindR (flag ''THEGAME_NO_CONSOLE'' (d_no_console d)) (\<lambda>a1.
      bindR (flag ''NO_COLORS'' (d_no_colors d)) (\<lambda>a2.
      bindR (flag ''THEGAME_PIPES'' (d_pipes d)) (\<lambda>a3.
      bindR (flag ''DISABLE_HOOKS'' (d_disable_hooks d)) (\<lambda>a4.
      bindR (flag ''DISABLE_SYSHOOKS'' (d_disable_syshooks d)) (\<lambda>a5.
      bindR (flag ''DISABLE_ENTRYPOINT_HOOK'' (d_disable_entrypoint_hook d)) (\<lambda>a6.
      bindR (flag ''DISABLE_VEH'' (d_disable_veh d)) (\<lambda>a7.
      bindR (flag ''DISABLE_PARK_THREAD'' (d_disable_park_thread d)) (\<lambda>a8.
      bindR (flag ''DISABLE_INT'' (d_disable_int d)) (\<lambda>a9.
      bindR (flag ''MINIDUMP_ENABLED'' (d_minidump_enabled d)) (\<lambda>a10.
      bindR (flag ''NO_NETWORK_LOGS'' (d_no_network_logs d)) (\<lambda>a11.
      bindR (flag ''QUIET_NETWORK'' (d_quiet_network d)) (\<lambda>a12.
      bindR (flag ''SILENT_KEEPALIVE'' (d_silent_keepalive d)) (\<lambda>a13.
      bindR (flag ''SILENT_NETWORK'' (d_silent_network d)) (\<lambda>a14.
      bindR (flag ''NO_PROUD_LOGS'' (d_no_proud_logs d)) (\<lambda>a15.
      bindR (flag ''SILENT_PROUD'' (d_silent_proud d)) (\<lambda>a16.
      bindR (flag ''THEGAME_SERVER_OVERRIDE'' 0) (\<lambda>a17.
      bindR (merge_string env (bufs ''THEGAME_SERVER_IP'') ''THEGAME_SERVER_IP'' ''127.0.0.1'') (\<lambda>ip.
        Inr \<lparr>no_console = a1, no_colors = a2, pipes = a3, disable_hooks = a4, disable_syshooks = a5,
             disable_entrypoint_hook = a6, disable_veh = a7, disable_park_thread = a8, disable_int = a9,
             minidump_enabled = a10, no_network_logs = a11, quiet_network = a12, silent_keepalive = a13,
             silent_network = a14, no_proud_logs = a15, silent_proud = a16, server_override = a17,
             server_ip = ip\<rparr>)))))))))))))))))))"

section \<open>Messages\<close>

datatype log_source = SrcException | SrcLog | SrcNet | SrcProud | SrcRMI | SrcStage | SrcNav

datatype log_importance = Default | Seen | NotSeen | Milestone | Warning

record log_message =
  message :: string
  source :: log_source
  kind :: log_importance

definition log_text :: "string \<Rightarrow> log_message" where
  "log_text s = \<lparr>message = s, source = SrcLog, kind = Default\<rparr>"

definition with_kind :: "log_message \<Rightarrow> log_importance \<Rightarrow> log_message" where
  "with_kind m k = m\<lparr>kind := k\<rparr>"

definition with_source :: "log_message \<Rightarrow> log_source \<Rightarrow> log_message" where
  "with_source m s = m\<lparr>source := s\<rparr>"

definition color_for_importance :: "log_importance \<Rightarrow> nat \<times> nat \<times> nat" where
  "color_for_importance k =
     (case k of Seen \<Rightarrow> (64, 192, 64) | NotSeen \<Rightarrow> (192, 96, 96) | Milestone \<Rightarrow> (128, 192, 192)
      | Warning \<Rightarrow> (255, 192, 64) | Default \<Rightarrow> (255, 255, 255))"

definition source_to_prefix :: "log_source \<Rightarrow> string" where
  "source_to_prefix s =
     (case s of SrcException \<Rightarrow> ''[!exception] '' | SrcLog \<Rightarrow> ''[log] '' | SrcNet \<Rightarrow> ''[net] '' | SrcProud \<Rightarrow> ''[proud] ''
      | SrcRMI \<Rightarrow> ''[rmi] '' | SrcStage \<Rightarrow> ''[stage] '' | SrcNav \<Rightarrow> ''[nav] '')"

section \<open>Where messages go\<close>

datatype log_file = MainLog | NetLog | ProudLog

text \<open>What happens outside, in order: the console and its colours, a file and the text added, the pipe's events.\<close>

datatype log_event =
    AllocConsole
  | VirtualTerminal
  | ToConsole "(nat \<times> nat \<times> nat) option" string
  | ToFile log_file string
  | EmitGameLog string
  | EmitGameStage string
  | EmitCustomException string
  | EmitExceptionEvent "string option" u32

record logger =
  main_open :: bool
  net_open :: bool
  proud_open :: bool
  console_created :: bool
  silenced :: "log_source \<Rightarrow> bool"
  file_silenced :: "log_source \<Rightarrow> bool"
  lg_trace :: "log_event list"

definition logger0 :: logger where
  "logger0 = \<lparr>main_open = False, net_open = False, proud_open = False, console_created = False,
     silenced = (\<lambda>_. False), file_silenced = (\<lambda>_. False), lg_trace = []\<rparr>"

definition lg_emit :: "log_event list \<Rightarrow> logger \<Rightarrow> logger" where
  "lg_emit es st = st\<lparr>lg_trace := lg_trace st @ es\<rparr>"

definition file_open :: "log_file \<Rightarrow> logger \<Rightarrow> bool" where
  "file_open f st = (case f of MainLog \<Rightarrow> main_open st | NetLog \<Rightarrow> net_open st | ProudLog \<Rightarrow> proud_open st)"

text \<open>\<open>vt\<close>: the output handle is valid and has a console mode.\<close>

definition create_console :: "cfg \<Rightarrow> bool \<Rightarrow> logger \<Rightarrow> logger" where
  "create_console c vt st =
     (if no_console c \<or> console_created st then st
      else (lg_emit (AllocConsole # (if \<not> no_colors c \<and> vt then [VirtualTerminal] else [])) st)\<lparr>console_created := True\<rparr>)"

text \<open>\<open>opens\<close>: whether each \<open>fopen\<close> succeeds.\<close>

definition prepare_logs :: "cfg \<Rightarrow> (log_file \<Rightarrow> bool) \<Rightarrow> logger \<Rightarrow> logger" where
  "prepare_logs c opens st =
     (let st1 = st\<lparr>main_open := main_open st \<or> opens MainLog, net_open := net_open st \<or> opens NetLog,
                   proud_open := proud_open st \<or> opens ProudLog\<rparr>;
          s0 = (\<lambda>_. False);
          (s1, f1) = (if no_network_logs c then (s0(SrcNet := True), s0(SrcNet := True)) else (s0, s0));
          (s2, f2) = (if no_proud_logs c then (s1(SrcProud := True), f1(SrcProud := True)) else (s1, f1));
          s3 = (if silent_network c then s2(SrcNet := True) else s2);
          s4 = (if silent_proud c then s3(SrcProud := True) else s3)
      in st1\<lparr>silenced := s4, file_silenced := f2\<rparr>)"

definition close_logs :: "logger \<Rightarrow> logger" where
  "close_logs st = st\<lparr>main_open := False, net_open := False, proud_open := False\<rparr>"

definition write_to :: "log_message \<Rightarrow> log_file \<Rightarrow> bool \<Rightarrow> logger \<Rightarrow> logger" where
  "write_to m f prefix st =
     (if \<not> file_open f st then st
      else lg_emit ((if prefix then [ToFile f (source_to_prefix (source m))] else [])
                    @ [ToFile f (message m @ [CHR 0x0A])]) st)"

definition write_to_console :: "cfg \<Rightarrow> bool \<Rightarrow> log_message \<Rightarrow> logger \<Rightarrow> logger" where
  "write_to_console c vt m st =
     (if no_console c then st
      else let st1 = (if console_created st then st else create_console c vt st)
           in if \<not> no_colors c
              then let fg = Some (color_for_importance (kind m))
                   in lg_emit [ToConsole fg (source_to_prefix (source m)), ToConsole fg (message m), ToConsole None [CHR 0x0A]] st1
              else lg_emit [ToConsole None (source_to_prefix (source m)), ToConsole None (message m @ [CHR 0x0A])] st1)"

definition logf_quiet :: "cfg \<Rightarrow> bool \<Rightarrow> log_message \<Rightarrow> logger \<Rightarrow> logger" where
  "logf_quiet c vt m st =
     (let st1 = (if \<not> silenced st (source m) then write_to_console c vt m st else st)
      in if \<not> file_silenced st1 (source m) then write_to m MainLog True st1 else st1)"

definition logf :: "cfg \<Rightarrow> bool \<Rightarrow> log_message \<Rightarrow> logger \<Rightarrow> logger" where
  "logf c vt m st =
     (let st1 = (if \<not> silenced st (source m) then write_to_console c vt m st else st);
          st2 = (if \<not> file_silenced st1 (source m) then write_to m MainLog True st1 else st1)
      in if pipes c \<and> source m \<noteq> SrcException \<and> source m \<noteq> SrcStage then lg_emit [EmitGameLog (message m)] st2 else st2)"

text \<open>Texts of numbers and bytes as \<open>fmt\<close> prints them.\<close>

definition char_nibble :: "bool \<Rightarrow> nat \<Rightarrow> char" where
  "char_nibble upper d = char_of (if d < 10 then 48 + d else if upper then 55 + d else 87 + d)"

fun show_nat :: "nat \<Rightarrow> string" where
  "show_nat n = (if n < 10 then [char_nibble False n] else show_nat (n div 10) @ [char_nibble False (n mod 10)])"

declare show_nat.simps [simp del]

definition show_int :: "int \<Rightarrow> string" where
  "show_int i = (if i < 0 then CHR ''-'' # show_nat (nat (- i)) else show_nat (nat i))"

definition show_hex2 :: "u8 \<Rightarrow> string" where
  "show_hex2 x = [char_nibble False (unat x div 16), char_nibble False (unat x mod 16)]"

definition show_hex8_upper :: "u32 \<Rightarrow> string" where
  "show_hex8_upper x = map (\<lambda>i. char_nibble True (unat x div 16 ^ i mod 16)) [7, 6, 5, 4, 3, 2, 1, 0]"

fun join_hex :: "u8 list \<Rightarrow> string" where
  "join_hex [] = []"
| "join_hex [b] = show_hex2 b"
| "join_hex (b # bs) = show_hex2 b @ '' '' @ join_hex bs"

definition net_message :: "string \<Rightarrow> log_message" where
  "net_message s = \<lparr>message = s, source = SrcNet, kind = Default\<rparr>"

definition rx_tx :: "bool \<Rightarrow> string" where
  "rx_tx inbound = (if inbound then ''rx'' else ''tx'')"

definition log_net :: "cfg \<Rightarrow> bool \<Rightarrow> log_message \<Rightarrow> logger \<Rightarrow> logger" where
  "log_net c vt line st = (if quiet_network c then logf_quiet c vt line st else logf c vt line st)"

definition logn_connect :: "cfg \<Rightarrow> bool \<Rightarrow> int \<Rightarrow> string \<Rightarrow> int \<Rightarrow> logger \<Rightarrow> logger" where
  "logn_connect c vt sock addr port st =
     (let line = net_message (''connect socket '' @ show_int sock @ '' to '' @ addr @ '':'' @ show_int port)
      in write_to line NetLog True (log_net c vt line st))"

definition logn_message :: "cfg \<Rightarrow> bool \<Rightarrow> int \<Rightarrow> log_message \<Rightarrow> logger \<Rightarrow> logger" where
  "logn_message c vt sock m st =
     (let line = net_message (''sock '' @ show_int sock @ '': '' @ message m)
      in write_to line NetLog True (log_net c vt line st))"

definition logn_directed :: "cfg \<Rightarrow> bool \<Rightarrow> int \<Rightarrow> bool \<Rightarrow> log_message \<Rightarrow> logger \<Rightarrow> logger" where
  "logn_directed c vt sock inbound m st =
     (let line = net_message (rx_tx inbound @ '' sock '' @ show_int sock @ '': '' @ message m)
      in write_to line NetLog True (log_net c vt line st))"

definition kPnKeepalive :: "u8 list" where "kPnKeepalive = [0x13, 0x57, 0x01, 0x01, 0x1c]"

text \<open>A pointer and a length: the bytes readable from it, if it is not null.\<close>

definition read_data :: "u8 list option \<Rightarrow> nat \<Rightarrow> u8 list res" where
  "read_data data len =
     (if len = 0 then Inr [] else case data of None \<Rightarrow> Inl NullDeref
      | Some d \<Rightarrow> if len \<le> length d then Inr (take len d) else Inl OobRead)"

definition is_keepalive_packet :: "u8 list option \<Rightarrow> nat \<Rightarrow> bool res" where
  "is_keepalive_packet data len =
     (if data = None \<or> len \<noteq> length kPnKeepalive then Inr False
      else bindR (read_data data len) (\<lambda>d. Inr (d = kPnKeepalive)))"

definition logn_data :: "cfg \<Rightarrow> bool \<Rightarrow> int \<Rightarrow> bool \<Rightarrow> u8 list option \<Rightarrow> nat \<Rightarrow> logger \<Rightarrow> logger res" where
  "logn_data c vt sock inbound data len st =
     (if no_network_logs c then Inr st
      else bindR (if silent_keepalive c then is_keepalive_packet data len else Inr False) (\<lambda>keepalive.
      if keepalive then Inr st
      else let line = net_message (rx_tx inbound @ '' sock '' @ show_int sock @ '' len='' @ show_nat len);
               st1 = log_net c vt line st
           in bindR (read_data data len) (\<lambda>bytes.
              let data_line = net_message (rx_tx inbound @ '' sock '' @ show_int sock @ '' data['' @ show_nat len @ '']: ''
                                           @ join_hex bytes)
              in Inr (write_to data_line NetLog True st1))))"

definition logp_sock :: "cfg \<Rightarrow> bool \<Rightarrow> int \<Rightarrow> log_message \<Rightarrow> logger \<Rightarrow> logger" where
  "logp_sock c vt sock m st =
     (let line = (with_source m SrcProud)\<lparr>message := ''sock '' @ show_int sock @ '': '' @ message m\<rparr>
      in write_to line ProudLog True (logf c vt line st))"

definition logp :: "cfg \<Rightarrow> bool \<Rightarrow> log_message \<Rightarrow> logger \<Rightarrow> logger" where
  "logp c vt m st = (let line = with_source m SrcProud in write_to line ProudLog True (logf c vt line st))"

definition logp_silent :: "log_message \<Rightarrow> logger \<Rightarrow> logger" where
  "logp_silent m st = write_to m ProudLog True st"

text \<open>The message of the vectored handler: 512 bytes with the terminator, cut when longer; it looks at the settings of
  the console but at no silencing.\<close>

definition exceptionf_info :: "cfg \<Rightarrow> bool \<Rightarrow> u32 \<Rightarrow> string option \<Rightarrow> logger \<Rightarrow> logger" where
  "exceptionf_info c vt code type st =
     (let buffer = take 511 (''[!exception] '' @ (case type of Some t \<Rightarrow> t | None \<Rightarrow> ''exception'') @ '': 0x'' @ show_hex8_upper code);
          st1 = (if main_open st then lg_emit [ToFile MainLog buffer, ToFile MainLog [CHR 0x0A]] st else st);
          st2 = (if \<not> no_console c
                 then lg_emit [ToConsole None buffer, ToConsole None [CHR 0x0A]]
                        (if console_created st1 then st1 else create_console c vt st1)
                 else st1)
      in lg_emit [EmitExceptionEvent type code] st2)"

definition exceptionf :: "cfg \<Rightarrow> bool \<Rightarrow> log_message \<Rightarrow> logger \<Rightarrow> logger" where
  "exceptionf c vt m st =
     (let line = with_source m SrcException;
          line1 = (if kind line = Default then line\<lparr>kind := Warning\<rparr> else line)
      in lg_emit [EmitCustomException (message line1)] (logf c vt line1 st))"

definition eventf :: "cfg \<Rightarrow> log_message \<Rightarrow> logger \<Rightarrow> logger" where
  "eventf c m st = (if pipes c then lg_emit [EmitGameLog (message m)] st else st)"

definition stagef :: "cfg \<Rightarrow> bool \<Rightarrow> log_message \<Rightarrow> logger \<Rightarrow> logger" where
  "stagef c vt m st =
     (let st1 = logf c vt (with_kind (with_source m SrcStage) Milestone) st
      in if pipes c then lg_emit [EmitGameStage (message m)] st1 else st1)"

definition ensure_netlog_open :: "bool \<Rightarrow> logger \<Rightarrow> logger" where
  "ensure_netlog_open opened st =
     (if net_open st then st
      else if opened then lg_emit [ToFile NetLog (''log start'' @ [CHR 0x0A])] (st\<lparr>net_open := True\<rparr>) else st)"

section \<open>Paths and the first lines\<close>

text \<open>\<open>GetModuleFileNameA\<close>: what it returns and what it wrote.\<close>

definition kMaxPath :: nat where "kMaxPath = 260"

definition game_directory :: "nat \<Rightarrow> string \<Rightarrow> string" where
  "game_directory len path =
     (if len = 0 \<or> len \<ge> kMaxPath then []
      else let exe = take len path; r = dropWhile (\<lambda>c. c \<noteq> CHR 0x5C \<and> c \<noteq> CHR ''/'') (rev exe)
           in if r = [] then [] else rev (tl r))"

definition join_game_path :: "string \<Rightarrow> string \<Rightarrow> string" where
  "join_game_path dir filename = (if dir = [] then filename else dir @ [CHR 0x5C] @ filename)"

definition main_log_path :: "string \<Rightarrow> string" where "main_log_path dir = join_game_path dir ''logs.txt''"
definition net_log_path :: "string \<Rightarrow> string" where "net_log_path dir = join_game_path dir ''netlogs.txt''"
definition proud_log_path :: "string \<Rightarrow> string" where "proud_log_path dir = join_game_path dir ''proudlogs.txt''"

text \<open>Where the table of protocol names is read from; \<open>buf\<close> is what the 260 bytes of the stack buffer hold before.\<close>

definition proud_db_path :: "environ \<Rightarrow> string \<Rightarrow> string \<Rightarrow> string" where
  "proud_db_path env buf dir =
     (let (n, b) = get_environment_variable env ''THEGAME_PROUD_DB'' buf
      in if 0 < n \<and> n < length buf then take n b
         else if dir = [] then ''proud_db.json'' else dir @ [CHR 0x5C] @ ''proud_db.json'')"

lemma proud_db_path_given:
  "env ''THEGAME_PROUD_DB'' = Some v \<Longrightarrow> v \<noteq> [] \<Longrightarrow> length v < length buf \<Longrightarrow> proud_db_path env buf dir = v"
  by (simp add: proud_db_path_def get_environment_variable_def)

lemma proud_db_path_beside:
  "env ''THEGAME_PROUD_DB'' = None \<or> (\<exists>v. env ''THEGAME_PROUD_DB'' = Some v \<and> (v = [] \<or> length buf \<le> length v)) \<Longrightarrow>
   proud_db_path env buf dir = join_game_path dir ''proud_db.json''"
  by (auto simp: proud_db_path_def get_environment_variable_def join_game_path_def)

definition show_bit :: "bool \<Rightarrow> string" where "show_bit b = (if b then ''1'' else ''0'')"

definition log_boot_paths :: "cfg \<Rightarrow> bool \<Rightarrow> string \<Rightarrow> logger \<Rightarrow> logger" where
  "log_boot_paths c vt dir st =
     (let st1 = logf c vt (log_text (''thegame logs: main='' @ main_log_path dir @ '' net='' @ net_log_path dir
                  @ '' proud='' @ proud_log_path dir)) st;
          st2 = logf c vt (log_text (''thegame flags: hooks='' @ show_bit (\<not> disable_hooks c)
                  @ '' entrypoint='' @ show_bit (\<not> disable_entrypoint_hook c) @ '' veh='' @ show_bit (\<not> disable_veh c)
                  @ '' pipes='' @ show_bit (pipes c))) st1
      in logf c vt (log_text (''thegame log flags: no_net='' @ show_bit (no_network_logs c) @ '' silent_net=''
           @ show_bit (silent_network c) @ '' no_proud='' @ show_bit (no_proud_logs c) @ '' silent_proud=''
           @ show_bit (silent_proud c) @ '' silent_keepalive='' @ show_bit (silent_keepalive c))) st2)"

section \<open>Routing\<close>

text \<open>What a trace put in a file, on the console and into the pipe.\<close>

fun file_text :: "log_file \<Rightarrow> log_event list \<Rightarrow> string" where
  "file_text f [] = []"
| "file_text f (ToFile g s # es) = (if f = g then s else []) @ file_text f es"
| "file_text f (_ # es) = file_text f es"

fun console_text :: "log_event list \<Rightarrow> string" where
  "console_text [] = []"
| "console_text (ToConsole _ s # es) = s @ console_text es"
| "console_text (_ # es) = console_text es"

fun pipe_logs :: "log_event list \<Rightarrow> string list" where
  "pipe_logs [] = []"
| "pipe_logs (EmitGameLog s # es) = s # pipe_logs es"
| "pipe_logs (_ # es) = pipe_logs es"

lemma texts_append [simp]:
  "file_text f (a @ b) = file_text f a @ file_text f b"
  "console_text (a @ b) = console_text a @ console_text b"
  "pipe_logs (a @ b) = pipe_logs a @ pipe_logs b"
proof -
  show "file_text f (a @ b) = file_text f a @ file_text f b" by (induction f a rule: file_text.induct) auto
  show "console_text (a @ b) = console_text a @ console_text b" by (induction a rule: console_text.induct) auto
  show "pipe_logs (a @ b) = pipe_logs a @ pipe_logs b" by (induction a rule: pipe_logs.induct) auto
qed

text \<open>What a step adds, and that it leaves files and silencing alone.\<close>

definition adds :: "logger \<Rightarrow> logger \<Rightarrow> string \<Rightarrow> string \<Rightarrow> string \<Rightarrow> string \<Rightarrow> string list \<Rightarrow> bool" where
  "adds st st' main net proud con pipe \<longleftrightarrow>
     (\<exists>tr. lg_trace st' = lg_trace st @ tr \<and> file_text MainLog tr = main \<and> file_text NetLog tr = net
        \<and> file_text ProudLog tr = proud \<and> console_text tr = con \<and> pipe_logs tr = pipe)
     \<and> main_open st' = main_open st \<and> net_open st' = net_open st \<and> proud_open st' = proud_open st
     \<and> silenced st' = silenced st \<and> file_silenced st' = file_silenced st"

lemma adds_trans:
  assumes "adds a b m n p c q" "adds b d m' n' p' c' q'"
  shows "adds a d (m @ m') (n @ n') (p @ p') (c @ c') (q @ q')"
proof -
  from assms obtain t u where "lg_trace b = lg_trace a @ t" "file_text MainLog t = m" "file_text NetLog t = n"
    "file_text ProudLog t = p" "console_text t = c" "pipe_logs t = q"
    "lg_trace d = lg_trace b @ u" "file_text MainLog u = m'" "file_text NetLog u = n'"
    "file_text ProudLog u = p'" "console_text u = c'" "pipe_logs u = q'"
    unfolding adds_def by blast
  then have "lg_trace d = lg_trace a @ t @ u \<and> file_text MainLog (t @ u) = m @ m' \<and> file_text NetLog (t @ u) = n @ n'
     \<and> file_text ProudLog (t @ u) = p @ p' \<and> console_text (t @ u) = c @ c' \<and> pipe_logs (t @ u) = q @ q'" by simp
  then show ?thesis using assms unfolding adds_def by (intro conjI) (blast, simp_all)
qed

lemma adds_refl: "adds a a [] [] [] [] []"
  by (simp add: adds_def)

definition full_line :: "log_message \<Rightarrow> string" where
  "full_line m = source_to_prefix (source m) @ message m @ [CHR 0x0A]"

lemma write_to_adds:
  "adds st (write_to m f True st) (if f = MainLog \<and> main_open st then full_line m else [])
     (if f = NetLog \<and> net_open st then full_line m else []) (if f = ProudLog \<and> proud_open st then full_line m else []) [] []"
  by (cases f) (auto simp: adds_def write_to_def file_open_def lg_emit_def full_line_def)

lemma write_to_console_adds:
  "adds st (write_to_console c vt m st) [] [] [] (if no_console c then [] else full_line m) []"
  by (auto simp: adds_def write_to_console_def create_console_def lg_emit_def full_line_def Let_def)

lemma logf_quiet_adds:
  "adds st (logf_quiet c vt m st) (if file_silenced st (source m) \<or> \<not> main_open st then [] else full_line m) [] []
     (if silenced st (source m) \<or> no_console c then [] else full_line m) []"
proof -
  have 1: "adds st (if \<not> silenced st (source m) then write_to_console c vt m st else st) [] [] []
      (if silenced st (source m) \<or> no_console c then [] else full_line m) []" (is "adds st ?s _ _ _ _ _")
    using write_to_console_adds [of st c vt m] by (auto simp: adds_refl split: if_splits)
  have 2: "adds ?s (if \<not> file_silenced ?s (source m) then write_to m MainLog True ?s else ?s)
      (if file_silenced ?s (source m) \<or> \<not> main_open ?s then [] else full_line m) [] [] [] []"
    using write_to_adds [of ?s m MainLog] by (auto simp: adds_refl)
  have "main_open ?s = main_open st" "file_silenced ?s = file_silenced st" using 1 by (simp_all add: adds_def)
  then show ?thesis using adds_trans [OF 1 2] by (simp add: logf_quiet_def Let_def)
qed

lemma logf_adds:
  "adds st (logf c vt m st) (if file_silenced st (source m) \<or> \<not> main_open st then [] else full_line m) [] []
     (if silenced st (source m) \<or> no_console c then [] else full_line m)
     (if pipes c \<and> source m \<noteq> SrcException \<and> source m \<noteq> SrcStage then [message m] else [])"
proof -
  have q: "adds s (lg_emit [EmitGameLog x] s) [] [] [] [] [x]" for s x
    by (auto simp: adds_def lg_emit_def)
  have "logf c vt m st = (if pipes c \<and> source m \<noteq> SrcException \<and> source m \<noteq> SrcStage
      then lg_emit [EmitGameLog (message m)] (logf_quiet c vt m st) else logf_quiet c vt m st)"
    by (simp add: logf_def logf_quiet_def Let_def)
  then show ?thesis
    using adds_trans [OF logf_quiet_adds [of st c vt m] q [of _ "message m"]] logf_quiet_adds [of st c vt m] by auto
qed

lemma log_net_adds:
  "source m = SrcNet \<Longrightarrow>
   adds st (log_net c vt m st) (if file_silenced st SrcNet \<or> \<not> main_open st then [] else full_line m) [] []
     (if silenced st SrcNet \<or> no_console c then [] else full_line m) (if pipes c \<and> \<not> quiet_network c then [message m] else [])"
  using logf_adds [of st c vt m] logf_quiet_adds [of st c vt m] by (auto simp: log_net_def)

lemma prepare_logs_silencing:
  "silenced (prepare_logs c opens st) = (\<lambda>s. s = SrcNet \<and> (no_network_logs c \<or> silent_network c)
      \<or> s = SrcProud \<and> (no_proud_logs c \<or> silent_proud c))"
  "file_silenced (prepare_logs c opens st) = (\<lambda>s. s = SrcNet \<and> no_network_logs c \<or> s = SrcProud \<and> no_proud_logs c)"
  by (auto simp: prepare_logs_def Let_def fun_eq_iff)

lemma net_message_simps:
  "message (net_message s) = s" "source (net_message s) = SrcNet"
  "full_line (net_message s) = ''[net] '' @ s @ [CHR 0x0A]"
  by (simp_all add: net_message_def full_line_def source_to_prefix_def)


definition default_cfg :: cfg where
  "default_cfg = \<lparr>no_console = False, no_colors = False, pipes = True, disable_hooks = False, disable_syshooks = False,
     disable_entrypoint_hook = False, disable_veh = False, disable_park_thread = True, disable_int = True,
     minidump_enabled = False, no_network_logs = False, quiet_network = True, silent_keepalive = True,
     silent_network = False, no_proud_logs = False, silent_proud = False, server_override = False,
     server_ip = ''127.0.0.1''\<rparr>"

lemma init_config_empty: "init_config config_defaults (\<lambda>_. None) bufs = Inr default_cfg"
  by (simp add: init_config_def merge_flag_def merge_string_def get_environment_variable_def config_defaults_def
        default_cfg_def)


text \<open>The messages that are no packets ignore the switch: they are in the network log under \<open>NO_NETWORK_LOGS\<close>
  too, and the Proud messages under \<open>NO_PROUD_LOGS\<close>.\<close>

lemma no_network_logs_still_writes:
  assumes "no_network_logs c" "net_open (prepare_logs c opens st0)"
  shows "adds (prepare_logs c opens st0) (logn_message c vt sock m (prepare_logs c opens st0)) []
    (''[net] sock '' @ show_int sock @ '': '' @ message m @ [CHR 0x0A]) [] []
    (if pipes c \<and> \<not> quiet_network c then [''sock '' @ show_int sock @ '': '' @ message m] else [])"
proof -
  let ?st = "prepare_logs c opens st0" and ?m = "net_message (''sock '' @ show_int sock @ '': '' @ message m)"
  let ?s = "log_net c vt ?m ?st"
  have 1: "adds ?st ?s [] [] [] [] (if pipes c \<and> \<not> quiet_network c then [message ?m] else [])"
    using log_net_adds [of ?m ?st c vt] assms(1) by (simp add: net_message_def prepare_logs_silencing)
  then have "net_open ?s" using assms(2) by (simp add: adds_def)
  then have 2: "adds ?s (write_to ?m NetLog True ?s) [] (full_line ?m) [] [] []" using write_to_adds [of ?s ?m NetLog] by simp
  show ?thesis using adds_trans [OF 1 2]
    by (simp only: logn_message_def Let_def net_message_simps) (auto split: if_splits)
qed

lemma no_proud_logs_still_writes:
  assumes "no_proud_logs c" "proud_open (prepare_logs c opens st0)"
  shows "adds (prepare_logs c opens st0) (logp c vt m (prepare_logs c opens st0)) []
    [] (''[proud] '' @ message m @ [CHR 0x0A]) [] (if pipes c then [message m] else [])"
proof -
  let ?st = "prepare_logs c opens st0" and ?m = "with_source m SrcProud"
  let ?s = "logf c vt ?m ?st"
  have 1: "adds ?st ?s [] [] [] [] (if pipes c then [message ?m] else [])"
    using logf_adds [of ?st c vt ?m] assms(1) by (simp add: with_source_def prepare_logs_silencing)
  then have "proud_open ?s" using assms(2) by (simp add: adds_def)
  then have 2: "adds ?s (write_to ?m ProudLog True ?s) [] [] (full_line ?m) [] []" using write_to_adds [of ?s ?m ProudLog] by simp
  show ?thesis using adds_trans [OF 1 2]
    by (auto simp: logp_def Let_def full_line_def with_source_def source_to_prefix_def)
qed

section \<open>Settings from the environment\<close>

lemma merge_flag_cases:
  assumes "length buf = kBufSize"
  shows "merge_flag env buf name def =
    (case env name of
       None \<Rightarrow> Inr (def \<noteq> 0)
     | Some v \<Rightarrow> if v = [] then Inr (def \<noteq> 0)
         else if length v < 64 then Inr (env_truthy_value (Some (takeWhile (\<lambda>c. c \<noteq> zero_char) v)))
         else bindR (buf_cstr buf) (\<lambda>s. Inr (env_truthy_value (Some s))))"
  using assms
  by (auto simp: merge_flag_def get_environment_variable_def kBufSize_def buf_cstr_def takeWhile_append takeWhile_eq_all_conv [THEN iffD2]
           split: option.splits)

text \<open>A value of 64 characters or more is not read: the flag is what the stack happened to hold.\<close>

lemma long_value_is_junk:
  assumes "env name = Some v" "64 \<le> length v"
  shows "merge_flag env (''0'' @ replicate 63 zero_char) name 1 = Inr False"
    and "merge_flag env (''1'' @ replicate 63 zero_char) name 0 = Inr True"
    and "merge_flag env (replicate 64 (CHR ''1'')) name 1 = Inl OobRead"
  using assms merge_flag_cases [of "''0'' @ replicate 63 zero_char" env name 1]
    merge_flag_cases [of "''1'' @ replicate 63 zero_char" env name 0]
    merge_flag_cases [of "replicate 64 (CHR ''1'')" env name 1]
  by (auto simp: kBufSize_def buf_cstr_def zero_char_def env_truthy_value_def stricmp_eq_def)

end
