(* ===== verification/LogMaps.thy ===== *)
theory LogMaps
  imports Logging
begin

text \<open>
  The two maps of \<open>src/thegame/log.cpp\<close>, \<open>silenced\<close> and \<open>file_silenced\<close>, as the \<open>std::map\<close>s they
  are: entries in the order of their keys, \<open>operator[]\<close> adding a missing key. The lemmas show that the total functions of
  \<open>Logging\<close> are what they answer, and that once the logs are prepared a look-up changes neither, so that threads which
  log at the same time only read them.
\<close>

section \<open>The order of the sources\<close>

definition log_index :: "log_source \<Rightarrow> nat" where
  "log_index s =
     (case s of SrcException \<Rightarrow> 0 | SrcLog \<Rightarrow> 1 | SrcNet \<Rightarrow> 2 | SrcProud \<Rightarrow> 3 | SrcRMI \<Rightarrow> 4 | SrcStage \<Rightarrow> 5 | SrcNav \<Rightarrow> 6)"

lemma log_index_eq [simp]: "log_index a = log_index b \<longleftrightarrow> a = b"
  by (cases a; cases b) (simp_all add: log_index_def)

instantiation log_source :: linorder
begin

definition less_eq_log_source :: "log_source \<Rightarrow> log_source \<Rightarrow> bool" where
  "less_eq_log_source a b \<longleftrightarrow> log_index a \<le> log_index b"

definition less_log_source :: "log_source \<Rightarrow> log_source \<Rightarrow> bool" where
  "less_log_source a b \<longleftrightarrow> log_index a < log_index b"

instance
proof
  fix a b :: log_source
  assume "a \<le> b" "b \<le> a"
  then have "log_index a = log_index b" by (simp add: less_eq_log_source_def)
  then show "a = b" by simp
qed (auto simp: less_eq_log_source_def less_log_source_def)

end

section \<open>Ordered maps\<close>

text \<open>\<open>m[k]\<close> makes sure that the key is there, with \<open>d\<close> if it is new; then it is read or written.\<close>

fun map_ref :: "'k::linorder \<Rightarrow> 'v \<Rightarrow> ('k \<times> 'v) list \<Rightarrow> ('k \<times> 'v) list" where
  "map_ref k d [] = [(k, d)]"
| "map_ref k d ((q, v) # m) =
     (if k < q then (k, d) # (q, v) # m else if k = q then (q, v) # m else (q, v) # map_ref k d m)"

definition map_get :: "'k::linorder \<Rightarrow> 'v \<Rightarrow> ('k \<times> 'v) list \<Rightarrow> 'v \<times> ('k \<times> 'v) list" where
  "map_get k d m = (let m' = map_ref k d m in (case map_of m' k of Some v \<Rightarrow> v | None \<Rightarrow> d, m'))"

definition map_put :: "'k::linorder \<Rightarrow> 'v \<Rightarrow> 'v \<Rightarrow> ('k \<times> 'v) list \<Rightarrow> ('k \<times> 'v) list" where
  "map_put k d v m = map (\<lambda>(q, w). (q, if q = k then v else w)) (map_ref k d m)"

definition ordered :: "('k::linorder \<times> 'v) list \<Rightarrow> bool" where
  "ordered m \<longleftrightarrow> sorted_wrt (<) (map fst m)"

lemma keys_map_ref: "fst ` set (map_ref k d m) = insert k (fst ` set m)"
  by (induction k d m rule: map_ref.induct) auto

lemma ordered_map_ref: "ordered m \<Longrightarrow> ordered (map_ref k d m)"
proof (induction k d m rule: map_ref.induct)
  case (2 k d q v m)
  have "q < p" if "p \<in> fst ` set (map_ref k d m)" "\<not> k < q" "k \<noteq> q" for p
    using that 2(2) by (auto simp: keys_map_ref ordered_def)
  then show ?case using 2 by (auto simp: ordered_def)
qed (simp add: ordered_def)

lemma ordered_map_put: "ordered m \<Longrightarrow> ordered (map_put k d v m)"
  using ordered_map_ref [of m k d] by (simp add: ordered_def map_put_def comp_def case_prod_unfold)

lemma map_of_map_ref:
  "ordered m \<Longrightarrow> map_of (map_ref k d m) = (if k \<in> dom (map_of m) then map_of m else (map_of m)(k \<mapsto> d))"
proof (induction k d m rule: map_ref.induct)
  case (2 k d q v m)
  have "map_of m k = None" if "k < q"
    using that 2(2) by (auto simp: ordered_def map_of_eq_None_iff)
  with 2 show ?case by (auto simp: ordered_def fun_eq_iff dom_def)
qed (simp add: fun_eq_iff)

lemma map_of_map_put: "ordered m \<Longrightarrow> map_of (map_put k d v m) = (map_of m)(k \<mapsto> v)"
proof -
  have "map_of (map (\<lambda>(q, w). (q, if q = k then v else w)) xs) p
      = (case map_of xs p of None \<Rightarrow> None | Some w \<Rightarrow> Some (if p = k then v else w))" for xs p
    by (induction xs) auto
  then show "ordered m \<Longrightarrow> ?thesis" by (auto simp: map_put_def map_of_map_ref fun_eq_iff dom_def split: option.split)
qed

text \<open>A key that is there is found without a change.\<close>

lemma map_ref_present: "ordered m \<Longrightarrow> k \<in> fst ` set m \<Longrightarrow> map_ref k d m = m"
  by (induction k d m rule: map_ref.induct) (auto simp: ordered_def)

section \<open>The maps of the logs\<close>

type_synonym flags = "(log_source \<times> bool) list"

definition log_sources :: "log_source list" where
  "log_sources = [SrcException, SrcLog, SrcNet, SrcProud, SrcRMI, SrcStage, SrcNav]"

text \<open>The second half of \<open>prepare_logs\<close>.\<close>

definition prepare_maps :: "cfg \<Rightarrow> flags \<times> flags \<Rightarrow> flags \<times> flags" where
  "prepare_maps c maps =
     (let (s0, f0) = fold (\<lambda>src (s, f). (map_put src False False s, map_put src False False f)) log_sources maps;
          (s1, f1) = (if no_network_logs c then (map_put SrcNet False True s0, map_put SrcNet False True f0) else (s0, f0));
          (s2, f2) = (if no_proud_logs c then (map_put SrcProud False True s1, map_put SrcProud False True f1) else (s1, f1));
          s3 = (if silent_network c then map_put SrcNet False True s2 else s2);
          s4 = (if silent_proud c then map_put SrcProud False True s3 else s3)
      in (s4, f2))"

text \<open>What \<open>logf\<close> and \<open>logf_quiet\<close> look up: to the console, to the file, and the maps after.\<close>

definition log_flags :: "log_source \<Rightarrow> flags \<times> flags \<Rightarrow> bool \<times> bool \<times> flags \<times> flags" where
  "log_flags src maps =
     (let (q, s) = map_get src False (fst maps); (fq, f) = map_get src False (snd maps) in (\<not> q, \<not> fq, s, f))"

text \<open>The total function a map stands for.\<close>

definition flag :: "flags \<Rightarrow> log_source \<Rightarrow> bool" where
  "flag m src = (case map_of m src of Some b \<Rightarrow> b | None \<Rightarrow> False)"

lemma flag_map_put: "ordered m \<Longrightarrow> flag (map_put src d b m) = (flag m)(src := b)"
  by (auto simp: flag_def map_of_map_put fun_eq_iff)

lemma flag_map_get: "ordered m \<Longrightarrow> fst (map_get src False m) = flag m src \<and> flag (snd (map_get src False m)) = flag m"
  by (auto simp: flag_def map_get_def Let_def map_of_map_ref fun_eq_iff dom_def split: option.split)

lemma log_flags_refine:
  assumes "ordered (fst maps)" "ordered (snd maps)" "log_flags src maps = (console, file, s, f)"
  shows "console = (\<not> flag (fst maps) src)" "file = (\<not> flag (snd maps) src)" "flag s = flag (fst maps)" "flag f = flag (snd maps)"
  using assms flag_map_get [OF assms(1), of src] flag_map_get [OF assms(2), of src]
  by (auto simp: log_flags_def split_beta)

lemma all_sources: "src \<in> set log_sources"
  by (cases src) (simp_all add: log_sources_def)

lemma keys_map_put: "fst ` set (map_put k d v m) = insert k (fst ` set m)"
  using keys_map_ref [of k d m] by (force simp: map_put_def image_image case_prod_unfold)

lemma cleared_maps:
  assumes "ordered (fst maps)" "ordered (snd maps)"
    and "fold (\<lambda>src (s, f). (map_put src False False s, map_put src False False f)) srcs maps = (s, f)"
  shows "ordered s \<and> ordered f \<and> fst ` set s = set srcs \<union> fst ` set (fst maps) \<and> fst ` set f = set srcs \<union> fst ` set (snd maps)
    \<and> flag s = (\<lambda>x. x \<notin> set srcs \<and> flag (fst maps) x) \<and> flag f = (\<lambda>x. x \<notin> set srcs \<and> flag (snd maps) x)"
  using assms
proof (induction srcs arbitrary: maps)
  case (Cons a srcs)
  let ?m = "(map_put a False False (fst maps), map_put a False False (snd maps))"
  have "fold (\<lambda>src (s, f). (map_put src False False s, map_put src False False f)) srcs ?m = (s, f)"
    using Cons.prems(3) by (simp add: case_prod_unfold)
  from Cons.IH [OF _ _ this] Cons.prems(1,2) show ?case
    by (auto simp: ordered_map_put keys_map_put flag_map_put fun_eq_iff)
qed auto

text \<open>The prepared maps have every source, answer what the model of the logs says, and no look-up changes them.\<close>

theorem prepared_maps:
  assumes "ordered (fst maps)" "ordered (snd maps)" "prepare_maps c maps = (s, f)"
  shows "ordered s \<and> ordered f \<and> (\<forall>src. src \<in> fst ` set s \<and> src \<in> fst ` set f)"
    and "flag s = silenced (prepare_logs c opens st)" "flag f = file_silenced (prepare_logs c opens st)"
    and "log_flags src (s, f) = (\<not> silenced (prepare_logs c opens st) src, \<not> file_silenced (prepare_logs c opens st) src, s, f)"
proof -
  obtain s0 f0 where e: "fold (\<lambda>src (s, f). (map_put src False False s, map_put src False False f)) log_sources maps = (s0, f0)"
    by fastforce
  note z = cleared_maps [OF assms(1,2) e] e
  have k: "ordered s" "ordered f" "fst ` set s = UNIV" "fst ` set f = UNIV"
    using assms(3) z all_sources by (auto simp: prepare_maps_def Let_def ordered_map_put keys_map_put split: if_splits)
  have fs: "flag s = silenced (prepare_logs c opens st)" "flag f = file_silenced (prepare_logs c opens st)"
    using assms(3) z all_sources
    by (auto simp: prepare_maps_def prepare_logs_def Let_def flag_map_put ordered_map_put fun_eq_iff split: if_splits)
  show "ordered s \<and> ordered f \<and> (\<forall>src. src \<in> fst ` set s \<and> src \<in> fst ` set f)" using k by simp
  show "flag s = silenced (prepare_logs c opens st)" "flag f = file_silenced (prepare_logs c opens st)" by (rule fs)+
  have "snd (map_get src False s) = s" "snd (map_get src False f) = f"
    using k by (simp_all add: map_get_def map_ref_present)
  then show "log_flags src (s, f) = (\<not> silenced (prepare_logs c opens st) src, \<not> file_silenced (prepare_logs c opens st) src, s, f)"
    using flag_map_get [OF k(1), of src] flag_map_get [OF k(2), of src] fs by (simp add: log_flags_def split_beta)
qed

text \<open>Before, a look-up adds its key.\<close>

lemma early_lookup_writes: "log_flags src ([], []) = (True, True, [(src, False)], [(src, False)])"
  by (simp add: log_flags_def map_get_def)

end
