(* ===== verification/Converters.thy ===== *)
theory Converters
  imports Memory
begin

text \<open>
  The string converters of the engine, \<open>src/game/engine/StringConverters.cpp\<close>: an object holds a
  pointer that is null, its inline buffer or a block of the C runtime's heap, and a conversion makes the buffer large
  enough and lets Windows convert into it.

  Buffers are bytes, those of a wide string two per character; \<open>None\<close> is a byte nobody wrote. What
  Windows makes of the source in a code page, an error code or bytes, is an argument. It is told a capacity: 0 asks for
  the size, too small a one fails with \<open>ERROR_INSUFFICIENT_BUFFER\<close>, and a call that fails leaves the
  capacity it was given indeterminate.
\<close>

section \<open>Buffers\<close>

datatype str_ptr = NullPtr | InlineBuf | HeapBuf nat

record holder =
  current_ptr :: str_ptr
  inline_buf :: "cell list"
  h_heap :: bheap

definition kInlineBufSize :: int where "kInlineBufSize = 128"

definition E_INVALIDARG :: u32 where "E_INVALIDARG = 0x80070057"
definition E_OUTOFMEMORY :: u32 where "E_OUTOFMEMORY = 0x8007000E"

definition new_holder :: "nat \<Rightarrow> bheap \<Rightarrow> holder" where
  "new_holder unit h = \<lparr>current_ptr = InlineBuf, inline_buf = replicate (unit * nat kInlineBufSize) None, h_heap = h\<rparr>"

text \<open>The address of the pointer and of the inline buffer are never null in the two callers.\<close>

definition EnsureStringBufferCapacity :: "int \<Rightarrow> int \<Rightarrow> holder \<Rightarrow> unit res \<times> holder" where
  "EnsureStringBufferCapacity required_bytes inline_buf_size_bytes st =
     (if required_bytes < 0 then (Inl (AtlException E_INVALIDARG), st)
      else if current_ptr st \<noteq> InlineBuf then
        (let p = (case current_ptr st of HeapBuf i \<Rightarrow> Some i | _ \<Rightarrow> None) in
         if required_bytes > inline_buf_size_bytes then
           (case EE_Realloc p (word_of_int required_bytes) (h_heap st) of
              (Inl e, h) \<Rightarrow> (Inl e, st\<lparr>h_heap := h\<rparr>)
            | (Inr None, h) \<Rightarrow> (Inl (AtlException E_OUTOFMEMORY), st\<lparr>current_ptr := NullPtr, h_heap := h\<rparr>)
            | (Inr (Some i), h) \<Rightarrow> (Inr (), st\<lparr>current_ptr := HeapBuf i, h_heap := h\<rparr>))
         else
           (case EE_Free p (h_heap st) of
              (Inl e, h) \<Rightarrow> (Inl e, st\<lparr>h_heap := h\<rparr>)
            | (Inr _, h) \<Rightarrow> (Inr (), st\<lparr>current_ptr := InlineBuf, h_heap := h\<rparr>)))
      else if required_bytes > inline_buf_size_bytes then
        (case EE_Malloc (word_of_int required_bytes) (h_heap st) of
           (None, h) \<Rightarrow> (Inl (AtlException E_OUTOFMEMORY), st\<lparr>current_ptr := NullPtr, h_heap := h\<rparr>)
         | (Some i, h) \<Rightarrow> (Inr (), st\<lparr>current_ptr := HeapBuf i, h_heap := h\<rparr>))
      else (Inr (), st))"

definition buffer_of :: "holder \<Rightarrow> cell list res" where
  "buffer_of st =
     (case current_ptr st of
        NullPtr \<Rightarrow> Inl NullDeref
      | InlineBuf \<Rightarrow> Inr (inline_buf st)
      | HeapBuf i \<Rightarrow> of_option UseAfterFree (hblk (h_heap st) i))"

definition set_buffer :: "cell list \<Rightarrow> holder \<Rightarrow> holder" where
  "set_buffer cells st =
     (case current_ptr st of
        NullPtr \<Rightarrow> st
      | InlineBuf \<Rightarrow> st\<lparr>inline_buf := cells\<rparr>
      | HeapBuf i \<Rightarrow> st\<lparr>h_heap := hwrite i cells (h_heap st)\<rparr>)"

section \<open>Conversions\<close>

definition ERROR_INSUFFICIENT_BUFFER :: u32 where "ERROR_INSUFFICIENT_BUFFER = 122"

definition HRESULT_FROM_WIN32 :: "u32 \<Rightarrow> u32" where
  "HRESULT_FROM_WIN32 x = (if sint x \<le> 0 then x else (x AND 0xFFFF) OR 0x80070000)"

text \<open>\<open>WideCharToMultiByte\<close> and \<open>MultiByteToWideChar\<close>: bytes written, error code and the buffer. The capacity
  is in bytes.\<close>

definition api_convert :: "u32 + u8 list \<Rightarrow> nat \<Rightarrow> cell list \<Rightarrow> (nat \<times> u32 \<times> cell list) res" where
  "api_convert out capacity cells =
     (let failed = replicate (min capacity (length cells)) None @ drop capacity cells in
      case out of
        Inl e \<Rightarrow> Inr (0, e, failed)
      | Inr bs \<Rightarrow>
          if capacity = 0 then Inr (length bs, 0, cells)
          else if length bs > capacity then Inr (0, ERROR_INSUFFICIENT_BUFFER, failed)
          else if length bs > length cells then Inl OobWrite
          else Inr (length bs, 0, map Some bs @ drop (length bs) cells))"

definition call_convert :: "u32 + u8 list \<Rightarrow> nat \<Rightarrow> holder \<Rightarrow> (nat \<times> u32) res \<times> holder" where
  "call_convert out capacity st =
     (case bindR (buffer_of st) (api_convert out capacity) of
        Inl e \<Rightarrow> (Inl e, st)
      | Inr (n, err, cells) \<Rightarrow> (Inr (n, err), set_buffer cells st))"

definition ThrowStringConversionError :: "u32 \<Rightarrow> unit res" where
  "ThrowStringConversionError errcode = Inl (AtlException (HRESULT_FROM_WIN32 errcode))"

text \<open>
  Both conversions; \<open>unit\<close> is the number of bytes of a character of the result, in which the capacity is
  counted, while the buffer is made large enough for that number of bytes.
\<close>

definition convert_string :: "nat \<Rightarrow> u32 + u8 list \<Rightarrow> nat \<Rightarrow> holder \<Rightarrow> unit res \<times> holder" where
  "convert_string unit out src_len st =
     (let len = int src_len + 1 in
      if \<not> i32_ok len \<or> \<not> i32_ok (len * 4) then (Inl SignedOverflow, st)
      else case EnsureStringBufferCapacity (len * 4) kInlineBufSize st of
        (Inl e, st1) \<Rightarrow> (Inl e, st1)
      | (Inr _, st1) \<Rightarrow>
          (case call_convert out (unit * nat (4 * len)) st1 of
             (Inl e, st2) \<Rightarrow> (Inl e, st2)
           | (Inr (n, err), st2) \<Rightarrow>
               if n \<noteq> 0 then (Inr (), st2)
               else if err = ERROR_INSUFFICIENT_BUFFER then
                 (let required = (case out of Inr bs \<Rightarrow> length bs div unit | Inl _ \<Rightarrow> 0) in
                  case EnsureStringBufferCapacity (int required) kInlineBufSize st2 of
                    (Inl e, st3) \<Rightarrow> (Inl e, st3)
                  | (Inr _, st3) \<Rightarrow>
                      (case call_convert out (unit * required) st3 of
                         (Inl e, st4) \<Rightarrow> (Inl e, st4)
                       | (Inr (n', err'), st4) \<Rightarrow>
                           if n' = 0 then (ThrowStringConversionError err', st4) else (Inr (), st4)))
               else (Inr (), st2)))"

definition ConvertWideToMultiByte :: "(nat \<Rightarrow> u16 list \<Rightarrow> u32 + u8 list) \<Rightarrow> nat \<Rightarrow> u16 list option \<Rightarrow> holder \<Rightarrow> unit res \<times> holder" where
  "ConvertWideToMultiByte conv CodePage src st =
     (case src of
        None \<Rightarrow> (Inr (), st\<lparr>current_ptr := NullPtr\<rparr>)
      | Some s \<Rightarrow> convert_string 1 (conv CodePage (s @ [0])) (length s) st)"

text \<open>The bytes of wide characters, low byte first.\<close>

definition wide_bytes :: "u16 list \<Rightarrow> u8 list" where
  "wide_bytes ws = concat (map (\<lambda>w. [ucast w, ucast (drop_bit 8 w)]) ws)"

definition ConvertMultiByteToWide :: "(nat \<Rightarrow> u8 list \<Rightarrow> u32 + u16 list) \<Rightarrow> nat \<Rightarrow> u8 list option \<Rightarrow> holder \<Rightarrow> unit res \<times> holder" where
  "ConvertMultiByteToWide conv CodePage src st =
     (case src of
        None \<Rightarrow> (Inr (), st\<lparr>current_ptr := NullPtr\<rparr>)
      | Some s \<Rightarrow> convert_string 2 (case conv CodePage (s @ [0]) of Inl e \<Rightarrow> Inl e | Inr ws \<Rightarrow> Inr (wide_bytes ws)) (length s) st)"

section \<open>What a conversion leaves\<close>

definition holder_ok :: "nat \<Rightarrow> holder \<Rightarrow> bool" where
  "holder_ok unit st \<longleftrightarrow>
     length (inline_buf st) = unit * nat kInlineBufSize \<and> heap_wf (h_heap st) \<and>
     (case current_ptr st of HeapBuf i \<Rightarrow> hblk (h_heap st) i \<noteq> None | _ \<Rightarrow> True)"

lemma new_holder_ok: "heap_wf h \<Longrightarrow> holder_ok unit (new_holder unit h)"
  by (simp add: holder_ok_def new_holder_def)

text \<open>Whatever happens, a holder stays valid; a buffer that was ensured has the bytes.\<close>

lemma unat_req: "0 \<le> n \<Longrightarrow> n < 2 ^ 32 \<Longrightarrow> unat (word_of_int n :: u32) = nat n"
  by (simp add: unat_eq_nat_uint uint_word_of_int)

lemma EE_Malloc_result:
  assumes "heap_wf h" "s \<noteq> 0" "EE_Malloc s h = (r, h')"
  shows "heap_wf h' \<and> hfail h' = hfail h \<and>
    (r = None \<and> \<not> no_oom h \<or> (\<exists>i cells. r = Some i \<and> hblk h' i = Some cells \<and> length cells = unat s))"
proof -
  have e: "halloc (unat s) (replicate (unat s) (Some 0)) h = (r, h')" using assms(2,3) by (simp add: EE_Malloc_def Let_def)
  show ?thesis using halloc_wf [OF assms(1) e] e by (auto simp: halloc_def no_oom_def split: if_splits)
qed

lemma EE_Realloc_result:
  assumes "heap_wf h" "s \<noteq> 0" "p = None \<or> (\<exists>i. p = Some i \<and> hblk h i \<noteq> None)" "EE_Realloc p s h = (r, h')"
  shows "heap_wf h' \<and> hfail h' = hfail h \<and>
    (r = Inr None \<and> \<not> no_oom h \<or> (\<exists>i cells. r = Inr (Some i) \<and> hblk h' i = Some cells \<and> length cells = unat s))"
proof (cases p)
  case None
  then show ?thesis using assms EE_Malloc_result [of h s] by (auto simp: EE_Realloc_def Let_def split: prod.splits)
next
  case (Some i)
  then obtain old where old: "hblk h i = Some old" using assms(3) by auto
  let ?b = "take (unat s) old @ replicate (unat s - length old) (Some 0)"
  obtain q h1 where q: "halloc (unat s) ?b h = (q, h1)" by fastforce
  have "i \<noteq> hnext h" using heap_wf_live [OF assms(1) old] by simp
  then show ?thesis using assms(2,4) Some old q halloc_wf [OF assms(1) q]
    by (auto simp: EE_Realloc_def halloc_def no_oom_def Let_def hfree_wf split: if_splits)
qed

lemma EE_Free_result:
  assumes "heap_wf h" "p = None \<or> (\<exists>i. p = Some i \<and> hblk h i \<noteq> None)" "EE_Free p h = (r, h')"
  shows "heap_wf h' \<and> hfail h' = hfail h \<and> r = Inr ()"
  using assms by (auto simp: EE_Free_def hfree_wf split: option.splits if_splits)

lemma ensure_holder:
  assumes ok: "holder_ok unit st" and req: "req < 2 ^ 31" "0 < unit"
    and run: "EnsureStringBufferCapacity req kInlineBufSize st = (r, st')"
  shows "holder_ok unit st' \<and> hfail (h_heap st') = hfail (h_heap st) \<and>
    (case r of Inl e \<Rightarrow> e = AtlException E_INVALIDARG \<and> req < 0 \<or> e = AtlException E_OUTOFMEMORY \<and> \<not> no_oom (h_heap st)
     | Inr _ \<Rightarrow> (\<exists>cells. buffer_of st' = Inr cells \<and> nat req \<le> length cells))"
proof -
  let ?p = "case current_ptr st of HeapBuf i \<Rightarrow> Some i | _ \<Rightarrow> None"
  have wf: "heap_wf (h_heap st)" and inl: "length (inline_buf st) = unit * nat kInlineBufSize"
    using ok by (auto simp: holder_ok_def)
  have p: "?p = None \<or> (\<exists>i. ?p = Some i \<and> hblk (h_heap st) i \<noteq> None)"
    using ok by (auto simp: holder_ok_def split: str_ptr.splits)
  consider (neg) "req < 0" | (heap) "req > 128" | (inline) "0 \<le> req" "req \<le> 128" by linarith
  then show ?thesis
  proof cases
    case neg
    then show ?thesis using run ok by (auto simp: EnsureStringBufferCapacity_def)
  next
    case heap
    have n: "unat (word_of_int req :: u32) = nat req" using heap req unat_req [of req] by simp
    then have s: "word_of_int req \<noteq> (0 :: u32)" using heap by (metis nat_code(2) nat_le_0 not_numeral_le_zero order_less_imp_le unat_0 zless_nat_conj zero_less_numeral order_less_trans less_irrefl)
    show ?thesis
    proof (cases "current_ptr st = InlineBuf")
      case True
      obtain q h where q: "EE_Malloc (word_of_int req) (h_heap st) = (q, h)" by fastforce
      show ?thesis using EE_Malloc_result [OF wf s q] run True heap inl q n
        by (auto simp: EnsureStringBufferCapacity_def kInlineBufSize_def holder_ok_def buffer_of_def)
    next
      case False
      obtain q h where q: "EE_Realloc ?p (word_of_int req) (h_heap st) = (q, h)" by fastforce
      show ?thesis using EE_Realloc_result [OF wf s p q] run False heap inl q n
        by (auto simp: EnsureStringBufferCapacity_def kInlineBufSize_def holder_ok_def buffer_of_def Let_def)
    qed
  next
    case inline
    have len: "nat req \<le> length (inline_buf st)" using inline inl req(2) by (cases unit) (auto simp: kInlineBufSize_def)
    show ?thesis
    proof (cases "current_ptr st = InlineBuf")
      case True
      then show ?thesis using run ok inline len by (auto simp: EnsureStringBufferCapacity_def kInlineBufSize_def buffer_of_def)
    next
      case False
      obtain q h where q: "EE_Free ?p (h_heap st) = (q, h)" by fastforce
      show ?thesis using EE_Free_result [OF wf p q] run False inline inl len q
        by (auto simp: EnsureStringBufferCapacity_def kInlineBufSize_def holder_ok_def buffer_of_def Let_def)
    qed
  qed
qed

lemma call_convert_ok:
  assumes "holder_ok unit st" "buffer_of st = Inr cells" "call_convert out cap st = (Inr (n, err), st')"
  shows "holder_ok unit st' \<and> hfail (h_heap st') = hfail (h_heap st) \<and> (\<exists>cells'. api_convert out cap cells = Inr (n, err, cells')
    \<and> buffer_of st' = Inr cells' \<and> length cells' = length cells)"
proof -
  obtain cells' where c: "api_convert out cap cells = Inr (n, err, cells')" "st' = set_buffer cells' st"
    using assms(2,3) by (auto simp: call_convert_def split: sum.splits prod.splits)
  moreover have l: "length cells' = length cells"
    using c(1) by (auto simp: api_convert_def Let_def split: sum.splits if_splits)
  moreover have "holder_ok unit (set_buffer cells' st) \<and> hfail (h_heap (set_buffer cells' st)) = hfail (h_heap st)
      \<and> buffer_of (set_buffer cells' st) = Inr cells'"
    using assms(1,2) l by (auto simp: holder_ok_def set_buffer_def buffer_of_def hwrite_wf of_option_def
        split: str_ptr.splits option.splits)
  ultimately show ?thesis by simp
qed

lemma Suc_0_mult: "Suc 0 * n = n"
  by simp

lemma api_convert_writes:
  assumes "bs \<noteq> []" "length bs \<le> cap" "length bs \<le> length cells"
  shows "\<exists>cells'. api_convert (Inr bs) cap cells = Inr (length bs, 0, cells') \<and> take (length bs) cells' = map Some bs"
  using assms by (simp add: api_convert_def Let_def) (auto simp: not_less)

text \<open>What a buffer holds at its front.\<close>

definition holds :: "nat \<Rightarrow> u8 list \<Rightarrow> holder \<Rightarrow> bool" where
  "holds unit bs st \<longleftrightarrow> holder_ok unit st \<and> (\<exists>cells. buffer_of st = Inr cells \<and> take (length bs) cells = map Some bs)"

lemma call_convert_writes:
  assumes "holder_ok unit st" "buffer_of st = Inr cells" "bs \<noteq> []" "length bs \<le> cap" "length bs \<le> length cells"
  shows "\<exists>st'. call_convert (Inr bs) cap st = (Inr (length bs, 0), st') \<and> holds unit bs st'"
proof -
  from api_convert_writes [OF assms(3-5)] obtain cells' where
    a: "api_convert (Inr bs) cap cells = Inr (length bs, 0, cells')" "take (length bs) cells' = map Some bs" by blast
  then have c: "call_convert (Inr bs) cap st = (Inr (length bs, 0), set_buffer cells' st)"
    using assms(2) by (simp add: call_convert_def)
  show ?thesis using call_convert_ok [OF assms(1,2) c] a c by (auto simp: holds_def)
qed

lemma convert_string_ok:
  assumes ok: "holder_ok unit st" "0 < unit" "no_oom (h_heap st)" and bs: "bs \<noteq> []" "unit dvd length bs"
    and lens: "4 * (src_len + 1) < 2 ^ 31" "length bs < 2 ^ 31" and fits: "unit = 1 \<or> length bs \<le> 4 * (src_len + 1)"
  shows "\<exists>st'. convert_string unit (Inr bs) src_len st = (Inr (), st') \<and> holds unit bs st'"
proof -
  let ?len = "int src_len + 1" and ?cap = "4 * (src_len + 1)"
  have i32: "i32_ok ?len" "i32_ok (?len * 4)" "nat (?len * 4) = ?cap" "nat (4 * ?len) = ?cap" using lens by (auto simp: i32_ok_def)
  obtain r st1 where e1: "EnsureStringBufferCapacity (?len * 4) kInlineBufSize st = (r, st1)" by fastforce
  have "?len * 4 < 2 ^ 31" using lens by simp
  from ensure_holder [OF ok(1) this ok(2) e1] ok(3) obtain cells where
    r: "r = Inr ()" and ok1: "holder_ok unit st1" "no_oom (h_heap st1)" and cells: "buffer_of st1 = Inr cells" "?cap \<le> length cells"
    by (auto simp: i32 no_oom_def split: sum.splits)
  show ?thesis
  proof (cases "length bs \<le> ?cap")
    case True
    have "?cap \<le> unit * ?cap" using ok(2) by simp
    then have "length bs \<le> unit * ?cap" using True by linarith
    from call_convert_writes [OF ok1(1) cells(1) bs(1) this] True cells(2) obtain st2 where
      "call_convert (Inr bs) (unit * ?cap) st1 = (Inr (length bs, 0), st2)" "holds unit bs st2" by fastforce
    then show ?thesis using e1 r i32 bs(1) by (simp add: convert_string_def Let_def del: mult_Suc mult_Suc_right)
  next
    case False
    then have u: "unit = 1" using fits by simp
    have "api_convert (Inr bs) ?cap cells = Inr (0, ERROR_INSUFFICIENT_BUFFER, replicate (min ?cap (length cells)) None @ drop ?cap cells)"
      using False by (simp add: api_convert_def Let_def)
    then have c: "call_convert (Inr bs) ?cap st1 = (Inr (0, ERROR_INSUFFICIENT_BUFFER),
        set_buffer (replicate (min ?cap (length cells)) None @ drop ?cap cells) st1)" (is "_ = (_, ?st2)")
      using cells(1) by (simp add: call_convert_def)
    from call_convert_ok [OF ok1(1) cells(1) c] ok1(2) have ok2: "holder_ok unit ?st2" "no_oom (h_heap ?st2)"
      by (auto simp: no_oom_def)
    obtain q st3 where e3: "EnsureStringBufferCapacity (int (length bs)) kInlineBufSize ?st2 = (q, st3)" by fastforce
    have "int (length bs) < 2 ^ 31" using lens(2) by simp
    from ensure_holder [OF ok2(1) this ok(2) e3] ok2(2) obtain cells3 where
      q: "q = Inr ()" and ok3: "holder_ok unit st3" and cells3: "buffer_of st3 = Inr cells3" "length bs \<le> length cells3"
      by (auto split: sum.splits)
    from call_convert_writes [OF ok3 cells3(1) bs(1) order_refl cells3(2)] obtain st4 where
      "call_convert (Inr bs) (length bs) st3 = (Inr (length bs, 0), st4)" "holds unit bs st4" by blast
    then show ?thesis using e1 r i32 c e3 q bs(1) u by (simp add: Suc_0_mult convert_string_def Let_def del: mult_Suc mult_Suc_right)
  qed
qed

text \<open> C35: A conversion to multibyte text that Windows can do and memory allows ends with the converted bytes, terminator
  included, at the front of the buffer, whatever their number and whatever the object converted before: the buffer is
  live and large enough, and the object can be used again.\<close>

theorem wide_to_multibyte_correct:
  assumes "holder_ok 1 st" "no_oom (h_heap st)" "conv cp (s @ [0]) = Inr bs" "bs \<noteq> []"
    and "4 * (length s + 1) < 2 ^ 31" "length bs < 2 ^ 31"
  shows "\<exists>st'. ConvertWideToMultiByte conv cp (Some s) st = (Inr (), st') \<and> holds 1 bs st'"
  using convert_string_ok [of 1 st bs "length s"] assms by (simp add: ConvertWideToMultiByte_def)

theorem wide_to_multibyte_correct_witness:
  "\<exists>st'. ConvertWideToMultiByte (\<lambda>cp ws. Inr (map ucast ws)) 1251 (Some (replicate 40 65))
      (new_holder 1 \<lparr>hblk = Map.empty, hnext = 0, hfail = \<lambda>_ _. False\<rparr>) = (Inr (), st') \<and>
    holds 1 (map ucast (replicate 40 (65 :: u16) @ [0])) st'"
  by (rule wide_to_multibyte_correct)
     (simp_all add: new_holder_ok heap_wf_def no_oom_def, simp add: new_holder_def)

text \<open>The other direction needs Windows not to make more than two characters of a byte.\<close>

lemma multibyte_to_wide_correct:
  assumes "holder_ok 2 st" "no_oom (h_heap st)" "conv cp (s @ [0]) = Inr ws" "ws \<noteq> []"
    and "4 * (length s + 1) < 2 ^ 31" "length ws \<le> 2 * (length s + 1)"
  shows "\<exists>st'. ConvertMultiByteToWide conv cp (Some s) st = (Inr (), st') \<and> holds 2 (wide_bytes ws) st'"
proof -
  have l: "length (wide_bytes ws) = 2 * length ws" by (induction ws) (auto simp: wide_bytes_def)
  moreover have "wide_bytes ws \<noteq> []" using l assms(4) by auto
  ultimately show ?thesis using convert_string_ok [of 2 st "wide_bytes ws" "length s"] assms
    by (simp add: ConvertMultiByteToWide_def)
qed

text \<open>The capacity Windows is told counts characters, the buffer bytes: a third character per byte is written past the
  end of the heap block.\<close>

lemma wide_capacity_mismatch:
  "fst (ConvertMultiByteToWide (\<lambda>cp bs. Inr (concat (map (\<lambda>b. [ucast b, 0x300, 0x301]) bs))) 0 (Some (replicate 99 65))
     (new_holder 2 \<lparr>hblk = Map.empty, hnext = 0, hfail = \<lambda>_ _. False\<rparr>)) = Inl OobWrite"
  by (simp add: ConvertMultiByteToWide_def convert_string_def i32_ok_def EnsureStringBufferCapacity_def kInlineBufSize_def
      new_holder_def EE_Malloc_def halloc_def call_convert_def buffer_of_def api_convert_def wide_bytes_def map_replicate_const
      concat_replicate_trivial sum_list_replicate length_concat Let_def comp_def)

text \<open>An error other than a small buffer is not reported: the conversion returns with indeterminate characters.\<close>

lemma other_error_swallowed:
  assumes "conv cp (s @ [0]) = Inl e" "e \<noteq> ERROR_INSUFFICIENT_BUFFER" "holder_ok 1 st" "no_oom (h_heap st)"
    "4 * (length s + 1) < 2 ^ 31"
  shows "\<exists>st' cells. ConvertWideToMultiByte conv cp (Some s) st = (Inr (), st') \<and> buffer_of st' = Inr cells
    \<and> take (4 * (length s + 1)) cells = replicate (4 * (length s + 1)) None"
proof -
  let ?len = "int (length s) + 1" and ?cap = "4 * (length s + 1)"
  have i32: "i32_ok ?len" "i32_ok (?len * 4)" "nat (?len * 4) = ?cap" "nat (4 * ?len) = ?cap" using assms(5) by (auto simp: i32_ok_def)
  obtain r st1 where e1: "EnsureStringBufferCapacity (?len * 4) kInlineBufSize st = (r, st1)" by fastforce
  have "?len * 4 < 2 ^ 31" using assms(5) by simp
  from ensure_holder [OF assms(3) this _ e1] assms(4) obtain cells where
    r: "r = Inr ()" and ok1: "holder_ok 1 st1" and cells: "buffer_of st1 = Inr cells" "?cap \<le> length cells"
    by (auto simp: i32 no_oom_def split: sum.splits)
  have c: "call_convert (Inl e) ?cap st1 = (Inr (0, e), set_buffer (replicate ?cap None @ drop ?cap cells) st1)"
    using cells by (simp add: call_convert_def api_convert_def Let_def min_def del: mult_Suc mult_Suc_right)
  from call_convert_ok [OF ok1 cells(1) c] obtain cells' where
    "buffer_of (set_buffer (replicate ?cap None @ drop ?cap cells) st1) = Inr cells'"
    "api_convert (Inl e) ?cap cells = Inr (0, e, cells')" by blast
  then have "take ?cap cells' = replicate ?cap None" using cells(2)
    by (auto simp: api_convert_def Let_def min_def simp del: mult_Suc mult_Suc_right)
  then show ?thesis using e1 r i32 c assms(1,2) \<open>buffer_of _ = Inr cells'\<close>
    by (simp add: Suc_0_mult ConvertWideToMultiByte_def convert_string_def Let_def del: mult_Suc mult_Suc_right)
qed

text \<open>A null source drops the buffer: a block on the heap stays allocated, and nothing points to it any more.\<close>

lemma null_source_leaks:
  assumes "current_ptr st = HeapBuf i" "hblk (h_heap st) i = Some cells"
  shows "\<exists>st'. ConvertWideToMultiByte conv cp None st = (Inr (), st') \<and> current_ptr st' = NullPtr \<and> hblk (h_heap st') i = Some cells"
  using assms by (simp add: ConvertWideToMultiByte_def)

end
