(* ===== verification/Crt.thy ===== *)
theory Crt
  imports Prelude
begin

text \<open>
  The stubs of the game's own C runtime and heap, \<open>src/crt/memory.cpp\<close>: addresses looked up once in modules that are
  loaded at that moment. What is loaded and what a module exports are arguments (0 is a null pointer); a call is the
  address it goes to and its arguments.
\<close>

record crt_stub =
  recalloc_p :: u32
  calloc_p :: u32
  free_p :: u32
  get_proc_heap_p :: u32
  heap_free_p :: u32
  heap_alloc_p :: u32
  heap_realloc_p :: u32
  initialized :: bool

definition crt_stub0 :: crt_stub where
  "crt_stub0 = \<lparr>recalloc_p = 0, calloc_p = 0, free_p = 0, get_proc_heap_p = 0, heap_free_p = 0, heap_alloc_p = 0,
     heap_realloc_p = 0, initialized = False\<rparr>"

record modules =
  is_loaded :: "string \<Rightarrow> bool"
  proc_address :: "string \<Rightarrow> string \<Rightarrow> u32"

definition init_msvcr90 :: "modules \<Rightarrow> crt_stub \<Rightarrow> crt_stub" where
  "init_msvcr90 m stub =
     (if \<not> is_loaded m ''msvcr90.dll'' then stub
      else stub\<lparr>recalloc_p := proc_address m ''msvcr90.dll'' ''_recalloc'',
                calloc_p := proc_address m ''msvcr90.dll'' ''calloc'',
                free_p := proc_address m ''msvcr90.dll'' ''free''\<rparr>)"

definition init_kernel32 :: "modules \<Rightarrow> crt_stub \<Rightarrow> crt_stub" where
  "init_kernel32 m stub =
     (if \<not> is_loaded m ''kernel32.dll'' then stub
      else stub\<lparr>get_proc_heap_p := proc_address m ''kernel32.dll'' ''GetProcessHeap'',
                heap_free_p := proc_address m ''kernel32.dll'' ''HeapFree'',
                heap_alloc_p := proc_address m ''kernel32.dll'' ''HeapAlloc'',
                heap_realloc_p := proc_address m ''kernel32.dll'' ''HeapReAlloc''\<rparr>)"

definition init_CRT :: "modules \<Rightarrow> crt_stub \<Rightarrow> crt_stub" where
  "init_CRT m stub = (init_kernel32 m (init_msvcr90 m stub))\<lparr>initialized := True\<rparr>"

definition ensure_CRT :: "modules \<Rightarrow> crt_stub \<Rightarrow> crt_stub" where
  "ensure_CRT m stub = (if initialized stub then stub else init_CRT m stub)"

datatype crt_call = CrtCall u32 "u32 list"

definition through :: "(crt_stub \<Rightarrow> u32) \<Rightarrow> u32 list \<Rightarrow> crt_stub \<Rightarrow> crt_call res" where
  "through p args stub = (if p stub = 0 then Inl NullDeref else Inr (CrtCall (p stub) args))"

definition CRT_recalloc :: "modules \<Rightarrow> u32 \<Rightarrow> u32 \<Rightarrow> u32 \<Rightarrow> crt_stub \<Rightarrow> crt_call res \<times> crt_stub" where
  "CRT_recalloc m ptr Count Size stub =
     (let st = ensure_CRT m stub in (through recalloc_p [ptr, Count, Size] st, st))"

definition CRT_calloc :: "modules \<Rightarrow> u32 \<Rightarrow> u32 \<Rightarrow> crt_stub \<Rightarrow> crt_call res \<times> crt_stub" where
  "CRT_calloc m Count Size stub = (let st = ensure_CRT m stub in (through calloc_p [Count, Size] st, st))"

definition CRT_free :: "modules \<Rightarrow> u32 \<Rightarrow> crt_stub \<Rightarrow> crt_call res \<times> crt_stub" where
  "CRT_free m Block stub = (let st = ensure_CRT m stub in (through free_p [Block] st, st))"

definition CRT_get_proc_heap :: "modules \<Rightarrow> crt_stub \<Rightarrow> crt_call res \<times> crt_stub" where
  "CRT_get_proc_heap m stub = (let st = ensure_CRT m stub in (through get_proc_heap_p [] st, st))"

definition CRT_heap_free :: "modules \<Rightarrow> u32 \<Rightarrow> u32 \<Rightarrow> u32 \<Rightarrow> crt_stub \<Rightarrow> crt_call res \<times> crt_stub" where
  "CRT_heap_free m hHeap dwFlags lpMem stub =
     (let st = ensure_CRT m stub in (through heap_free_p [hHeap, dwFlags, lpMem] st, st))"

definition CRT_heap_alloc :: "modules \<Rightarrow> u32 \<Rightarrow> u32 \<Rightarrow> u32 \<Rightarrow> crt_stub \<Rightarrow> crt_call res \<times> crt_stub" where
  "CRT_heap_alloc m hHeap dwFlags dwBytes stub =
     (let st = ensure_CRT m stub in (through heap_alloc_p [hHeap, dwFlags, dwBytes] st, st))"

definition CRT_heap_realloc :: "modules \<Rightarrow> u32 \<Rightarrow> u32 \<Rightarrow> u32 \<Rightarrow> u32 \<Rightarrow> crt_stub \<Rightarrow> crt_call res \<times> crt_stub" where
  "CRT_heap_realloc m hHeap dwFlags lpMem dwBytes stub =
     (let st = ensure_CRT m stub in (through heap_realloc_p [hHeap, dwFlags, lpMem, dwBytes] st, st))"

section \<open>The first call decides\<close>

text \<open>Whatever is loaded later, the stubs stay what the first call found: a runtime that was missing then is never found,
  and every allocation through it is a call through null.\<close>

lemma ensure_CRT_once: "ensure_CRT m' (ensure_CRT m stub) = ensure_CRT m stub"
  by (simp add: ensure_CRT_def init_CRT_def)

lemma crt_missing_for_good:
  assumes "\<not> is_loaded m ''msvcr90.dll''" "CRT_calloc m n s crt_stub0 = (r, stub)"
  shows "r = Inl NullDeref" "CRT_calloc m' n' s' stub = (Inl NullDeref, stub)"
proof -
  have stub: "stub = ensure_CRT m crt_stub0" "r = through calloc_p [n, s] stub"
    using assms(2) by (auto simp: CRT_calloc_def Let_def)
  have null: "calloc_p (ensure_CRT m crt_stub0) = 0"
    using assms(1) by (simp add: ensure_CRT_def init_CRT_def init_kernel32_def init_msvcr90_def crt_stub0_def)
  show "r = Inl NullDeref" using stub null by (simp add: through_def)
  show "CRT_calloc m' n' s' stub = (Inl NullDeref, stub)"
    using null stub(1) ensure_CRT_once by (simp add: CRT_calloc_def Let_def through_def)
qed

lemma crt_calls_exports:
  assumes "is_loaded m ''msvcr90.dll''" "proc_address m ''msvcr90.dll'' ''_recalloc'' \<noteq> 0"
  shows "fst (CRT_recalloc m ptr n s crt_stub0) = Inr (CrtCall (proc_address m ''msvcr90.dll'' ''_recalloc'') [ptr, n, s])"
  using assms by (simp add: CRT_recalloc_def Let_def through_def ensure_CRT_def init_CRT_def init_kernel32_def init_msvcr90_def
      crt_stub0_def)

end
