(* ===== verification/Asm.thy ===== *)
theory Asm
  imports Prelude
begin

text \<open>
  The assembly of the detours: the instructions their naked functions use, on the eight registers, the flags and the
  stack, and what a call promises.

  Memory maps an address to the dword there; the detours only touch dwords of the stack and, in one place, the message
  they log. A C function that is called gets the machine with its return address and arguments on the stack and gives it
  back as the calling convention says: \<open>cdecl_like\<close> states that contract, and the theorems hold for every such
  function. What a detour calls is recorded with the arguments found on the stack, last first in time order.
\<close>

section \<open>Machine\<close>

datatype reg = EAX | ECX | EDX | EBX | ESP | EBP | ESI | EDI

record cpu =
  regs :: "reg \<Rightarrow> u32"
  flags :: u32
  dmem :: "u32 \<Rightarrow> u32"

datatype instr =
    Pushad | Popad | Pushfd | Popfd
  | PushI u32                     \<comment> \<open>\<open>push imm\<close>\<close>
  | PushR reg                     \<comment> \<open>\<open>push r\<close>\<close>
  | PushM reg u32                 \<comment> \<open>\<open>push dword ptr [r + off]\<close>\<close>
  | PushG string                  \<comment> \<open>\<open>push variable\<close>\<close>
  | PopR reg
  | MovRR reg reg
  | MovRI reg u32
  | MovRM reg reg u32             \<comment> \<open>\<open>mov r, [r' + off]\<close>\<close>
  | MovzxR reg reg                \<comment> \<open>\<open>movzx r, r'\<close> of the low word\<close>
  | MovzxM reg reg                \<comment> \<open>\<open>movzx r, word ptr [r']\<close>\<close>
  | AddI reg u32
  | AndI reg u32
  | CallF string nat              \<comment> \<open>a C function and how many dwords it takes on the stack\<close>
  | CallG string                  \<comment> \<open>\<open>call [variable]\<close>\<close>
  | JmpF string                   \<comment> \<open>\<open>jmp function\<close>\<close>
  | JmpG string                   \<comment> \<open>\<open>jmp [variable]\<close>\<close>
  | Ret u32                       \<comment> \<open>\<open>ret n\<close>\<close>

datatype where_to = ToFunction string | ToAddress u32

text \<open>A call made: the function, \<open>ecx\<close> and the stack arguments.\<close>

record call =
  c_name :: string
  c_ecx :: u32
  c_args :: "u32 list"

record asm_env =
  ae_callee :: "string \<Rightarrow> cpu \<Rightarrow> cpu"    \<comment> \<open>a C function, from entry to after its return\<close>
  ae_var :: "string \<Rightarrow> u32"              \<comment> \<open>variables of the library\<close>
  ae_flags :: "u32 \<Rightarrow> u32"               \<comment> \<open>flags after an arithmetic result\<close>
  ae_ret :: u32                          \<comment> \<open>return address a call pushes\<close>

definition reg_set :: "reg \<Rightarrow> u32 \<Rightarrow> cpu \<Rightarrow> cpu" where
  "reg_set r v c = c\<lparr>regs := (regs c)(r := v)\<rparr>"

definition push :: "u32 \<Rightarrow> cpu \<Rightarrow> cpu" where
  "push v c = c\<lparr>regs := (regs c)(ESP := regs c ESP - 4), dmem := (dmem c)(regs c ESP - 4 := v)\<rparr>"

definition top :: "cpu \<Rightarrow> u32" where "top c = dmem c (regs c ESP)"

definition drop_stack :: "u32 \<Rightarrow> cpu \<Rightarrow> cpu" where
  "drop_stack n c = c\<lparr>regs := (regs c)(ESP := regs c ESP + n)\<rparr>"

definition pushad :: "cpu \<Rightarrow> cpu" where
  "pushad c = (let e = regs c ESP in
     push (regs c EDI) (push (regs c ESI) (push (regs c EBP) (push e (push (regs c EBX)
       (push (regs c EDX) (push (regs c ECX) (push (regs c EAX) c))))))))"

text \<open>\<open>popad\<close> skips the saved stack pointer.\<close>

definition popad :: "cpu \<Rightarrow> cpu" where
  "popad c =
     (let e = regs c ESP; m = dmem c in
      c\<lparr>regs := (regs c)(EDI := m e, ESI := m (e + 4), EBP := m (e + 8), EBX := m (e + 16), EDX := m (e + 20),
                         ECX := m (e + 24), EAX := m (e + 28), ESP := e + 32)\<rparr>)"

definition stack_args :: "nat \<Rightarrow> cpu \<Rightarrow> u32 list" where
  "stack_args n c = map (\<lambda>i. dmem c (regs c ESP + 4 * word_of_nat i)) [0..<n]"

text \<open>One instruction: to the next one, or out of the function.\<close>

fun exec1 :: "asm_env \<Rightarrow> instr \<Rightarrow> cpu \<times> call list \<Rightarrow> (cpu \<times> call list) \<times> where_to option" where
  "exec1 e Pushad (c, t) = ((pushad c, t), None)"
| "exec1 e Popad (c, t) = ((popad c, t), None)"
| "exec1 e Pushfd (c, t) = ((push (flags c) c, t), None)"
| "exec1 e Popfd (c, t) = (((drop_stack 4 c)\<lparr>flags := top c\<rparr>, t), None)"
| "exec1 e (PushI v) (c, t) = ((push v c, t), None)"
| "exec1 e (PushR r) (c, t) = ((push (regs c r) c, t), None)"
| "exec1 e (PushM r off) (c, t) = ((push (dmem c (regs c r + off)) c, t), None)"
| "exec1 e (PushG v) (c, t) = ((push (ae_var e v) c, t), None)"
| "exec1 e (PopR r) (c, t) = ((reg_set r (top c) (drop_stack 4 c), t), None)"
| "exec1 e (MovRR r s) (c, t) = ((reg_set r (regs c s) c, t), None)"
| "exec1 e (MovRI r v) (c, t) = ((reg_set r v c, t), None)"
| "exec1 e (MovRM r s off) (c, t) = ((reg_set r (dmem c (regs c s + off)) c, t), None)"
| "exec1 e (MovzxR r s) (c, t) = ((reg_set r (regs c s AND 0xFFFF) c, t), None)"
| "exec1 e (MovzxM r s) (c, t) = ((reg_set r (dmem c (regs c s) AND 0xFFFF) c, t), None)"
| "exec1 e (AddI r v) (c, t) = (((reg_set r (regs c r + v) c)\<lparr>flags := ae_flags e (regs c r + v)\<rparr>, t), None)"
| "exec1 e (AndI r v) (c, t) = (((reg_set r (regs c r AND v) c)\<lparr>flags := ae_flags e (regs c r AND v)\<rparr>, t), None)"
| "exec1 e (CallF f n) (c, t) =
     ((ae_callee e f (push (ae_ret e) c), t @ [\<lparr>c_name = f, c_ecx = regs c ECX, c_args = stack_args n c\<rparr>]), None)"
| "exec1 e (CallG v) (c, t) =
     ((ae_callee e v (push (ae_ret e) c), t @ [\<lparr>c_name = v, c_ecx = regs c ECX, c_args = []\<rparr>]), None)"
| "exec1 e (JmpF f) (c, t) = ((c, t), Some (ToFunction f))"
| "exec1 e (JmpG v) (c, t) = ((c, t), Some (ToAddress (ae_var e v)))"
| "exec1 e (Ret n) (c, t) = ((drop_stack (4 + n) c, t), Some (ToAddress (top c)))"

text \<open>A function's code; running off its end is \<open>None\<close>.\<close>

fun exec :: "asm_env \<Rightarrow> instr list \<Rightarrow> cpu \<times> call list \<Rightarrow> ((cpu \<times> call list) \<times> where_to) option" where
  "exec e [] s = None"
| "exec e (i # is) s = (case exec1 e i s of (s', None) \<Rightarrow> exec e is s' | (s', Some w) \<Rightarrow> Some (s', w))"

section \<open>What a called function promises\<close>

text \<open>
  A function with \<open>n\<close> dwords of arguments that the caller removes: it returns with the stack pointer above its
  return address, keeps the callee-saved registers and the sixteen dwords of its caller above its arguments.
\<close>

definition cdecl_like :: "nat \<Rightarrow> (cpu \<Rightarrow> cpu) \<Rightarrow> bool" where
  "cdecl_like n f \<longleftrightarrow> (\<forall>c. regs (f c) ESP = regs c ESP + 4 \<and> regs (f c) EBX = regs c EBX \<and> regs (f c) ESI = regs c ESI
     \<and> regs (f c) EDI = regs c EDI \<and> regs (f c) EBP = regs c EBP
     \<and> (\<forall>k<16. let a = regs c ESP + 4 + 4 * word_of_nat (n + k) in dmem (f c) a = dmem c a))"

lemma cdecl_regs:
  assumes "cdecl_like n f"
  shows "regs (f c) ESP = regs c ESP + 4" "regs (f c) EBX = regs c EBX" "regs (f c) ESI = regs c ESI"
    "regs (f c) EDI = regs c EDI" "regs (f c) EBP = regs c EBP"
  using assms by (simp_all add: cdecl_like_def)

lemma cdecl_mem:
  "cdecl_like n f \<Longrightarrow> k < 16 \<Longrightarrow> regs c ESP + 4 + 4 * word_of_nat (n + k) = a \<Longrightarrow> dmem (f c) a = dmem c a"
  by (auto simp: cdecl_like_def Let_def)

text \<open>
  Everything \<open>pushad\<close> and \<open>pushfd\<close> saved is on top of the stack, and the return address of the detoured
  function and its first six stack arguments are below. A function called with arguments pushed above leaves it so.
\<close>

definition caller_dwords :: "cpu \<Rightarrow> cpu \<Rightarrow> u32 list" where
  "caller_dwords c0 c = map (\<lambda>k. dmem c (regs c0 ESP + 4 * word_of_nat k)) [0..<7]"

lemma caller_dwords_regs [simp]:
  "caller_dwords c0 (c\<lparr>regs := r\<rparr>) = caller_dwords c0 c" "caller_dwords c0 (c\<lparr>flags := x\<rparr>) = caller_dwords c0 c"
  by (simp_all add: caller_dwords_def)

definition saved_frame :: "cpu \<Rightarrow> cpu \<Rightarrow> bool" where
  "saved_frame c0 c \<longleftrightarrow> (let E = regs c0 ESP; m = dmem c in
     regs c ESP = E - 36 \<and> m (E - 36) = flags c0 \<and> m (E - 32) = regs c0 EDI \<and> m (E - 28) = regs c0 ESI
     \<and> m (E - 24) = regs c0 EBP \<and> m (E - 16) = regs c0 EBX \<and> m (E - 12) = regs c0 EDX \<and> m (E - 8) = regs c0 ECX
     \<and> m (E - 4) = regs c0 EAX \<and> caller_dwords c0 c = caller_dwords c0 c0)"

lemma pushed_frame: "saved_frame c (push (flags c) (pushad c))"
  by (simp add: saved_frame_def caller_dwords_def upt_rec push_def pushad_def Let_def)

lemma save_frame:
  "exec e (Pushad # Pushfd # is) (c, t) = exec e is (push (flags c) (pushad c), t)"
proof -
  have "flags (pushad c) = flags c" by (simp add: pushad_def push_def Let_def)
  then show ?thesis by simp
qed

lemma restore_frame:
  assumes "saved_frame c0 c"
  shows "\<exists>c'. exec e (Popfd # Popad # is) (c, t) = exec e is (c', t) \<and> regs c' = regs c0 \<and> flags c' = flags c0
    \<and> caller_dwords c0 c' = caller_dwords c0 c0"
proof -
  let ?c = "popad ((drop_stack 4 c)\<lparr>flags := top c\<rparr>)"
  have "regs ?c r = regs c0 r" for r
    using assms by (cases r) (simp_all add: saved_frame_def popad_def drop_stack_def Let_def)
  moreover have "flags ?c = flags c0"
    using assms by (simp add: saved_frame_def popad_def drop_stack_def top_def Let_def)
  moreover have "caller_dwords c0 ?c = caller_dwords c0 c0"
    using assms by (simp add: saved_frame_def caller_dwords_def popad_def drop_stack_def Let_def)
  ultimately show ?thesis by auto
qed

lemma frame_over_call:
  assumes f: "cdecl_like n f" "n \<le> 4" and c: "regs c ESP = regs c0 ESP - 40 - 4 * word_of_nat n"
    and saved: "saved_frame c0 (c\<lparr>regs := (regs c)(ESP := regs c0 ESP - 36)\<rparr>)"
  shows "saved_frame c0 (drop_stack (4 * word_of_nat n) (f c))"
proof -
  have at: "regs c ESP + 4 + 4 * word_of_nat (n + k) = regs c0 ESP - 36 + 4 * word_of_nat k" for k
    by (simp add: c algebra_simps)
  have keep: "dmem (f c) (regs c0 ESP - 36 + 4 * word_of_nat k) = dmem c (regs c0 ESP - 36 + 4 * word_of_nat k)" if "k < 16" for k
    using cdecl_mem [OF f(1) that at] .
  have esp: "regs (f c) ESP + 4 * word_of_nat n = regs c0 ESP - 36" by (simp add: cdecl_regs(1) [OF f(1)] c)
  have "dmem (f c) (regs c0 ESP + 4 * word_of_nat k) = dmem c (regs c0 ESP + 4 * word_of_nat k)" if "k < 7" for k
    using keep [of "k + 9"] that by (simp add: algebra_simps)
  then have "caller_dwords c0 (f c) = caller_dwords c0 c" by (auto simp: caller_dwords_def)
  moreover have "caller_dwords c0 c = caller_dwords c0 c0" using saved by (simp add: saved_frame_def caller_dwords_def Let_def)
  moreover have "caller_dwords c0 (drop_stack k (f c)) = caller_dwords c0 (f c)" for k by (simp add: caller_dwords_def drop_stack_def)
  ultimately show ?thesis
    using saved esp keep [of 0] keep [of 1] keep [of 2] keep [of 3] keep [of 5] keep [of 6] keep [of 7] keep [of 8]
    by (simp add: saved_frame_def drop_stack_def Let_def)
qed

section \<open>The detours of the game's stages\<close>

definition kPrologue :: "instr list" where
  "kPrologue = [PushR EBP, MovRR EBP ESP, AndI ESP 0xFFFFFFF8]"

definition stage_hook :: "string \<Rightarrow> string \<Rightarrow> instr list" where
  "stage_hook fn var = [Pushad, Pushfd, CallF fn 0, Popfd, Popad] @ kPrologue @ [JmpG var]"

lemma transparent_call:
  assumes f: "cdecl_like 0 (ae_callee e fn)"
  shows "\<exists>c'. exec e (Pushad # Pushfd # CallF fn 0 # Popfd # Popad # is) (c, t)
      = exec e is (c', t @ [\<lparr>c_name = fn, c_ecx = regs c ECX, c_args = []\<rparr>])
    \<and> regs c' = regs c \<and> flags c' = flags c \<and> caller_dwords c c' = caller_dwords c c"
proof -
  let ?c2 = "push (flags c) (pushad c)"
  have "regs (push (ae_ret e) ?c2) ESP = regs c ESP - 40 - 4 * word_of_nat 0"
    by (simp add: push_def pushad_def Let_def)
  moreover have "saved_frame c ((push (ae_ret e) ?c2)\<lparr>regs := (regs (push (ae_ret e) ?c2))(ESP := regs c ESP - 36)\<rparr>)"
    by (simp add: saved_frame_def caller_dwords_def upt_rec push_def pushad_def Let_def)
  ultimately have "saved_frame c (drop_stack (4 * word_of_nat 0) (ae_callee e fn (push (ae_ret e) ?c2)))"
    by (intro frame_over_call [OF f]) simp_all
  then have "saved_frame c (ae_callee e fn (push (ae_ret e) ?c2))" by (simp add: drop_stack_def)
  from restore_frame [OF this] have "\<exists>c'. exec e (Popfd # Popad # is) (ae_callee e fn (push (ae_ret e) ?c2), t')
      = exec e is (c', t') \<and> regs c' = regs c \<and> flags c' = flags c \<and> caller_dwords c c' = caller_dwords c c" for t' by blast
  moreover have "regs ?c2 ECX = regs c ECX" by (simp add: push_def pushad_def Let_def)
  ultimately show ?thesis by (simp only: save_frame) (simp add: stack_args_def)
qed

text \<open>The same with two logged arguments fetched into registers before the call.\<close>

lemma logged_call:
  assumes f: "cdecl_like 2 (ae_callee e fn)"
    and fetch: "\<exists>r. (\<forall>rest t1. exec e (fetch @ rest) (push (flags c) (pushad c), t1) =
        exec e rest ((push (flags c) (pushad c))\<lparr>regs := r\<rparr>, t1)) \<and> r ESP = regs c ESP - 36 \<and> r EAX = a \<and> r ECX = b"
    and rest: "rest = [PushR ECX, PushR EAX, CallF fn 2, AddI ESP 8, Popfd, Popad] @ is"
  shows "\<exists>c'. exec e ([Pushad, Pushfd] @ fetch @ rest) (c, t) = exec e is (c', t @ [\<lparr>c_name = fn, c_ecx = b, c_args = [a, b]\<rparr>])
    \<and> regs c' = regs c \<and> flags c' = flags c \<and> caller_dwords c c' = caller_dwords c c"
proof -
  let ?c2 = "push (flags c) (pushad c)"
  from fetch obtain r where r: "exec e (fetch @ rest) (?c2, t) = exec e rest (?c2\<lparr>regs := r\<rparr>, t)"
    "r ESP = regs c ESP - 36" "r EAX = a" "r ECX = b" by blast
  let ?c3 = "push (ae_ret e) (push a (push b (?c2\<lparr>regs := r\<rparr>)))"
  let ?c4 = "ae_callee e fn ?c3"
  have "regs ?c3 ESP = regs c ESP - 40 - 4 * word_of_nat 2" using r(2) by (simp add: push_def)
  moreover have "saved_frame c (?c3\<lparr>regs := (regs ?c3)(ESP := regs c ESP - 36)\<rparr>)"
    using r(2) by (simp add: saved_frame_def caller_dwords_def upt_rec push_def pushad_def Let_def)
  ultimately have "saved_frame c (drop_stack (4 * word_of_nat 2) ?c4)" by (intro frame_over_call [OF f]) simp_all
  then have "saved_frame c ((drop_stack 8 ?c4)\<lparr>flags := x\<rparr>)" for x by (simp add: saved_frame_def Let_def)
  from restore_frame [OF this] have pop: "\<exists>c'. exec e (Popfd # Popad # is) ((drop_stack 8 ?c4)\<lparr>flags := x\<rparr>, t')
      = exec e is (c', t') \<and> regs c' = regs c \<and> flags c' = flags c \<and> caller_dwords c c' = caller_dwords c c" for x t' by blast
  have "exec e rest (?c2\<lparr>regs := r\<rparr>, t) = exec e (Popfd # Popad # is)
      ((drop_stack 8 ?c4)\<lparr>flags := ae_flags e (regs ?c4 ESP + 8)\<rparr>, t @ [\<lparr>c_name = fn, c_ecx = b, c_args = [a, b]\<rparr>])"
    using r(2-4) by (simp add: rest stack_args_def upt_rec push_def reg_set_def drop_stack_def)
  moreover have "exec e ([Pushad, Pushfd] @ fetch @ rest) (c, t) = exec e (fetch @ rest) (?c2, t)"
    using save_frame by simp
  ultimately show ?thesis using r(1) pop by simp
qed

end
