(* ===== verification/Detours.thy ===== *)
theory Detours
  imports Asm Nav Logging
begin

text \<open>
  The detours the library installs: for every stub in \<open>src/hooks\<close> and \<open>src/RMI\<close> the address it is put at, the
  address it goes back to and its naked function, instruction by instruction. Code behind an unconditional jump is left
  out. The addresses in \<open>src/include/ProudNet/Layout.hpp\<close> are written out.
\<close>

section \<open>Stubs\<close>

datatype hook_impl = Naked "instr list" | CFunction string

record target =
  t_name :: string
  t_addr :: u32
  t_impl :: hook_impl
  t_return :: u32

definition return_var :: "string \<Rightarrow> string" where
  "return_var name = ''g_target_'' @ name @ ''.return_addr''"

definition jump_hook :: "string \<Rightarrow> hook_impl" where
  "jump_hook fn = Naked [JmpF fn]"

section \<open>The game's stages\<close>

definition hook_game_intro :: "instr list" where
  "hook_game_intro = stage_hook ''diagnostics_game_stage_intro'' (return_var ''game_intro'')"

definition hook_game_login :: "instr list" where
  "hook_game_login = stage_hook ''diagnostics_game_stage_login'' (return_var ''game_login'')"

definition hook_game_server_select :: "instr list" where
  "hook_game_server_select = stage_hook ''diagnostics_game_stage_server_begin'' (return_var ''game_server_select'')"

definition hook_game_main_menu :: "instr list" where
  "hook_game_main_menu = [Pushad, Pushfd, CallF ''diagnostics_game_stage_shard_select'' 0, Popfd, Popad,
     MovRI ECX 0x16B7288, JmpG (return_var ''game_main_menu'')]"

definition hook_game_lobby :: "instr list" where
  "hook_game_lobby = stage_hook ''diagnostics_game_stage_lobby'' (return_var ''game_lobby'')"

definition hook_game_room_list :: "instr list" where
  "hook_game_room_list = stage_hook ''diagnostics_game_stage_room_list'' (return_var ''game_room_list'')"

definition hook_game_party_room :: "instr list" where
  "hook_game_party_room = stage_hook ''diagnostics_game_stage_party_room'' (return_var ''game_party_room'')"

definition hook_game_room :: "instr list" where
  "hook_game_room = stage_hook ''diagnostics_game_stage_room'' (return_var ''game_room'')"

definition hook_game_char_select :: "instr list" where
  "hook_game_char_select = stage_hook ''diagnostics_game_stage_char_select'' (return_var ''game_char_select'')"

definition hook_game_map_loading :: "instr list" where
  "hook_game_map_loading = stage_hook ''diagnostics_game_stage_map_loading'' (return_var ''game_map_loading'')"

definition hook_game_in_game :: "instr list" where
  "hook_game_in_game = stage_hook ''diagnostics_game_stage_in_game'' (return_var ''game_in_game'')"

definition game_state_stubs :: "target list" where
  "game_state_stubs =
    [\<lparr>t_name = ''game_intro'', t_addr = 0x42A010, t_impl = Naked hook_game_intro, t_return = 0x42A016\<rparr>,
     \<lparr>t_name = ''game_login'', t_addr = 0x42B280, t_impl = Naked hook_game_login, t_return = 0x42B286\<rparr>,
     \<lparr>t_name = ''game_server_select'', t_addr = 0x4345B0, t_impl = Naked hook_game_server_select, t_return = 0x4345B6\<rparr>,
     \<lparr>t_name = ''game_main_menu'', t_addr = 0x4347CC, t_impl = Naked hook_game_main_menu, t_return = 0x4347D1\<rparr>,
     \<lparr>t_name = ''game_lobby'', t_addr = 0x42BD50, t_impl = Naked hook_game_lobby, t_return = 0x42BD56\<rparr>,
     \<lparr>t_name = ''game_room_list'', t_addr = 0x4362E0, t_impl = Naked hook_game_room_list, t_return = 0x4362E6\<rparr>,
     \<lparr>t_name = ''game_party_room'', t_addr = 0x42F690, t_impl = Naked hook_game_party_room, t_return = 0x42F696\<rparr>,
     \<lparr>t_name = ''game_room'', t_addr = 0x439B00, t_impl = Naked hook_game_room, t_return = 0x439B06\<rparr>,
     \<lparr>t_name = ''game_char_select'', t_addr = 0x4F2DB0, t_impl = Naked hook_game_char_select, t_return = 0x4F2DB6\<rparr>,
     \<lparr>t_name = ''game_map_loading'', t_addr = 0x4806E0, t_impl = Naked hook_game_map_loading, t_return = 0x4806E6\<rparr>,
     \<lparr>t_name = ''game_in_game'', t_addr = 0x47F610, t_impl = Naked hook_game_in_game, t_return = 0x47F616\<rparr>]"

text \<open>What the stage functions do: log the stage, except when the server screen begins, and pump the navigation, which
  ignores the phase.\<close>

definition game_stage :: "cfg \<Rightarrow> bool \<Rightarrow> nav_env \<Rightarrow> string \<Rightarrow> logger \<times> nav \<Rightarrow> (logger \<times> nav) res" where
  "game_stage c vt ne stage st =
     (let lg = stagef c vt (log_text stage) (fst st) in bindR (NavPump ne (snd st)) (\<lambda>nv. Inr (lg, nv)))"

definition game_stage_server_begin :: "nav_env \<Rightarrow> logger \<times> nav \<Rightarrow> (logger \<times> nav) res" where
  "game_stage_server_begin ne st = bindR (NavPump ne (snd st)) (\<lambda>nv. Inr (fst st, nv))"

definition stage_names :: "(string \<times> string) list" where
  "stage_names = map (\<lambda>s. (''diagnostics_game_stage_'' @ s, s))
     [''intro'', ''login'', ''shard_select'', ''lobby'', ''room_list'', ''party_room'', ''room'', ''char_select'',
      ''map_loading'', ''in_game'']"

section \<open>The entry point\<close>

definition hook_entrypoint :: "instr list" where
  "hook_entrypoint = [Pushfd, Pushad, CallF ''diagnostics_startup'' 0, Popad, Popfd, CallG ''g_entrypoint_first_call'',
     JmpG (return_var ''entrypoint'')]"

definition entrypoint_stub :: target where
  "entrypoint_stub = \<lparr>t_name = ''entrypoint'', t_addr = 0x014AB273, t_impl = Naked hook_entrypoint, t_return = 0x014AB278\<rparr>"

section \<open>Engine functions replaced\<close>

definition engine_stubs :: "target list" where
  "engine_stubs =
    [\<lparr>t_name = ''w_strlen'', t_addr = 0xCEE210, t_impl = jump_hook ''handle_w_strlen'', t_return = 0xCEE216\<rparr>,
     \<lparr>t_name = ''w_connect_2'', t_addr = 0x014314E0, t_impl = jump_hook ''ProudConnect::w_connect_2'', t_return = 0x0143172F\<rparr>,
     \<lparr>t_name = ''w_connect_3'', t_addr = 0x014F6DC0, t_impl = jump_hook ''ProudConnect::Socket::w_connect_3'', t_return = 0x014F6DDB\<rparr>]"

definition inline_buf_stubs :: "target list" where
  "inline_buf_stubs =
    [\<lparr>t_name = ''EnsureMStringBufferCapacity'', t_addr = 0x5584C0, t_impl = jump_hook ''EnsureMStringBufferCapacity'', t_return = 0x5584C5\<rparr>,
     \<lparr>t_name = ''EnsureWStringBufferCapacity'', t_addr = 0x578BB0, t_impl = jump_hook ''EnsureWStringBufferCapacity'', t_return = 0x578BB5\<rparr>]"

definition converter_stubs :: "target list" where
  "converter_stubs =
    [\<lparr>t_name = ''ConvertWideToMultiByte'', t_addr = 0x535740, t_impl = jump_hook ''MultiByteHolder::ConvertWideToMultiByte'', t_return = 0x535746\<rparr>,
     \<lparr>t_name = ''ConvertMultiByteToWide'', t_addr = 0x578C90, t_impl = jump_hook ''WideStringHolder::ConvertMultiByteToWide'', t_return = 0x578C96\<rparr>]"

definition string_block_stubs :: "target list" where
  "string_block_stubs =
    [\<lparr>t_name = ''rstring_truncate'', t_addr = 0xCEFCC0, t_impl = jump_hook ''String::Truncate'', t_return = 0xCEFCC6\<rparr>,
     \<lparr>t_name = ''rstring_truncate_self'', t_addr = 0xD5A7E0, t_impl = jump_hook ''String::TruncateSelf'', t_return = 0xD5A7E5\<rparr>,
     \<lparr>t_name = ''rstring_decrefcnt'', t_addr = 0x9FCAF0, t_impl = jump_hook ''String::DecRefCount'', t_return = 0x9FCAF5\<rparr>,
     \<lparr>t_name = ''rstring_copyonwrite'', t_addr = 0xCEFDF0, t_impl = jump_hook ''String::CopyOnWrite'', t_return = 0xCEFDF5\<rparr>,
     \<lparr>t_name = ''rstring_reserve'', t_addr = 0xCF0020, t_impl = jump_hook ''String::Reserve'', t_return = 0xCF0025\<rparr>,
     \<lparr>t_name = ''rstring_realloc'', t_addr = 0xCEFEF0, t_impl = jump_hook ''String::Realloc'', t_return = 0xCEFEF6\<rparr>]"

definition string_text_stubs :: "target list" where
  "string_text_stubs =
    [\<lparr>t_name = ''rstring_truncateatfirst'', t_addr = 0xCF2D90, t_impl = jump_hook ''String::TruncateAtFirstOccurrence'', t_return = 0xCF2D96\<rparr>,
     \<lparr>t_name = ''rstring_trimleft'', t_addr = 0xCF2CD0, t_impl = jump_hook ''String::TrimLeft'', t_return = 0xCF2CD8\<rparr>,
     \<lparr>t_name = ''rstring_concatenate'', t_addr = 0xCF1A90, t_impl = jump_hook ''String::Concatenate'', t_return = 0xCF1A96\<rparr>,
     \<lparr>t_name = ''rstring_concatenate_cstr'', t_addr = 0xCF1A90, t_impl = jump_hook ''String::Concatenate_cstr'', t_return = 0xCF1A96\<rparr>,
     \<lparr>t_name = ''rstring_vformat'', t_addr = 0xCF1DD0, t_impl = jump_hook ''String::vformat'', t_return = 0xCF1DD8\<rparr>,
     \<lparr>t_name = ''rstring_vformat_this'', t_addr = 0xCF1BB0, t_impl = jump_hook ''String::Vformat'', t_return = 0xCF1BB6\<rparr>]"

definition string_stubs :: "target list" where
  "string_stubs = string_block_stubs @ string_text_stubs"

section \<open>Sockets\<close>

definition tcpsocket_stubs :: "target list" where
  "tcpsocket_stubs =
    [\<lparr>t_name = ''TCPSocket_connect'', t_addr = 0xD56220, t_impl = jump_hook ''TCPSocket::Connect'', t_return = 0xD56227\<rparr>,
     \<lparr>t_name = ''TCPSocket_send'', t_addr = 0xD569C0, t_impl = jump_hook ''TCPSocket::Send'', t_return = 0xD569C7\<rparr>]"

definition send_2_stubs :: "target list" where
  "send_2_stubs =
    [\<lparr>t_name = ''send_2'', t_addr = 0xD567F0, t_impl = jump_hook ''Proud::CFastSocket::send'', t_return = 0\<rparr>]"

definition fast_socket_stubs :: "target list" where
  "fast_socket_stubs =
    [\<lparr>t_name = ''fast_wsasend'', t_addr = 0xD567F0, t_impl = jump_hook ''Proud::CFastSocket::send'', t_return = 0\<rparr>,
     \<lparr>t_name = ''fast_wsarecv'', t_addr = 0xD56470, t_impl = jump_hook ''Proud::CFastSocket::recv'', t_return = 0\<rparr>]"

definition upnp_stubs :: "target list" where
  "upnp_stubs =
    [\<lparr>t_name = ''pn_upnp'', t_addr = 0xD6E180, t_impl = jump_hook ''Proud::UpnpClient::AddPortMapping'', t_return = 0xD6E187\<rparr>]"

definition select_stubs :: "target list" where
  "select_stubs =
    [\<lparr>t_name = ''pn_select'', t_addr = 0xD55300, t_impl = jump_hook ''Proud::CSelectContext::poll'', t_return = 0\<rparr>]"

definition recv_append_stubs :: "target list" where
  "recv_append_stubs =
    [\<lparr>t_name = ''pn_recv_append'', t_addr = 0xD71CE0, t_impl = jump_hook ''Proud::RecvBuffer::append'', t_return = 0\<rparr>]"

definition recv_complete_stubs :: "target list" where
  "recv_complete_stubs =
    [\<lparr>t_name = ''pn_recv_complete'', t_addr = 0xD55510, t_impl = jump_hook ''Proud::CFastSocket::recv_complete'', t_return = 0\<rparr>]"

definition fsm_stubs :: "target list" where
  "fsm_stubs =
    [\<lparr>t_name = ''pn_fsm_state1'', t_addr = 0xD6EF90, t_impl = CFunction ''hook_pn_fsm_state1'', t_return = 0\<rparr>,
     \<lparr>t_name = ''pn_fsm_state2'', t_addr = 0xD6C8E0, t_impl = CFunction ''hook_pn_fsm_state2'', t_return = 0\<rparr>,
     \<lparr>t_name = ''pn_fsm_state3'', t_addr = 0xD6C9C0, t_impl = CFunction ''hook_pn_fsm_state3'', t_return = 0\<rparr>]"

section \<open>ProudNet\<close>

definition hook_pn_net_client_factory :: "instr list" where
  "hook_pn_net_client_factory = [Pushad, Pushfd, CallF ''log_pn_net_client_factory'' 0, Popfd, Popad,
     PushI 0xFFFFFFFF, PushI 0x1508A6B, JmpG (return_var ''pn_net_client_factory'')]"

definition net_client_stubs :: "target list" where
  "net_client_stubs =
    [\<lparr>t_name = ''pn_net_client_factory'', t_addr = 0xD0C0A0, t_impl = Naked hook_pn_net_client_factory, t_return = 0xD0C0A7\<rparr>,
     \<lparr>t_name = ''pn_net_client_ctor'', t_addr = 0xD0A340, t_impl = jump_hook ''hook_pn_net_client_ctor_impl'', t_return = 0xD0A345\<rparr>]"

definition hook_pn_process_compressed :: "instr list" where
  "hook_pn_process_compressed = [PushM ESP 0x0C, PushM ESP 0x0C, PushM ESP 8, PushR ECX,
     CallF ''process_compressed_c'' 4, AddI ESP 16, Ret 0x0C]"

definition hook_pn_process_encrypted :: "instr list" where
  "hook_pn_process_encrypted = [PushM ESP 8, PushM ESP 8, PushR ECX, CallF ''process_encrypted_c'' 3, AddI ESP 12, Ret 8]"

definition compress_stubs :: "target list" where
  "compress_stubs =
    [\<lparr>t_name = ''pn_process_compressed'', t_addr = 0xD5DC10, t_impl = Naked hook_pn_process_compressed, t_return = 0xD5DC17\<rparr>,
     \<lparr>t_name = ''pn_process_encrypted'', t_addr = 0xD5CA30, t_impl = Naked hook_pn_process_encrypted, t_return = 0xD5CA37\<rparr>]"

definition hook_pn_process_proudnet_layer :: "instr list" where
  "hook_pn_process_proudnet_layer = [PushM ESP 8, PushM ESP 8, PushR ECX, CallF ''pn_process_message_reimpl_c'' 3,
     AddI ESP 12, Ret 8]"

definition process_layer_stubs :: "target list" where
  "process_layer_stubs =
    [\<lparr>t_name = ''pn_process_proudnet_layer'', t_addr = 0xD653B0, t_impl = Naked hook_pn_process_proudnet_layer, t_return = 0xD653B7\<rparr>]"

definition hook_pn_drain_receive_queue :: "instr list" where
  "hook_pn_drain_receive_queue = [PushR ECX, PushR ECX, CallF ''drain_receive_queue_log'' 1, AddI ESP 4, PopR ECX,
     PushI 0xFFFFFFFF, PushG ''g_drain_seh_handler'', JmpG ''g_drain_receive_queue_resume'']"

definition drain_stubs :: "target list" where
  "drain_stubs =
    [\<lparr>t_name = ''pn_drain_receive_queue'', t_addr = 0xD65940, t_impl = Naked hook_pn_drain_receive_queue, t_return = 0xD65947\<rparr>]"

definition hook_pn_tcp_frame_recv :: "instr list" where
  "hook_pn_tcp_frame_recv = [PushM ESP 4, PushR ECX, CallF ''tcp_frame_extract_c'' 2, AddI ESP 8, Ret 4]"

definition hook_pn_tcp_frame_send :: "instr list" where
  "hook_pn_tcp_frame_send = [PushR ECX, CallF ''log_tcp_frame_send_once'' 1, AddI ESP 4, PopR ECX,
     JmpG ''g_tcp_frame_send_body'']"

definition tcp_frame_stubs :: "target list" where
  "tcp_frame_stubs =
    [\<lparr>t_name = ''pn_tcp_frame_recv'', t_addr = 0xD84BB0, t_impl = Naked hook_pn_tcp_frame_recv, t_return = 0xD84BB7\<rparr>,
     \<lparr>t_name = ''pn_tcp_frame_send'', t_addr = 0xD84970, t_impl = Naked hook_pn_tcp_frame_send, t_return = 0xD84977\<rparr>]"

section \<open>Outgoing remote calls\<close>

definition hook_pn_rmi_send :: "instr list" where
  "hook_pn_rmi_send = [Pushad, Pushfd, MovRM EAX ESP 0x3C, MovRM ECX ESP 0x2C, PushR ECX, PushR EAX,
     CallF ''log_c2s_rmi'' 2, AddI ESP 8, Popfd, Popad, PushI 0xFFFFFFFF, PushI 0x01511D84,
     JmpG (return_var ''pn_rmi_send'')]"

definition framework_send_stubs :: "target list" where
  "framework_send_stubs =
    [\<lparr>t_name = ''pn_rmi_send'', t_addr = 0xD5C5E0, t_impl = Naked hook_pn_rmi_send, t_return = 0xD5C5E7\<rparr>]"

definition hook_pn_game_rmi_send :: "instr list" where
  "hook_pn_game_rmi_send = [Pushad, Pushfd, MovRM EAX ESP 0x30, MovzxR EAX EAX, MovRM ECX ESP 0x2C, PushR ECX, PushR EAX,
     CallF ''log_c2s_rmi_proxy'' 2, AddI ESP 8, Popfd, Popad, PushR EBP, MovRR EBP ESP, AndI ESP 0xFFFFFFF8,
     JmpG (return_var ''pn_game_rmi_send'')]"

definition hook_pn_rmi_floor :: "instr list" where
  "hook_pn_rmi_floor = [Pushad, Pushfd, MovRM EAX ESP 0x28, MovzxM EAX EAX, MovRM ECX ESP 0x2C, PushR ECX, PushR EAX,
     CallF ''log_c2s_rmi_floor'' 2, AddI ESP 8, Popfd, Popad, PushR EBP, MovRR EBP ESP, AndI ESP 0xFFFFFFF8,
     JmpG (return_var ''pn_rmi_floor'')]"

definition game_send_stubs :: "target list" where
  "game_send_stubs =
    [\<lparr>t_name = ''pn_game_rmi_send'', t_addr = 0x65AEA0, t_impl = Naked hook_pn_game_rmi_send, t_return = 0x65AEA6\<rparr>,
     \<lparr>t_name = ''pn_rmi_floor'', t_addr = 0xA0B290, t_impl = Naked hook_pn_rmi_floor, t_return = 0xA0B296\<rparr>]"

text \<open>What the loggers make of the arguments.\<close>

definition show_hex4_upper :: "u32 \<Rightarrow> string" where
  "show_hex4_upper x = map (\<lambda>i. char_nibble True (unat x div 16 ^ i mod 16)) [3, 2, 1, 0]"

definition rmi_message :: "string \<Rightarrow> log_message" where
  "rmi_message s = \<lparr>message = s, source = SrcRMI, kind = Default\<rparr>"

definition LogC2sFramework :: "cfg \<Rightarrow> bool \<Rightarrow> u32 \<Rightarrow> u32 \<Rightarrow> logger \<Rightarrow> logger" where
  "LogC2sFramework c vt rmi_id remote_count =
     logf c vt (rmi_message (''c2s frame id=0x'' @ show_hex4_upper (rmi_id AND 0xFFFF) @ '' remotes='' @ show_nat (unat remote_count)))"

definition LogC2sProxy :: "cfg \<Rightarrow> bool \<Rightarrow> u32 \<Rightarrow> u32 \<Rightarrow> logger \<Rightarrow> logger" where
  "LogC2sProxy c vt rmi_id len =
     logf c vt (rmi_message (''c2s proxy id=0x'' @ show_hex4_upper (rmi_id AND 0xFFFF) @ '' body['' @ show_nat (unat len) @ '']''))"

definition LogC2sFloor :: "cfg \<Rightarrow> bool \<Rightarrow> u32 \<Rightarrow> u32 \<Rightarrow> logger \<Rightarrow> logger" where
  "LogC2sFloor c vt rmi_id len =
     logf c vt (rmi_message (''c2s floor id=0x'' @ show_hex4_upper (rmi_id AND 0xFFFF) @ '' body['' @ show_nat (unat len) @ '']''))"

definition LogS2c :: "cfg \<Rightarrow> bool \<Rightarrow> u32 \<Rightarrow> u32 \<Rightarrow> u32 \<Rightarrow> logger \<Rightarrow> logger" where
  "LogS2c c vt rmi_id len host_id =
     logf c vt (rmi_message (''s2c id=0x'' @ show_hex4_upper (rmi_id AND 0xFFFF) @ '' host='' @ show_nat (unat host_id)
       @ '' body['' @ show_nat (unat len) @ '']''))"

section \<open>The stages go on as if there were no detour\<close>

text \<open>The game's own instructions under the jump, and how many bytes they are.\<close>

definition game_code :: "string \<Rightarrow> instr list" where
  "game_code name =
     (if name = ''game_main_menu'' then [MovRI ECX 0x16B7288]
      else if name = ''pn_net_client_factory'' then [PushI 0xFFFFFFFF, PushI 0x1508A6B]
      else if name = ''pn_rmi_send'' then [PushI 0xFFFFFFFF, PushI 0x01511D84]
      else kPrologue)"

fun instr_size :: "instr \<Rightarrow> nat" where
  "instr_size (PushR r) = 1"
| "instr_size (MovRR r s) = 2"
| "instr_size (AndI r v) = 3"          \<comment> \<open>with a byte for the constant\<close>
| "instr_size (MovRI r v) = 5"
| "instr_size (PushI v) = (if v = 0xFFFFFFFF then 2 else 5)"
| "instr_size _ = 0"

definition code_size :: "instr list \<Rightarrow> nat" where
  "code_size is = sum_list (map instr_size is)"

definition is_push :: "instr \<Rightarrow> bool" where
  "is_push i = (case i of PushR _ \<Rightarrow> True | PushI _ \<Rightarrow> True | _ \<Rightarrow> False)"

definition pushed_dwords :: "instr list \<Rightarrow> cpu \<Rightarrow> cpu \<Rightarrow> u32 list" where
  "pushed_dwords is c c' = map (\<lambda>j. dmem c' (regs c ESP - 4 - 4 * word_of_nat j)) [0..<length (filter is_push is)]"

text \<open>
  A detour ends where the game's own code would, after the given calls, with the registers, the flags, the caller's part
  of the stack and everything the own code pushed the same.
\<close>

definition goes_on_as :: "asm_env \<Rightarrow> cpu \<Rightarrow> call list \<Rightarrow> instr list \<Rightarrow> instr list \<Rightarrow> string \<Rightarrow> call list \<Rightarrow> bool" where
  "goes_on_as e c t detour own v calls \<longleftrightarrow> (\<exists>c' c''.
     exec e detour (c, t) = Some ((c', t @ calls), ToAddress (ae_var e v))
     \<and> exec e (own @ [JmpG v]) (c, t) = Some ((c'', t), ToAddress (ae_var e v))
     \<and> regs c' = regs c'' \<and> flags c' = flags c'' \<and> caller_dwords c c' = caller_dwords c c''
     \<and> pushed_dwords own c c' = pushed_dwords own c c'')"

lemma go_on:
  assumes "exec e detour (c, t) = exec e (own @ [JmpG v]) (c1, t @ calls)"
    and c1: "regs c1 = regs c" "flags c1 = flags c" "caller_dwords c c1 = caller_dwords c c"
    and own: "own = kPrologue \<or> (\<exists>x. own = [MovRI ECX x]) \<or> (\<exists>x y. own = [PushI x, PushI y])"
  shows "goes_on_as e c t detour own v calls"
proof -
  have m: "dmem c1 (regs c ESP) = dmem c (regs c ESP)" "dmem c1 (regs c ESP + 4) = dmem c (regs c ESP + 4)"
    "dmem c1 (regs c ESP + 8) = dmem c (regs c ESP + 8)" "dmem c1 (regs c ESP + 12) = dmem c (regs c ESP + 12)"
    "dmem c1 (regs c ESP + 16) = dmem c (regs c ESP + 16)" "dmem c1 (regs c ESP + 20) = dmem c (regs c ESP + 20)"
    "dmem c1 (regs c ESP + 24) = dmem c (regs c ESP + 24)"
    using c1(3) by (simp_all add: caller_dwords_def upt_rec)
  from own show ?thesis
    unfolding goes_on_as_def assms(1)
    by (elim disjE exE)
       (simp_all add: c1 kPrologue_def push_def reg_set_def caller_dwords_def upt_rec pushed_dwords_def is_push_def m)
qed

text \<open>Each of the detours: an untouched call, or one with two dwords of the caller's stack.\<close>

lemma stage_hook_goes_on:
  assumes "cdecl_like 0 (ae_callee e fn)" "own = kPrologue \<or> (\<exists>x. own = [MovRI ECX x]) \<or> (\<exists>x y. own = [PushI x, PushI y])"
  shows "goes_on_as e c t ([Pushad, Pushfd, CallF fn 0, Popfd, Popad] @ own @ [JmpG v]) own v
     [\<lparr>c_name = fn, c_ecx = regs c ECX, c_args = []\<rparr>]"
proof -
  from transparent_call [OF assms(1), of "own @ [JmpG v]" c t] obtain c1 where
    "exec e (Pushad # Pushfd # CallF fn 0 # Popfd # Popad # own @ [JmpG v]) (c, t)
      = exec e (own @ [JmpG v]) (c1, t @ [\<lparr>c_name = fn, c_ecx = regs c ECX, c_args = []\<rparr>])"
    "regs c1 = regs c" "flags c1 = flags c" "caller_dwords c c1 = caller_dwords c c" by blast
  then show ?thesis using assms(2) by (intro go_on [of _ _ _ _ _ _ c1]) simp_all
qed

lemma rmi_hook_goes_on:
  assumes f: "cdecl_like 2 (ae_callee e fn)"
    and fetch: "\<exists>r. (\<forall>rest t1. exec e (fetch @ rest) (push (flags c) (pushad c), t1) =
        exec e rest ((push (flags c) (pushad c))\<lparr>regs := r\<rparr>, t1)) \<and> r ESP = regs c ESP - 36 \<and> r EAX = a \<and> r ECX = b"
    and rest: "rest = [PushR ECX, PushR EAX, CallF fn 2, AddI ESP 8, Popfd, Popad] @ own @ [JmpG v]"
    and own: "own = kPrologue \<or> (\<exists>x. own = [MovRI ECX x]) \<or> (\<exists>x y. own = [PushI x, PushI y])"
  shows "goes_on_as e c t ([Pushad, Pushfd] @ fetch @ rest) own v [\<lparr>c_name = fn, c_ecx = b, c_args = [a, b]\<rparr>]"
proof -
  from logged_call [OF f fetch rest, of t] obtain c1 where
    "exec e ([Pushad, Pushfd] @ fetch @ rest) (c, t) = exec e (own @ [JmpG v]) (c1, t @ [\<lparr>c_name = fn, c_ecx = b, c_args = [a, b]\<rparr>])"
    "regs c1 = regs c" "flags c1 = flags c" "caller_dwords c c1 = caller_dwords c c" by blast
  then show ?thesis using own by (intro go_on [of _ _ _ _ _ _ c1]) simp_all
qed

definition detour_calls :: "string \<Rightarrow> cpu \<Rightarrow> call list" where
  "detour_calls name c =
     (let E = regs c ESP; m = dmem c; plain = (\<lambda>fn. [\<lparr>c_name = fn, c_ecx = regs c ECX, c_args = []\<rparr>]);
          logged = (\<lambda>fn a b. [\<lparr>c_name = fn, c_ecx = b, c_args = [a, b]\<rparr>]) in
      if name = ''pn_net_client_factory'' then plain ''log_pn_net_client_factory''
      else if name = ''pn_rmi_send'' then logged ''log_c2s_rmi'' (m (E + 0x18)) (m (E + 8))
      else if name = ''pn_game_rmi_send'' then logged ''log_c2s_rmi_proxy'' (m (E + 0x0C) AND 0xFFFF) (m (E + 8))
      else if name = ''pn_rmi_floor''
        then logged ''log_c2s_rmi_floor'' (dmem (push (flags c) (pushad c)) (m (E + 4)) AND 0xFFFF) (m (E + 8))
      else if name = ''game_server_select'' then plain ''diagnostics_game_stage_server_begin''
      else if name = ''game_main_menu'' then plain ''diagnostics_game_stage_shard_select''
      else plain (''diagnostics_game_stage_'' @ drop 5 name))"

definition resuming_stubs :: "target list" where
  "resuming_stubs = game_state_stubs @ take 1 net_client_stubs @ framework_send_stubs @ game_send_stubs"

lemma stage_hook_ok: "cdecl_like 0 (ae_callee e fn) \<Longrightarrow>
   goes_on_as e c t (stage_hook fn v) kPrologue v [\<lparr>c_name = fn, c_ecx = regs c ECX, c_args = []\<rparr>]"
  using stage_hook_goes_on [of e fn kPrologue c t v] by (simp add: stage_hook_def)

lemma main_menu_ok: "cdecl_like 0 (ae_callee e ''diagnostics_game_stage_shard_select'') \<Longrightarrow>
   goes_on_as e c t hook_game_main_menu [MovRI ECX 0x16B7288] (return_var ''game_main_menu'')
     [\<lparr>c_name = ''diagnostics_game_stage_shard_select'', c_ecx = regs c ECX, c_args = []\<rparr>]"
  using stage_hook_goes_on [of e "''diagnostics_game_stage_shard_select''" "[MovRI ECX 0x16B7288]" c t "return_var ''game_main_menu''"]
  by (simp add: hook_game_main_menu_def)

lemma factory_ok: "cdecl_like 0 (ae_callee e ''log_pn_net_client_factory'') \<Longrightarrow>
   goes_on_as e c t hook_pn_net_client_factory [PushI 0xFFFFFFFF, PushI 0x1508A6B] (return_var ''pn_net_client_factory'')
     [\<lparr>c_name = ''log_pn_net_client_factory'', c_ecx = regs c ECX, c_args = []\<rparr>]"
  using stage_hook_goes_on [of e "''log_pn_net_client_factory''" "[PushI 0xFFFFFFFF, PushI 0x1508A6B]" c t "return_var ''pn_net_client_factory''"]
  by (simp add: hook_pn_net_client_factory_def)

lemma frame_args:
  "regs (push (flags c) (pushad c)) ESP = regs c ESP - 36"
  "dmem (push (flags c) (pushad c)) (regs c ESP + 4) = dmem c (regs c ESP + 4)"
  "dmem (push (flags c) (pushad c)) (regs c ESP + 8) = dmem c (regs c ESP + 8)"
  "dmem (push (flags c) (pushad c)) (regs c ESP + 0x0C) = dmem c (regs c ESP + 0x0C)"
  "dmem (push (flags c) (pushad c)) (regs c ESP + 0x18) = dmem c (regs c ESP + 0x18)"
  by (simp_all add: pushad_def push_def Let_def)

lemma rmi_send_ok: "cdecl_like 2 (ae_callee e ''log_c2s_rmi'') \<Longrightarrow>
   goes_on_as e c t hook_pn_rmi_send [PushI 0xFFFFFFFF, PushI 0x01511D84] (return_var ''pn_rmi_send'')
     [\<lparr>c_name = ''log_c2s_rmi'', c_ecx = dmem c (regs c ESP + 8), c_args = [dmem c (regs c ESP + 0x18), dmem c (regs c ESP + 8)]\<rparr>]"
proof -
  let ?fetch = "[MovRM EAX ESP 0x3C, MovRM ECX ESP 0x2C]" and ?a = "dmem c (regs c ESP + 0x18)" and ?b = "dmem c (regs c ESP + 8)"
  assume f: "cdecl_like 2 (ae_callee e ''log_c2s_rmi'')"
  have "(\<forall>rest t1. exec e (?fetch @ rest) (push (flags c) (pushad c), t1) =
        exec e rest ((push (flags c) (pushad c))\<lparr>regs := (regs (push (flags c) (pushad c)))(EAX := ?a, ECX := ?b)\<rparr>, t1))"
    using frame_args [of c] by (simp add: reg_set_def add.commute)
  then have "\<exists>r. (\<forall>rest t1. exec e (?fetch @ rest) (push (flags c) (pushad c), t1) =
        exec e rest ((push (flags c) (pushad c))\<lparr>regs := r\<rparr>, t1)) \<and> r ESP = regs c ESP - 36 \<and> r EAX = ?a \<and> r ECX = ?b"
    using frame_args(1) [of c] by (intro exI conjI) (assumption, simp_all)
  from rmi_hook_goes_on [OF f this refl, of "[PushI 0xFFFFFFFF, PushI 0x01511D84]" t "return_var ''pn_rmi_send''"] show ?thesis
    by (simp add: hook_pn_rmi_send_def kPrologue_def)
qed

lemma game_rmi_send_ok: "cdecl_like 2 (ae_callee e ''log_c2s_rmi_proxy'') \<Longrightarrow>
   goes_on_as e c t hook_pn_game_rmi_send kPrologue (return_var ''pn_game_rmi_send'')
     [\<lparr>c_name = ''log_c2s_rmi_proxy'', c_ecx = dmem c (regs c ESP + 8), c_args = [dmem c (regs c ESP + 0x0C) AND 0xFFFF, dmem c (regs c ESP + 8)]\<rparr>]"
proof -
  let ?fetch = "[MovRM EAX ESP 0x30, MovzxR EAX EAX, MovRM ECX ESP 0x2C]" and ?a = "dmem c (regs c ESP + 0x0C) AND 0xFFFF" and ?b = "dmem c (regs c ESP + 8)"
  assume f: "cdecl_like 2 (ae_callee e ''log_c2s_rmi_proxy'')"
  have "(\<forall>rest t1. exec e (?fetch @ rest) (push (flags c) (pushad c), t1) =
        exec e rest ((push (flags c) (pushad c))\<lparr>regs := (regs (push (flags c) (pushad c)))(EAX := ?a, ECX := ?b)\<rparr>, t1))"
    using frame_args [of c] by (simp add: reg_set_def add.commute)
  then have "\<exists>r. (\<forall>rest t1. exec e (?fetch @ rest) (push (flags c) (pushad c), t1) =
        exec e rest ((push (flags c) (pushad c))\<lparr>regs := r\<rparr>, t1)) \<and> r ESP = regs c ESP - 36 \<and> r EAX = ?a \<and> r ECX = ?b"
    using frame_args(1) [of c] by (intro exI conjI) (assumption, simp_all)
  from rmi_hook_goes_on [OF f this refl, of "kPrologue" t "return_var ''pn_game_rmi_send''"] show ?thesis
    by (simp add: hook_pn_game_rmi_send_def kPrologue_def)
qed

lemma rmi_floor_ok: "cdecl_like 2 (ae_callee e ''log_c2s_rmi_floor'') \<Longrightarrow>
   goes_on_as e c t hook_pn_rmi_floor kPrologue (return_var ''pn_rmi_floor'')
     [\<lparr>c_name = ''log_c2s_rmi_floor'', c_ecx = dmem c (regs c ESP + 8), c_args = [dmem (push (flags c) (pushad c)) (dmem c (regs c ESP + 4)) AND 0xFFFF, dmem c (regs c ESP + 8)]\<rparr>]"
proof -
  let ?fetch = "[MovRM EAX ESP 0x28, MovzxM EAX EAX, MovRM ECX ESP 0x2C]" and ?a = "dmem (push (flags c) (pushad c)) (dmem c (regs c ESP + 4)) AND 0xFFFF" and ?b = "dmem c (regs c ESP + 8)"
  assume f: "cdecl_like 2 (ae_callee e ''log_c2s_rmi_floor'')"
  have "(\<forall>rest t1. exec e (?fetch @ rest) (push (flags c) (pushad c), t1) =
        exec e rest ((push (flags c) (pushad c))\<lparr>regs := (regs (push (flags c) (pushad c)))(EAX := ?a, ECX := ?b)\<rparr>, t1))"
    using frame_args [of c] by (simp add: reg_set_def add.commute)
  then have "\<exists>r. (\<forall>rest t1. exec e (?fetch @ rest) (push (flags c) (pushad c), t1) =
        exec e rest ((push (flags c) (pushad c))\<lparr>regs := r\<rparr>, t1)) \<and> r ESP = regs c ESP - 36 \<and> r EAX = ?a \<and> r ECX = ?b"
    using frame_args(1) [of c] by (intro exI conjI) (assumption, simp_all)
  from rmi_hook_goes_on [OF f this refl, of "kPrologue" t "return_var ''pn_rmi_floor''"] show ?thesis
    by (simp add: hook_pn_rmi_floor_def kPrologue_def)
qed

lemma stage_calls: "CallF f n \<in> set (stage_hook fn v) \<longleftrightarrow> f = fn \<and> n = 0"
  by (auto simp: stage_hook_def kPrologue_def)

lemma other_calls:
  "CallF f n \<in> set hook_game_main_menu \<longleftrightarrow> f = ''diagnostics_game_stage_shard_select'' \<and> n = 0"
  "CallF f n \<in> set hook_pn_net_client_factory \<longleftrightarrow> f = ''log_pn_net_client_factory'' \<and> n = 0"
  "CallF f n \<in> set hook_pn_rmi_send \<longleftrightarrow> f = ''log_c2s_rmi'' \<and> n = 2"
  "CallF f n \<in> set hook_pn_game_rmi_send \<longleftrightarrow> f = ''log_c2s_rmi_proxy'' \<and> n = 2"
  "CallF f n \<in> set hook_pn_rmi_floor \<longleftrightarrow> f = ''log_c2s_rmi_floor'' \<and> n = 2"
  by (simp_all add: hook_game_main_menu_def hook_pn_net_client_factory_def hook_pn_rmi_send_def hook_pn_game_rmi_send_def
      hook_pn_rmi_floor_def conj_commute)


definition quiet_env :: asm_env where
  "quiet_env = \<lparr>ae_callee = (\<lambda>f c. (drop_stack 4 c)\<lparr>flags := 0\<rparr>), ae_var = (\<lambda>v. 0x42A016), ae_flags = id, ae_ret = 0x1000\<rparr>"

definition some_cpu :: cpu where
  "some_cpu = \<lparr>regs = (\<lambda>r. if r = ESP then 0x19FF70 else 7), flags = 0x246, dmem = (\<lambda>a. a)\<rparr>"

lemma quiet_cdecl: "cdecl_like n (ae_callee quiet_env f)"
  by (simp add: cdecl_like_def quiet_env_def drop_stack_def)


section \<open>Detours that replace a function\<close>

text \<open>
  Back at the caller of a member function with \<open>n\<close> bytes of arguments: the arguments are gone, the callee-saved registers are
  as they were, and \<open>eax\<close> is what the C function \<open>fn\<close> gave for \<open>args\<close>.
\<close>

definition returns_as :: "asm_env \<Rightarrow> string \<Rightarrow> u32 list \<Rightarrow> u32 \<Rightarrow> cpu \<Rightarrow> cpu \<Rightarrow> bool" where
  "returns_as e fn args n c c' \<longleftrightarrow>
     regs c' ESP = regs c ESP + 4 + n \<and> regs c' EBX = regs c EBX \<and> regs c' ESI = regs c ESI \<and> regs c' EDI = regs c EDI
     \<and> regs c' EBP = regs c EBP
     \<and> (\<exists>c1. stack_args (length args) (drop_stack 4 c1) = args \<and> regs c' EAX = regs (ae_callee e fn c1) EAX)"

lemma push_fields:
  "regs (push v c) r = (if r = ESP then regs c ESP - 4 else regs c r)"
  "dmem (push v c) a = (if a = regs c ESP - 4 then v else dmem c a)"
  by (simp_all add: push_def)

lemma below_args: "j \<le> 4 \<Longrightarrow> x + 4 * word_of_nat j \<noteq> x - (4 :: u32)"
proof -
  assume "j \<le> 4"
  then consider "j = 0" | "j = 1" | "j = 2" | "j = 3" | "j = 4" by linarith
  then show ?thesis by cases simp_all
qed

lemma forwarded_call:
  assumes f: "cdecl_like k (ae_callee e fn)" and k: "length args = k" "k \<le> 4"
    and c1: "regs c1 ESP = regs c ESP - 4 * word_of_nat k" "regs c1 EBX = regs c EBX" "regs c1 ESI = regs c ESI"
      "regs c1 EDI = regs c EDI" "regs c1 EBP = regs c EBP" "regs c1 ECX = regs c ECX"
    and m: "dmem c1 (regs c ESP) = dmem c (regs c ESP)" and args: "stack_args k c1 = args"
  shows "\<exists>c'. exec e [CallF fn k, AddI ESP (4 * word_of_nat k), Ret n] (c1, t)
      = Some ((c', t @ [\<lparr>c_name = fn, c_ecx = regs c ECX, c_args = args\<rparr>]), ToAddress (dmem c (regs c ESP)))
    \<and> returns_as e fn args n c c'"
proof -
  let ?c2 = "push (ae_ret e) c1" and ?c3 = "ae_callee e fn (push (ae_ret e) c1)"
  have esp2: "regs ?c2 ESP = regs c ESP - 4 * word_of_nat k - 4" using c1(1) by (simp add: push_fields)
  have "regs ?c2 ESP + 4 + 4 * word_of_nat (k + 0) = regs c ESP" using esp2 by simp
  from cdecl_mem [OF f _ this] have "dmem ?c3 (regs c ESP) = dmem ?c2 (regs c ESP)" by simp
  also have "... = dmem c (regs c ESP)"
    using below_args [OF k(2), of "regs c1 ESP"] c1(1) m by (simp add: push_fields)
  finally have ret: "dmem ?c3 (regs c ESP) = dmem c (regs c ESP)" .
  have esp3: "regs ?c3 ESP + 4 * word_of_nat k = regs c ESP" using esp2 by (simp add: cdecl_regs(1) [OF f])
  have "stack_args (length args) (drop_stack 4 ?c2) = args"
    using args k below_args [of _ "regs c1 ESP"]
    by (auto simp: stack_args_def drop_stack_def push_fields)
  then have eax: "\<exists>c1'. stack_args (length args) (drop_stack 4 c1') = args \<and> regs ?c3 EAX = regs (ae_callee e fn c1') EAX"
    by blast
  show ?thesis
    using ret esp3 c1 args eax
    by (simp add: returns_as_def reg_set_def drop_stack_def top_def cdecl_regs [OF f] push_fields)
qed

lemma exec_step: "exec1 e i s = (s', None) \<Longrightarrow> exec e (i # is) s = exec e is s'"
  by simp

lemma push_esp: "exec e (PushM ESP off # is) (c, t) = exec e is (push (dmem c (regs c ESP + off)) c, t)"
  "exec e (PushR r # is) (c, t) = exec e is (push (regs c r) c, t)"
  by simp_all

lemma push_arg:
  "dmem (push v c) (regs (push v c) ESP + 4) = dmem c (regs c ESP)"
  "dmem (push v c) (regs (push v c) ESP + 8) = dmem c (regs c ESP + 4)"
  "dmem (push v c) (regs (push v c) ESP + 12) = dmem c (regs c ESP + 8)"
  by (simp_all add: push_def) (simp_all add: add.commute)

lemma push_ecx: "regs (push v c) ECX = regs c ECX"
  by (simp add: push_def)

lemma two_args_call:
  fixes c :: cpu
  assumes f: "cdecl_like 3 (ae_callee e fn)"
  defines "args \<equiv> [regs c ECX, dmem c (regs c ESP + 4), dmem c (regs c ESP + 8)]"
  shows "\<exists>c'. exec e [PushM ESP 8, PushM ESP 8, PushR ECX, CallF fn 3, AddI ESP 12, Ret 8] (c, t)
    = Some ((c', t @ [\<lparr>c_name = fn, c_ecx = regs c ECX, c_args = args\<rparr>]), ToAddress (dmem c (regs c ESP)))
    \<and> returns_as e fn args 8 c c'"
proof -
  let ?c1 = "push (regs c ECX) (push (dmem c (regs c ESP + 4)) (push (dmem c (regs c ESP + 8)) c))"
  have "exec e [PushM ESP 8, PushM ESP 8, PushR ECX, CallF fn 3, AddI ESP 12, Ret 8] (c, t)
      = exec e [CallF fn 3, AddI ESP 12, Ret 8] (?c1, t)"
    by (simp only: push_esp push_arg push_ecx)
  moreover have "stack_args 3 ?c1 = args" by (simp add: args_def stack_args_def upt_rec push_fields)
  ultimately show ?thesis
    using forwarded_call [OF f, of args ?c1 c 8 t] by (simp add: args_def push_fields del: exec.simps)
qed

lemma one_arg_call:
  fixes c :: cpu
  assumes f: "cdecl_like 2 (ae_callee e fn)"
  defines "args \<equiv> [regs c ECX, dmem c (regs c ESP + 4)]"
  shows "\<exists>c'. exec e [PushM ESP 4, PushR ECX, CallF fn 2, AddI ESP 8, Ret 4] (c, t)
    = Some ((c', t @ [\<lparr>c_name = fn, c_ecx = regs c ECX, c_args = args\<rparr>]), ToAddress (dmem c (regs c ESP)))
    \<and> returns_as e fn args 4 c c'"
proof -
  let ?c1 = "push (regs c ECX) (push (dmem c (regs c ESP + 4)) c)"
  have "exec e [PushM ESP 4, PushR ECX, CallF fn 2, AddI ESP 8, Ret 4] (c, t)
      = exec e [CallF fn 2, AddI ESP 8, Ret 4] (?c1, t)"
    by (simp only: push_esp push_arg push_ecx)
  moreover have "stack_args 2 ?c1 = args" by (simp add: args_def stack_args_def upt_rec push_fields)
  ultimately show ?thesis
    using forwarded_call [OF f, of args ?c1 c 4 t] by (simp add: args_def push_fields del: exec.simps)
qed

text \<open> C33: The three detours that replace a member function by a C function give it the object and the arguments of the call, in
  order, once, and return its result to the caller with the arguments removed and the callee-saved registers kept.\<close>

theorem replaced_members_forward:
  assumes "\<forall>f n. cdecl_like n (ae_callee e f)"
  shows "\<exists>c1 c2 c3.
    exec e hook_pn_process_encrypted (c, t) = Some ((c1, t @ [\<lparr>c_name = ''process_encrypted_c'', c_ecx = regs c ECX,
       c_args = [regs c ECX, dmem c (regs c ESP + 4), dmem c (regs c ESP + 8)]\<rparr>]), ToAddress (dmem c (regs c ESP)))
    \<and> returns_as e ''process_encrypted_c'' [regs c ECX, dmem c (regs c ESP + 4), dmem c (regs c ESP + 8)] 8 c c1
    \<and> exec e hook_pn_process_proudnet_layer (c, t) = Some ((c2, t @ [\<lparr>c_name = ''pn_process_message_reimpl_c'', c_ecx = regs c ECX,
       c_args = [regs c ECX, dmem c (regs c ESP + 4), dmem c (regs c ESP + 8)]\<rparr>]), ToAddress (dmem c (regs c ESP)))
    \<and> returns_as e ''pn_process_message_reimpl_c'' [regs c ECX, dmem c (regs c ESP + 4), dmem c (regs c ESP + 8)] 8 c c2
    \<and> exec e hook_pn_tcp_frame_recv (c, t) = Some ((c3, t @ [\<lparr>c_name = ''tcp_frame_extract_c'', c_ecx = regs c ECX,
       c_args = [regs c ECX, dmem c (regs c ESP + 4)]\<rparr>]), ToAddress (dmem c (regs c ESP)))
    \<and> returns_as e ''tcp_frame_extract_c'' [regs c ECX, dmem c (regs c ESP + 4)] 4 c c3"
  using two_args_call [of e "''process_encrypted_c''" c t] two_args_call [of e "''pn_process_message_reimpl_c''" c t]
    one_arg_call [of e "''tcp_frame_extract_c''" c t] assms
  unfolding hook_pn_process_encrypted_def hook_pn_process_proudnet_layer_def hook_pn_tcp_frame_recv_def
  by blast

theorem replaced_members_forward_witness:
  "\<exists>c1. exec quiet_env hook_pn_process_encrypted (some_cpu, []) = Some ((c1, [\<lparr>c_name = ''process_encrypted_c'', c_ecx = 7,
     c_args = [7, 0x19FF74, 0x19FF78]\<rparr>]), ToAddress 0x19FF70)"
proof -
  have "\<forall>f n. cdecl_like n (ae_callee quiet_env f)" using quiet_cdecl by blast
  from replaced_members_forward [OF this, of some_cpu "[]"] show ?thesis by (simp add: some_cpu_def) blast
qed

text \<open>The detour of the decompression gives its C function, where the message type belongs, the return address of the call:
  the second argument it pushes is taken four bytes too low on the stack.\<close>

theorem compressed_type_is_return_address:
  assumes "cdecl_like 4 (ae_callee e ''process_compressed_c'')"
  shows "\<exists>c'. exec e hook_pn_process_compressed (c, t) = Some ((c', t @ [\<lparr>c_name = ''process_compressed_c'', c_ecx = regs c ECX,
      c_args = [regs c ECX, dmem c (regs c ESP), dmem c (regs c ESP + 8), dmem c (regs c ESP + 12)]\<rparr>]),
      ToAddress (dmem c (regs c ESP)))"
proof -
  let ?args = "[regs c ECX, dmem c (regs c ESP), dmem c (regs c ESP + 8), dmem c (regs c ESP + 12)]"
  let ?c1 = "push (regs c ECX) (push (dmem c (regs c ESP)) (push (dmem c (regs c ESP + 8)) (push (dmem c (regs c ESP + 12)) c)))"
  have "exec e hook_pn_process_compressed (c, t) = exec e [CallF ''process_compressed_c'' 4, AddI ESP 16, Ret 0x0C] (?c1, t)"
    unfolding hook_pn_process_compressed_def
    by (simp only: push_esp push_arg push_ecx)
  moreover have "stack_args 4 ?c1 = ?args" by (simp add: stack_args_def upt_rec push_fields)
  ultimately show ?thesis
    using forwarded_call [OF assms, of ?args ?c1 c "0x0C" t] by (auto simp add: push_fields simp del: exec.simps)
qed

theorem compressed_type_is_return_address_witness:
  "\<exists>c'. exec quiet_env hook_pn_process_compressed (some_cpu, []) = Some ((c', [\<lparr>c_name = ''process_compressed_c'', c_ecx = 7,
     c_args = [7, 0x19FF70, 0x19FF78, 0x19FF7C]\<rparr>]), ToAddress 0x19FF70)"
  using compressed_type_is_return_address [OF quiet_cdecl, of some_cpu "[]"] by (simp add: some_cpu_def)

text \<open>The drain detour keeps the object in \<open>ecx\<close> and the callee-saved registers and pushes what the replaced
  instructions push; the send detour pops its own return address into \<open>ecx\<close> and goes on one dword too high.\<close>

lemma tcp_frame_send_loses_return:
  assumes "cdecl_like 1 (ae_callee e ''log_tcp_frame_send_once'')"
  shows "\<exists>c' calls. exec e hook_pn_tcp_frame_send (c, t) = Some ((c', calls), ToAddress (ae_var e ''g_tcp_frame_send_body''))
    \<and> regs c' ECX = dmem c (regs c ESP) \<and> regs c' ESP = regs c ESP + 4"
proof -
  let ?c2 = "push (ae_ret e) (push (regs c ECX) c)"
  let ?c3 = "ae_callee e ''log_tcp_frame_send_once'' ?c2"
  have "regs ?c2 ESP + 4 + 4 * word_of_nat (1 + 0) = regs c ESP" by (simp add: push_fields)
  from cdecl_mem [OF assms _ this] have m: "dmem ?c3 (regs c ESP) = dmem c (regs c ESP)" by (simp add: push_fields)
  have "regs ?c3 ESP + 4 = regs c ESP" by (simp add: cdecl_regs(1) [OF assms] push_fields)
  then show ?thesis using m by (simp add: hook_pn_tcp_frame_send_def reg_set_def drop_stack_def top_def)
qed

lemma drain_keeps_object:
  assumes "cdecl_like 1 (ae_callee e ''drain_receive_queue_log'')"
  shows "\<exists>c' calls. exec e hook_pn_drain_receive_queue (c, t) = Some ((c', calls), ToAddress (ae_var e ''g_drain_receive_queue_resume''))
    \<and> calls = t @ [\<lparr>c_name = ''drain_receive_queue_log'', c_ecx = regs c ECX, c_args = [regs c ECX]\<rparr>]
    \<and> regs c' ECX = regs c ECX \<and> regs c' ESP = regs c ESP - 8 \<and> regs c' EBX = regs c EBX \<and> regs c' EBP = regs c EBP
    \<and> dmem c' (regs c ESP - 4) = 0xFFFFFFFF \<and> dmem c' (regs c ESP - 8) = ae_var e ''g_drain_seh_handler''
    \<and> dmem c' (regs c ESP) = dmem c (regs c ESP)"
proof -
  let ?c1 = "push (regs c ECX) (push (regs c ECX) c)"
  let ?c2 = "push (ae_ret e) ?c1"
  let ?c3 = "ae_callee e ''drain_receive_queue_log'' ?c2"
  have "regs ?c2 ESP + 4 + 4 * word_of_nat (1 + 0) = regs c ESP - 4" "regs ?c2 ESP + 4 + 4 * word_of_nat (1 + 1) = regs c ESP"
    by (simp_all add: push_fields)
  from cdecl_mem [OF assms _ this(1)] cdecl_mem [OF assms _ this(2)]
  have m: "dmem ?c3 (regs c ESP - 4) = regs c ECX" "dmem ?c3 (regs c ESP) = dmem c (regs c ESP)" by (simp_all add: push_fields)
  have esp: "regs ?c3 ESP = regs c ESP - 8" by (simp add: cdecl_regs(1) [OF assms] push_fields)
  have args: "stack_args 1 ?c1 = [regs c ECX]" by (simp add: stack_args_def push_fields)
  show ?thesis using m esp args cdecl_regs(2-5) [OF assms, of ?c2]
    by (simp add: hook_pn_drain_receive_queue_def reg_set_def drop_stack_def top_def push_fields)
qed

end
