(* ===== verification/Install.thy ===== *)
theory Install
  imports Detours HookManager ProudDb Crt
begin

text \<open>
  Installing, the first half of \<open>src/thegame/dll_main.cpp\<close>: which detours are made and in which order, and the import
  slots; and what unloading makes of the game's code.
\<close>

section \<open>Stubs as the hook manager sees them\<close>

definition all_targets :: "target list" where
  "all_targets = entrypoint_stub # game_state_stubs @ engine_stubs @ inline_buf_stubs @ converter_stubs @ string_stubs
     @ tcpsocket_stubs @ send_2_stubs @ fast_socket_stubs @ upnp_stubs @ select_stubs @ recv_append_stubs
     @ recv_complete_stubs @ fsm_stubs @ net_client_stubs @ compress_stubs @ process_layer_stubs @ drain_stubs
     @ tcp_frame_stubs @ framework_send_stubs @ game_send_stubs"

fun index_of :: "string \<Rightarrow> target list \<Rightarrow> nat" where
  "index_of name [] = 0"
| "index_of name (tg # ts) = (if t_name tg = name then 0 else Suc (index_of name ts))"

definition stub_id :: "string \<Rightarrow> nat" where
  "stub_id name = index_of name all_targets"

text \<open>\<open>fns\<close> gives the address of each hook function in the library.\<close>

definition stub_record :: "(string \<Rightarrow> u32) \<Rightarrow> target \<Rightarrow> hook_stub" where
  "stub_record fns tg = \<lparr>hs_addr = t_addr tg, hs_function = fns (t_name tg), hs_orig = replicate 12 0, hs_hooked = False\<rparr>"

record sys_slot =
  sl_stub :: sys_stub
  sl_iat :: u32

text \<open>The stubs of \<open>ws32.cpp\<close>, in the order they are declared; the slots in the order they are taken.\<close>

definition ws2_stubs :: "(string \<Rightarrow> u32) \<Rightarrow> sys_stub list" where
  "ws2_stubs fns =
     map (\<lambda>(name, handler). \<lparr>ss_modname = ''ws2_32.dll'', ss_symname = name, ss_handler = fns handler, ss_hooked = False,
            ss_patched = 0, ss_sym = 0\<rparr>)
       [(''send'', ''send_syshandle''), (''sendto'', ''sendto_syshandle''), (''recv'', ''recv_syshandle''),
        (''recvfrom'', ''recvfrom_syshandle''), (''WSASend'', ''wsasend_syshandle''), (''WSASendTo'', ''wsasendto_syshandle''),
        (''WSARecv'', ''wsarecv_syshandle''), (''WSARecvFrom'', ''wsarecvfrom_syshandle''), (''connect'', ''connect_syshandle'')]"

definition sys_slots :: "(string \<Rightarrow> u32) \<Rightarrow> sys_slot list" where
  "sys_slots fns =
     map (\<lambda>(i, iat). \<lparr>sl_stub = ws2_stubs fns ! i, sl_iat = iat\<rparr>)
       [(0, 0x01588B9C), (1, 0x01588C08), (3, 0x01588BA0), (6, 0x01588BF0), (7, 0x01588BF4), (4, 0x01588BF8),
        (5, 0x01588C04), (2, 0x01588C14), (8, 0x01588BEC)]"

lemma sys_slots_taken:
  "map (\<lambda>sl. (ss_symname (sl_stub sl), sl_iat sl)) (sys_slots fns) =
     [(''send'', 0x01588B9C), (''sendto'', 0x01588C08), (''recvfrom'', 0x01588BA0), (''WSARecv'', 0x01588BF0),
      (''WSARecvFrom'', 0x01588BF4), (''WSASend'', 0x01588BF8), (''WSASendTo'', 0x01588C04), (''recv'', 0x01588C14),
      (''connect'', 0x01588BEC)]"
  by (simp add: sys_slots_def ws2_stubs_def eval_nat_numeral)

text \<open>The hook manager when the library is loaded.\<close>

definition hm_loaded :: "(string \<Rightarrow> u32) \<Rightarrow> mem \<Rightarrow> hm" where
  "hm_loaded fns m =
     \<lparr>hm_mem = m,
      hm_stub = (\<lambda>i. if i < length all_targets then stub_record fns (all_targets ! i)
                     else \<lparr>hs_addr = 0, hs_function = 0, hs_orig = replicate 12 0, hs_hooked = False\<rparr>),
      hm_sys = (\<lambda>i. if i < length (sys_slots fns) then sl_stub (sys_slots fns ! i)
                    else \<lparr>ss_modname = [], ss_symname = [], ss_handler = 0, ss_hooked = False, ss_patched = 0, ss_sym = 0\<rparr>),
      hm_hooks = [], hm_syshooks = [], hm_lock_ready = False\<rparr>"

section \<open>Installing\<close>

definition make_named :: "hm_env \<Rightarrow> string list \<Rightarrow> hm \<Rightarrow> hm" where
  "make_named e names s = fold (\<lambda>n s. snd (make_hook e (stub_id n) s)) names s"

definition game_stage_order :: "string list" where
  "game_stage_order = [''game_intro'', ''game_login'', ''game_server_select'', ''game_main_menu'', ''game_lobby'',
     ''game_room_list'', ''game_party_room'', ''game_room'', ''game_char_select'', ''game_map_loading'', ''game_in_game'']"

definition install_game_stage_hooks :: "hm_env \<Rightarrow> hm \<Rightarrow> hm" where
  "install_game_stage_hooks e = make_named e game_stage_order"

definition engine_order :: "string list" where
  "engine_order =
     [''w_strlen'', ''w_connect_2'', ''w_connect_3'',
      ''EnsureMStringBufferCapacity'', ''EnsureWStringBufferCapacity'', ''ConvertWideToMultiByte'', ''ConvertMultiByteToWide'',
      ''rstring_truncate'', ''rstring_truncate_self'', ''rstring_decrefcnt'', ''rstring_copyonwrite'', ''rstring_realloc'',
      ''rstring_reserve'', ''rstring_truncateatfirst'', ''rstring_trimleft'', ''rstring_concatenate'',
      ''rstring_concatenate_cstr'', ''rstring_vformat'', ''rstring_vformat_this'',
      ''TCPSocket_connect'', ''send_2'', ''fast_wsarecv'', ''pn_upnp'', ''pn_recv_append'', ''pn_select'', ''pn_recv_complete'',
      ''pn_fsm_state1'', ''pn_fsm_state2'', ''pn_fsm_state3'', ''pn_net_client_factory'', ''pn_net_client_ctor'',
      ''pn_process_compressed'', ''pn_process_encrypted'', ''pn_process_proudnet_layer'', ''pn_drain_receive_queue'',
      ''pn_rmi_send'', ''pn_game_rmi_send'', ''pn_rmi_floor'']"

definition install_engine_hooks :: "hm_env \<Rightarrow> hm \<Rightarrow> hm" where
  "install_engine_hooks e = make_named e engine_order"

text \<open>The slots by number, then the library's own imports; \<open>fuel\<close> bounds the walks over the import tables.\<close>

definition install_syshooks :: "nat \<Rightarrow> hm_env \<Rightarrow> (string \<Rightarrow> u32) \<Rightarrow> u32 \<Rightarrow> hm \<Rightarrow> hm" where
  "install_syshooks fuel e fns dll_module s =
     (let s1 = fold (\<lambda>i s. snd (make_syshook e i (sl_iat (sys_slots fns ! i)) s)) [0..<length (sys_slots fns)] s;
          own = (\<lambda>sym handler s. case hook_import fuel e dll_module (Some (bytes_of ''WS2_32.dll'')) (Some (bytes_of sym)) (fns handler) (hm_mem s) of
                   None \<Rightarrow> s | Some (_, m) \<Rightarrow> s\<lparr>hm_mem := m\<rparr>)
      in if dll_module = 0 then s1 else own ''WSARecv'' ''wsarecv_syshandle'' (own ''WSASend'' ''wsasend_syshandle'' s1))"

definition install_hooks :: "nat \<Rightarrow> cfg \<Rightarrow> hm_env \<Rightarrow> (string \<Rightarrow> u32) \<Rightarrow> u32 \<Rightarrow> hm \<Rightarrow> hm" where
  "install_hooks fuel c e fns dll_module s =
     (let s1 = (if disable_entrypoint_hook c then s else make_named e [''entrypoint''] s);
          s2 = install_game_stage_hooks e s1;
          s3 = (if disable_syshooks c then s2 else install_syshooks fuel e fns dll_module s2)
      in install_engine_hooks e s3)"

section \<open>One address, two stubs\<close>

text \<open>Making and restoring detours are writes to memory, in order.\<close>

definition writes :: "('i \<Rightarrow> u32) \<Rightarrow> ('i \<Rightarrow> u8 list) \<Rightarrow> 'i list \<Rightarrow> mem \<Rightarrow> mem" where
  "writes a b is m = fold (\<lambda>i. mem_write (a i) (b i)) is m"

lemma writes_simps [simp]:
  "writes a b [] m = m" "writes a b (i # is) m = writes a b is (mem_write (a i) (b i) m)"
  "writes a b (is @ js) m = writes a b js (writes a b is m)"
  by (simp_all add: writes_def)

lemma writes_out: "(\<And>i. i \<in> set is \<Longrightarrow> \<not> unat (x - a i) < length (b i)) \<Longrightarrow> writes a b is m x = m x"
  by (induction "is" arbitrary: m) (simp_all add: mem_write_out)

lemma writes_cong: "(\<And>i. i \<in> set is \<Longrightarrow> a i = a' i \<and> b i = b' i) \<Longrightarrow> writes a b is m = writes a' b' is m"
  by (induction "is" arbitrary: m) simp_all

lemma writes_last:
  "(\<And>j. j \<in> set post \<Longrightarrow> \<not> unat (x - a j) < length (b j)) \<Longrightarrow> unat (x - a i) < length (b i) \<Longrightarrow>
   writes a b (pre @ i # post) m x = b i ! unat (x - a i)"
  by (simp add: writes_out mem_write_in)

lemma make_hook_granted:
  assumes "he_grants e" "he_main e \<noteq> 0" "\<not> hooked s i"
  defines "s' \<equiv> snd (make_hook e i s)"
  shows "hm_mem s' = mem_write (tgt e s i) (jump e s i) (hm_mem s)"
    "hs_orig (hm_stub s' i) = mem_read (hm_mem s) (tgt e s i) 12" "hooked s' i" "hm_hooks s' = hm_hooks s @ [i]"
    "\<And>k. k \<noteq> i \<Longrightarrow> hm_stub s' k = hm_stub s k" "\<And>k. tgt e s' k = tgt e s k" "\<And>k. jump e s' k = jump e s k"
    "hm_syshooks s' = hm_syshooks s"
  using assms(1-3)
  by (auto simp: s'_def make_hook_def Let_def he_grants_def make_memory_writable_def write_memory_def hooked_def
      upd_stub_def lock_patch_def tgt_def jump_def)

lemma restore_hook_writes:
  assumes "he_grants e" "hooked s i"
  defines "s' \<equiv> snd (restore_hook e i s)"
  shows "hm_mem s' = mem_write (tgt e s i) (hs_orig (hm_stub s i)) (hm_mem s)" "fst (restore_hook e i s)"
    "\<And>k. hs_orig (hm_stub s' k) = hs_orig (hm_stub s k)" "\<And>k. tgt e s' k = tgt e s k"
    "\<And>k. k \<noteq> i \<Longrightarrow> hooked s' k = hooked s k" "hm_syshooks s' = hm_syshooks s"
  using assms(1,2)
  by (auto simp: s'_def restore_hook_def Let_def he_grants_def make_memory_writable_def write_memory_def hooked_def
      upd_stub_def lock_patch_def tgt_def)

lemma make_list:
  assumes "he_grants e" "he_main e \<noteq> 0"
  shows "distinct is \<Longrightarrow> (\<And>i. i \<in> set is \<Longrightarrow> \<not> hooked s i) \<Longrightarrow>
    (let t = fold (\<lambda>i s. snd (make_hook e i s)) is s in
       hm_mem t = writes (tgt e s) (jump e s) is (hm_mem s) \<and> hm_hooks t = hm_hooks s @ is \<and> hm_syshooks t = hm_syshooks s
       \<and> (\<forall>i\<in>set is. hooked t i) \<and> (\<forall>k. k \<notin> set is \<longrightarrow> hm_stub t k = hm_stub s k)
       \<and> (\<forall>k. tgt e t k = tgt e s k) \<and> (\<forall>k. jump e t k = jump e s k)
       \<and> (\<forall>pre i post. is = pre @ i # post \<longrightarrow>
            hs_orig (hm_stub t i) = mem_read (writes (tgt e s) (jump e s) pre (hm_mem s)) (tgt e s i) 12))"
proof (induction "is" arbitrary: s)
  case Nil
  then show ?case by simp
next
  case (Cons i "is")
  let ?s = "snd (make_hook e i s)" and ?t = "fold (\<lambda>i s. snd (make_hook e i s)) is (snd (make_hook e i s))"
  note step = make_hook_granted [OF assms, of s i]
  have nh: "\<not> hooked s i" using Cons.prems(2) by simp
  have fields: "tgt e ?s = tgt e s" "jump e ?s = jump e s" using step(6,7) [OF nh] by (auto simp: fun_eq_iff)
  have "\<not> hooked ?s k" if "k \<in> set is" for k
  proof -
    have "k \<noteq> i" using that Cons.prems(1) by auto
    then show ?thesis using that Cons.prems(2) [of k] step(5) [OF nh, of k] by (simp add: hooked_def)
  qed
  from Cons.IH [OF _ this] Cons.prems(1) have IH: "hm_mem ?t = writes (tgt e s) (jump e s) is (hm_mem ?s)"
    "hm_hooks ?t = hm_hooks ?s @ is" "hm_syshooks ?t = hm_syshooks ?s" "\<forall>i\<in>set is. hooked ?t i"
    "\<forall>k. k \<notin> set is \<longrightarrow> hm_stub ?t k = hm_stub ?s k" "\<forall>k. tgt e ?t k = tgt e s k" "\<forall>k. jump e ?t k = jump e s k"
    "\<forall>pre i post. is = pre @ i # post \<longrightarrow>
       hs_orig (hm_stub ?t i) = mem_read (writes (tgt e s) (jump e s) pre (hm_mem ?s)) (tgt e s i) 12"
    unfolding Let_def fields by (auto simp: fields)
  have i: "i \<notin> set is" using Cons.prems(1) by simp
  then have ti: "hm_stub ?t i = hm_stub ?s i" using IH(5) by simp
  have orig: "hs_orig (hm_stub ?t j) = mem_read (writes (tgt e s) (jump e s) pre (hm_mem s)) (tgt e s j) 12"
    if "i # is = pre @ j # post" for pre j post
    using that IH(8) ti step(1,2) [OF nh] by (cases pre) auto
  have "hooked ?t i" using ti step(3) [OF nh] by (simp add: hooked_def)
  then show ?case using IH step [OF nh] orig i by (auto simp: Let_def)
qed

lemma restore_list:
  assumes "he_grants e"
  shows "distinct is \<Longrightarrow> (\<And>i. i \<in> set is \<Longrightarrow> hooked s i) \<Longrightarrow>
    (case restore_while_ok (restore_hook e) is True s of (ok, t) \<Rightarrow>
       ok \<and> hm_mem t = writes (tgt e s) (\<lambda>i. hs_orig (hm_stub s i)) is (hm_mem s) \<and> hm_syshooks t = hm_syshooks s)"
proof (induction "is" arbitrary: s)
  case Nil
  then show ?case by simp
next
  case (Cons i "is")
  obtain ok t where r: "restore_hook e i s = (ok, t)" by fastforce
  note step = restore_hook_writes [OF assms, of s i, unfolded r snd_conv fst_conv]
  have h: "hooked s i" using Cons.prems(2) by simp
  have fields: "tgt e t = tgt e s" "(\<lambda>i. hs_orig (hm_stub t i)) = (\<lambda>i. hs_orig (hm_stub s i))"
    using step(3,4) [OF h] by (auto simp: fun_eq_iff)
  have "hooked t k" if "k \<in> set is" for k using that Cons.prems step(5) [OF h, of k] by auto
  from Cons.IH [OF _ this] Cons.prems(1) show ?case using step [OF h] r fields by (auto split: prod.splits)
qed

definition engine_ids :: "nat list" where
  "engine_ids = [12, 13, 14, 15, 16, 17, 18, 19, 20, 21, 22, 24, 23, 25, 26, 27, 28, 29, 30, 31, 33, 35, 36, 38, 37, 39, 40,
     41, 42, 43, 44, 45, 46, 47, 48, 51, 52, 53]"

definition installed :: "cfg \<Rightarrow> nat list" where
  "installed c = (if disable_entrypoint_hook c then [] else [0]) @ [1, 2, 3, 4, 5, 6, 7, 8, 9, 10, 11] @ engine_ids"

text \<open>Names and addresses of all stubs, in order.\<close>

definition name_list :: "string list" where
  "name_list =
     [''entrypoint'', ''game_intro'', ''game_login'', ''game_server_select'', ''game_main_menu'', ''game_lobby'',
      ''game_room_list'', ''game_party_room'', ''game_room'', ''game_char_select'', ''game_map_loading'', ''game_in_game'',
      ''w_strlen'', ''w_connect_2'', ''w_connect_3'', ''EnsureMStringBufferCapacity'', ''EnsureWStringBufferCapacity'', ''ConvertWideToMultiByte'',
      ''ConvertMultiByteToWide'', ''rstring_truncate'', ''rstring_truncate_self'', ''rstring_decrefcnt'', ''rstring_copyonwrite'', ''rstring_reserve'',
      ''rstring_realloc'', ''rstring_truncateatfirst'', ''rstring_trimleft'', ''rstring_concatenate'', ''rstring_concatenate_cstr'', ''rstring_vformat'',
      ''rstring_vformat_this'', ''TCPSocket_connect'', ''TCPSocket_send'', ''send_2'', ''fast_wsasend'', ''fast_wsarecv'',
      ''pn_upnp'', ''pn_select'', ''pn_recv_append'', ''pn_recv_complete'', ''pn_fsm_state1'', ''pn_fsm_state2'',
      ''pn_fsm_state3'', ''pn_net_client_factory'', ''pn_net_client_ctor'', ''pn_process_compressed'', ''pn_process_encrypted'', ''pn_process_proudnet_layer'',
      ''pn_drain_receive_queue'', ''pn_tcp_frame_recv'', ''pn_tcp_frame_send'', ''pn_rmi_send'', ''pn_game_rmi_send'', ''pn_rmi_floor'']"

definition addr_list :: "u32 list" where
  "addr_list =
     [0x014AB273, 0x42A010, 0x42B280, 0x4345B0, 0x4347CC, 0x42BD50, 0x4362E0, 0x42F690, 0x439B00, 0x4F2DB0,
      0x4806E0, 0x47F610, 0xCEE210, 0x014314E0, 0x014F6DC0, 0x5584C0, 0x578BB0, 0x535740, 0x578C90, 0xCEFCC0,
      0xD5A7E0, 0x9FCAF0, 0xCEFDF0, 0xCF0020, 0xCEFEF0, 0xCF2D90, 0xCF2CD0, 0xCF1A90, 0xCF1A90, 0xCF1DD0,
      0xCF1BB0, 0xD56220, 0xD569C0, 0xD567F0, 0xD567F0, 0xD56470, 0xD6E180, 0xD55300, 0xD71CE0, 0xD55510,
      0xD6EF90, 0xD6C8E0, 0xD6C9C0, 0xD0C0A0, 0xD0A340, 0xD5DC10, 0xD5CA30, 0xD653B0, 0xD65940, 0xD84BB0,
      0xD84970, 0xD5C5E0, 0x65AEA0, 0xA0B290]"

lemma target_lists: "map t_name all_targets = name_list" "map t_addr all_targets = addr_list"
  by (simp_all only: all_targets_def name_list_def addr_list_def entrypoint_stub_def game_state_stubs_def engine_stubs_def inline_buf_stubs_def converter_stubs_def string_stubs_def string_block_stubs_def string_text_stubs_def tcpsocket_stubs_def send_2_stubs_def fast_socket_stubs_def upnp_stubs_def select_stubs_def recv_append_stubs_def recv_complete_stubs_def fsm_stubs_def net_client_stubs_def compress_stubs_def process_layer_stubs_def drain_stubs_def tcp_frame_stubs_def framework_send_stubs_def game_send_stubs_def
        append.simps list.map target.simps)

fun index_in :: "string \<Rightarrow> string list \<Rightarrow> nat" where
  "index_in name [] = 0"
| "index_in name (n # ns) = (if n = name then 0 else Suc (index_in name ns))"

lemma stub_id_code: "stub_id name = index_in name name_list"
proof -
  have "index_of name ts = index_in name (map t_name ts)" for ts by (induction ts) simp_all
  then show ?thesis by (simp add: stub_id_def target_lists)
qed

lemma targets_length: "length all_targets = 54"
proof -
  have "length (map t_name all_targets) = 54" unfolding target_lists by (simp add: name_list_def)
  then show ?thesis by simp
qed

lemma stub_ids:
  "map stub_id [''entrypoint''] = [0]" "map stub_id game_stage_order = [1, 2, 3, 4, 5, 6, 7, 8, 9, 10, 11]"
  "map stub_id engine_order = engine_ids"
  unfolding stub_id_code by code_simp+

lemma install_is_list:
  assumes "disable_syshooks c"
  shows "install_hooks fuel c e fns dll_module s = fold (\<lambda>i s. snd (make_hook e i s)) (installed c) s"
proof -
  have "make_named e names s = fold (\<lambda>i s. snd (make_hook e i s)) (map stub_id names) s" for names s
    by (simp add: make_named_def fold_map comp_def)
  then show ?thesis using assms
    by (simp add: install_hooks_def install_game_stage_hooks_def install_engine_hooks_def stub_ids installed_def Let_def
        del: list.map)
qed

definition stub_addr :: "nat \<Rightarrow> u32" where
  "stub_addr i = t_addr (all_targets ! i)"

lemma stub_addr_code: "i < 54 \<Longrightarrow> stub_addr i = addr_list ! i"
  using target_lists(2) by (metis nth_map stub_addr_def targets_length)

text \<open>The installed stubs by address, without the second one at 0xCF1A90.\<close>

definition by_address :: "nat list" where
  "by_address = [1, 2, 5, 7, 3, 4, 6, 8, 11, 10, 9, 17, 15, 16, 18, 52, 21, 53, 12, 19, 22, 24, 23, 27, 30, 29, 26, 25, 44, 43, 37, 39, 31, 35, 33, 20, 51, 46, 45, 47, 48, 41, 42, 36, 40, 38, 13, 0, 14]"

lemma sorted_wrt_pairs: "sorted_wrt R xs \<Longrightarrow> x \<in> set xs \<Longrightarrow> y \<in> set xs \<Longrightarrow> x \<noteq> y \<Longrightarrow> R x y \<or> R y x"
  by (induction xs) auto

lemma by_address_small: "i \<in> set by_address \<Longrightarrow> i < 54 \<and> uint (stub_addr i) < 0x80000000"
proof -
  have "list_all (\<lambda>i. i < 54 \<and> uint (addr_list ! i) < 0x80000000) by_address" by code_simp
  then show "i \<in> set by_address \<Longrightarrow> i < 54 \<and> uint (stub_addr i) < 0x80000000" by (simp add: list_all_iff stub_addr_code)
qed

lemma by_address_apart: "sorted_wrt (\<lambda>i j. uint (stub_addr i) + 12 \<le> uint (stub_addr j)) by_address"
proof -
  have "successively (\<lambda>i j. uint (addr_list ! i) + 12 \<le> uint (addr_list ! j)) by_address" by code_simp
  then have "sorted_wrt (\<lambda>i j. uint (addr_list ! i) + 12 \<le> uint (addr_list ! j)) by_address"
    by (subst (asm) successively_conv_sorted_wrt) (auto intro!: transpI)
  then show ?thesis by (rule sorted_wrt_mono_rel [rotated]) (use by_address_small stub_addr_code in auto)
qed

lemma installed_by_address: "i \<in> set (installed c) \<Longrightarrow> i \<noteq> 28 \<Longrightarrow> i \<in> set by_address"
proof -
  have "list_all (\<lambda>i. i = 28 \<or> i \<in> set by_address) (0 # [1, 2, 3, 4, 5, 6, 7, 8, 9, 10, 11] @ engine_ids)" by code_simp
  then show "i \<in> set (installed c) \<Longrightarrow> i \<noteq> 28 \<Longrightarrow> i \<in> set by_address"
    by (auto simp: list_all_iff installed_def split: if_splits)
qed

lemma name27: "t_name (all_targets ! 27) = ''rstring_concatenate''"
proof -
  have "t_name (all_targets ! 27) = name_list ! 27" using targets_length by (simp flip: target_lists(1))
  then show ?thesis by (simp add: name_list_def)
qed

lemma same_addr: "stub_addr 28 = stub_addr 27" "stub_addr 27 = 0xCF1A90"
  by (simp_all add: stub_addr_code) (simp_all add: addr_list_def)

lemma windows_apart:
  fixes x b :: u32
  assumes "uint p + 12 \<le> uint q" "uint q < 0x80000000"
  shows "\<not> (unat (x - (p + b)) < 12 \<and> unat (x - (q + b)) < 12)"
proof
  assume x: "unat (x - (p + b)) < 12 \<and> unat (x - (q + b)) < 12"
  have "int (unat w) = uint w" for w :: u32 by simp
  from this [of p] this [of q] have le: "unat p + 12 \<le> unat q" "unat q < 0x80000000" using assms by linarith+
  then have "p \<le> q" unfolding word_le_nat_alt by linarith
  then have d: "unat (q - p) = unat q - unat p" by (simp add: unat_sub)
  have "x - (p + b) = (x - (q + b)) + (q - p)" by simp
  moreover have "unat (x - (q + b)) + unat (q - p) < 0x100000000" using x d le by linarith
  then have "unat (x - (q + b)) + unat (q - p) < 2 ^ 32" by simp
  ultimately have "unat (x - (p + b)) = unat (x - (q + b)) + unat (q - p)" by (simp only: unat_u32_add_small)
  then show False using x d le by linarith
qed

definition window :: "hm_env \<Rightarrow> nat \<Rightarrow> u32 \<Rightarrow> nat" where
  "window e i x = unat (x - target_of e (stub_addr i))"

lemma target_shift: "target_of e a = a + (he_main e - 0x400000)"
  by (simp add: target_of_def)

lemma installed_apart:
  assumes "i \<in> set (installed c)" "j \<in> set (installed c)" "i \<noteq> j" "\<not> (i \<in> {27, 28} \<and> j \<in> {27, 28})"
  shows "\<not> (window e i x < 12 \<and> window e j x < 12)"
proof -
  define i' j' where "i' = (if i = 28 then 27 else i)" and "j' = (if j = 28 then 27 else j)"
  have "i' \<in> set by_address" "j' \<in> set by_address"
    using installed_by_address assms(1,2) unfolding i'_def j'_def by (auto simp: by_address_def)
  moreover have "i' \<noteq> j'" using assms(3,4) by (auto simp: i'_def j'_def)
  ultimately have "uint (stub_addr i') + 12 \<le> uint (stub_addr j') \<or> uint (stub_addr j') + 12 \<le> uint (stub_addr i')"
    and "uint (stub_addr i') < 0x80000000" "uint (stub_addr j') < 0x80000000"
    using sorted_wrt_pairs [OF by_address_apart] by_address_small by blast+
  then have "\<not> (window e i' x < 12 \<and> window e j' x < 12)"
    using windows_apart [of "stub_addr i'" "stub_addr j'" x "he_main e - 0x400000"]
      windows_apart [of "stub_addr j'" "stub_addr i'" x "he_main e - 0x400000"]
    by (auto simp: window_def target_shift)
  moreover have "window e i' x = window e i x" "window e j' x = window e j x"
    by (simp_all add: i'_def j'_def window_def same_addr)
  ultimately show ?thesis by simp
qed

text \<open>The two stubs at one address follow each other.\<close>

lemma installed_split: "\<exists>pre. installed c = pre @ 27 # 28 # [29, 30, 31, 33, 35, 36, 38, 37, 39, 40, 41, 42, 43, 44, 45, 46, 47,
    48, 51, 52, 53] \<and> 27 \<notin> set pre \<and> 28 \<notin> set pre"
  by (rule exI [of _ "(if disable_entrypoint_hook c then [] else [0]) @ [1, 2, 3, 4, 5, 6, 7, 8, 9, 10, 11] @
       [12, 13, 14, 15, 16, 17, 18, 19, 20, 21, 22, 24, 23, 25, 26]"])
     (simp add: installed_def engine_ids_def)

lemma installed_fields: "distinct (installed c)" "i \<in> set (installed c) \<Longrightarrow> i < length all_targets" "27 \<in> set (installed c)" "28 \<in> set (installed c)"
proof -
  show "distinct (installed c)" "i \<in> set (installed c) \<Longrightarrow> i < length all_targets" "27 \<in> set (installed c)" "28 \<in> set (installed c)"
    by (auto simp: installed_def engine_ids_def targets_length split: if_splits)
qed

text \<open>What is left of a byte once the saved bytes \<open>ob\<close> have been written back in the order the jumps \<open>jb\<close> were written.\<close>

definition saves :: "('i \<Rightarrow> u32) \<Rightarrow> ('i \<Rightarrow> u8 list) \<Rightarrow> ('i \<Rightarrow> u8 list) \<Rightarrow> mem \<Rightarrow> 'i list \<Rightarrow> bool" where
  "saves a jb ob m is \<longleftrightarrow> distinct is \<and> (\<forall>i. length (jb i) = 5)
     \<and> (\<forall>pre i post. is = pre @ i # post \<longrightarrow> ob i = mem_read (writes a jb pre m) (a i) 12)"

lemma saves_length: "saves a jb ob m is \<Longrightarrow> i \<in> set is \<Longrightarrow> length (ob i) = 12"
  using split_list [of i "is"] unfolding saves_def by (metis length_mem_read)

lemma restore_untouched:
  assumes "saves a jb ob m is" "\<And>i. i \<in> set is \<Longrightarrow> \<not> unat (x - a i) < 12"
  shows "writes a ob is (writes a jb is m) x = m x"
proof -
  have "writes a ob is (writes a jb is m) x = writes a jb is m x"
    using assms saves_length [OF assms(1)] by (intro writes_out) auto
  also have "... = m x" using assms by (intro writes_out) (fastforce simp: saves_def)
  finally show ?thesis .
qed

lemma restore_last:
  assumes "saves a jb ob m is" "is = pre @ k # post" "unat (x - a k) < 12"
    "\<And>i. i \<in> set post \<Longrightarrow> \<not> unat (x - a i) < 12"
  shows "writes a ob is (writes a jb is m) x = writes a jb pre m x"
proof -
  have len: "length (ob i) = 12" if "i \<in> set is" for i using saves_length [OF assms(1) that] .
  then have "writes a ob is (writes a jb is m) x = ob k ! unat (x - a k)"
    unfolding assms(2) using assms(2-4) by (subst writes_last) auto
  also have "ob k = mem_read (writes a jb pre m) (a k) 12" using assms(1,2) by (auto simp: saves_def)
  also have "... ! unat (x - a k) = writes a jb pre m x" using assms(3) by (rule nth_mem_read)
  finally show ?thesis .
qed

lemma restore_alone:
  assumes "saves a jb ob m is" "k \<in> set is" "unat (x - a k) < 12"
    "\<And>i. i \<in> set is \<Longrightarrow> i \<noteq> k \<Longrightarrow> \<not> unat (x - a i) < 12"
  shows "writes a ob is (writes a jb is m) x = m x"
proof -
  obtain pre post where L: "is = pre @ k # post" using split_list [OF assms(2)] by blast
  have dist: "k \<notin> set pre" "k \<notin> set post" using assms(1) by (auto simp: saves_def L)
  then have "writes a ob is (writes a jb is m) x = writes a jb pre m x"
    using assms(3,4) by (intro restore_last [OF assms(1) L]) (auto simp: L)
  also have "... = m x"
    using assms(1,4) dist by (intro writes_out) (fastforce simp: L saves_def)
  finally show ?thesis .
qed

lemma installed_made:
  fixes c :: cfg and e :: hm_env and fns :: "string \<Rightarrow> u32" and m :: mem
  assumes "he_grants e" "he_main e \<noteq> 0"
  defines "s \<equiv> hm_loaded fns m"
  defines "t \<equiv> fold (\<lambda>i s. snd (make_hook e i s)) (installed c) s"
  shows "saves (tgt e s) (jump e s) (\<lambda>i. hs_orig (hm_stub t i)) m (installed c)"
    "\<exists>u. restore_all_hooks e t = (True, u) \<and>
       hm_mem u = writes (tgt e s) (\<lambda>i. hs_orig (hm_stub t i)) (installed c) (writes (tgt e s) (jump e s) (installed c) m)"
proof -
  have s0: "hm_mem s = m" "hm_hooks s = []" "hm_syshooks s = []" by (simp_all add: s_def hm_loaded_def)
  have "\<not> hooked s i" if "i \<in> set (installed c)" for i
    using installed_fields(2) [OF that] by (simp add: s_def hm_loaded_def hooked_def stub_record_def)
  from make_list [OF assms(1,2), of "installed c" s, OF installed_fields(1) this, folded t_def]
  have made: "hm_mem t = writes (tgt e s) (jump e s) (installed c) m" "hm_hooks t = installed c" "hm_syshooks t = []"
    "\<forall>i\<in>set (installed c). hooked t i" "\<forall>k. tgt e t k = tgt e s k"
    and orig: "\<And>pre i post. installed c = pre @ i # post \<Longrightarrow>
      hs_orig (hm_stub t i) = mem_read (writes (tgt e s) (jump e s) pre m) (tgt e s i) 12"
    unfolding Let_def s0 by simp_all
  show "saves (tgt e s) (jump e s) (\<lambda>i. hs_orig (hm_stub t i)) m (installed c)"
    using orig installed_fields(1) by (auto simp: saves_def jump_def)
  have at: "tgt e t = tgt e s" using made(5) by (simp add: fun_eq_iff)
  obtain ok u where r: "restore_while_ok (restore_hook e) (installed c) True t = (ok, u)" by fastforce
  from restore_list [OF assms(1), of "installed c" t] made(3,4) r at installed_fields(1) [of c]
  show "\<exists>u. restore_all_hooks e t = (True, u) \<and>
       hm_mem u = writes (tgt e s) (\<lambda>i. hs_orig (hm_stub t i)) (installed c) (writes (tgt e s) (jump e s) (installed c) m)"
    by (simp add: made(1,2) restore_all_hooks_def)
qed

lemma loaded_window:
  assumes "i \<in> set (installed c)"
  shows "unat (x - tgt e (hm_loaded fns m) i) = window e i x"
  using installed_fields(2) [OF assms] by (simp add: hm_loaded_def tgt_def window_def stub_addr_def stub_record_def)

text \<open>Every byte of the game after loading and unloading: the last two stubs at one address leave the first one's jump.\<close>

lemma unloaded_byte:
  assumes "saves (tgt e s) (jump e s) ob m (installed c)" "s = hm_loaded fns m"
  shows "writes (tgt e s) ob (installed c) (writes (tgt e s) (jump e s) (installed c) m) x =
    mem_write (tgt e s 27) (jump e s 27) m x"
proof -
  note win = loaded_window [of _ c x e fns m, folded assms(2)]
  have len: "length (jump e s 27) = 5" by (simp add: jump_def)
  obtain pre post where L: "installed c = pre @ 27 # 28 # post" and pre: "27 \<notin> set pre" "28 \<notin> set pre"
    using installed_split [of c] by blast
  have in_L: "27 \<in> set (installed c)" "28 \<in> set (installed c)" by (simp_all add: installed_fields)
  have out: "mem_write (tgt e s 27) (jump e s 27) m x = m x" if "\<not> window e 27 x < 12"
    using that win [OF in_L(1)] len by (simp add: mem_write_def)
  show ?thesis
  proof (cases "window e 27 x < 12")
    case True
    then have w28: "window e 28 x < 12" by (simp add: window_def same_addr)
    have others: "\<not> window e i x < 12" if "i \<in> set (installed c)" "i \<noteq> 27" "i \<noteq> 28" for i
      using installed_apart [of 27 c i e x] that in_L True by auto
    have "28 \<notin> set post" "27 \<notin> set post" using installed_fields(1) [of c] by (auto simp: L)
    then have "writes (tgt e s) ob (installed c) (writes (tgt e s) (jump e s) (installed c) m) x =
        writes (tgt e s) (jump e s) (pre @ [27]) m x"
      using L win others w28 by (intro restore_last [OF assms(1), where post = post and k = 28]) auto
    also have "... = mem_write (tgt e s 27) (jump e s 27) (writes (tgt e s) (jump e s) pre m) x" by simp
    also have "writes (tgt e s) (jump e s) pre m x = m x"
      using others win pre L by (intro writes_out) (fastforce simp: jump_def)
    then have "mem_write (tgt e s 27) (jump e s 27) (writes (tgt e s) (jump e s) pre m) x =
      mem_write (tgt e s 27) (jump e s 27) m x" by (simp add: mem_write_def)
    finally show ?thesis .
  next
    case False
    then have no28: "\<not> window e 28 x < 12" by (simp add: window_def same_addr)
    show ?thesis
    proof (cases "\<exists>k\<in>set (installed c). window e k x < 12")
      case True
      then obtain k where k: "k \<in> set (installed c)" "window e k x < 12" by blast
      have "k \<notin> {27, 28}" using k False no28 by auto
      then have "\<not> window e i x < 12" if "i \<in> set (installed c)" "i \<noteq> k" for i
        using installed_apart [of k c i e x] that k by auto
      then show ?thesis using restore_alone [OF assms(1) k(1)] win k out [OF False] by simp
    next
      case none: False
      then show ?thesis using restore_untouched [OF assms(1), of x] win out [OF False] by simp
    qed
  qed
qed

text \<open> C40: With the system hooks off and Windows refusing nothing, loading the library and unloading it does not give the game its code back: the
  two string detours at 0xCF1A90 each save what they find there, the second the jump of the first, and as the stubs are
  restored in the order they were made, that jump is written last and leads into the unloaded library. Every other byte is the
  original one.\<close>

theorem unload_leaves_jump:
  assumes "he_grants e" "he_main e \<noteq> 0" "disable_syshooks c"
  shows "case restore_all_hooks e (install_hooks fuel c e fns dll_module (hm_loaded fns m)) of (ok, u) \<Rightarrow>
    ok \<and> hm_mem u = mem_write (target_of e 0xCF1A90) (jump_patch (target_of e 0xCF1A90) (fns ''rstring_concatenate'')) m"
proof -
  let ?s = "hm_loaded fns m"
  have "hm_stub ?s 27 = stub_record fns (all_targets ! 27)" by (simp add: hm_loaded_def targets_length)
  then have at: "tgt e ?s 27 = target_of e 0xCF1A90"
    "jump e ?s 27 = jump_patch (target_of e 0xCF1A90) (fns ''rstring_concatenate'')"
    using same_addr(2) name27 by (simp_all add: jump_def tgt_def stub_record_def stub_addr_def)
  show ?thesis
    using installed_made(2) [OF assms(1,2), where fns = fns and m = m and c = c]
      unloaded_byte [OF installed_made(1) [OF assms(1,2)] refl, where fns = fns and m = m and c = c]
    by (auto simp: install_is_list [OF assms(3)] at fun_eq_iff)
qed

theorem unload_leaves_jump_witness:
  "case restore_all_hooks demo_he (install_hooks 0 (default_cfg\<lparr>disable_syshooks := True\<rparr>) demo_he (\<lambda>_. 0x10001000) 0
     (hm_loaded (\<lambda>_. 0x10001000) (\<lambda>_. 0x90))) of (ok, u) \<Rightarrow> ok \<and> hm_mem u 0xCF1A90 = 0xE9 \<and> hm_mem u 0x42A010 = 0x90"
  using unload_leaves_jump [where e = demo_he and c = "default_cfg\<lparr>disable_syshooks := True\<rparr>" and fuel = 0
      and dll_module = 0 and fns = "\<lambda>_. 0x10001000" and m = "\<lambda>_. 0x90"]
  by (simp add: demo_he_def he_grants_def target_of_def mem_write_def jump_patch_def le4_def split: prod.splits)

end
