(* ===== verification/Diagnostics.thy ===== *)
theory Diagnostics
  imports JsonEscape HandlerPipe Nav Logging
begin

text \<open>
  The outgoing diagnostics: \<open>src/diagnostics/namedpipe.cpp\<close> (the pipe object) and \<open>src/diagnostics/handlers.cpp\<close> (start,
  stop and the messages). Whether \<open>CreateFileA\<close> opens the pipe is a list of answers, none left is a failure; what
  \<open>WriteFile\<close> is called with is a list of texts, its answers are not looked at by the code. Texts are bytes without
  the terminating zero. Locks and thread switches are not modelled.
\<close>

section \<open>State\<close>

record diag =
  dg_started :: bool              \<comment> \<open>\<open>g_diagnostics_started\<close>\<close>
  dg_handling :: int              \<comment> \<open>\<open>g_handling_exception\<close>\<close>
  dg_last_stage :: "u8 list"      \<comment> \<open>\<open>g_last_game_stage\<close>\<close>
  dg_pipe :: "bool option"        \<comment> \<open>\<open>g_pipe\<close>: null, or an object and whether its handle is valid\<close>
  dg_lost :: nat                  \<comment> \<open>pipe objects nothing points to any more\<close>
  dg_veh :: bool                  \<comment> \<open>\<open>g_veh_handle\<close> is set\<close>
  dg_filter :: bool               \<comment> \<open>\<open>unhandled_exception_handler\<close> is the process's filter\<close>
  dg_minidump :: bool             \<comment> \<open>\<open>g_minidump_fn\<close> is set\<close>
  dg_park :: int                  \<comment> \<open>\<open>g_av_park\<close>\<close>
  dg_opens :: "bool list"         \<comment> \<open>answers of \<open>CreateFileA\<close> to come\<close>
  dg_written :: "u8 list list"    \<comment> \<open>calls of \<open>WriteFile\<close>, oldest first\<close>
  dg_hp :: hp
  dg_nav :: nav

record diag_env =
  dn_pid :: u32
  dn_tid :: u32
  dn_veh_ok :: bool               \<comment> \<open>\<open>AddVectoredExceptionHandler\<close> succeeds\<close>
  dn_dbghelp :: bool              \<comment> \<open>dbghelp.dll and its function are there\<close>
  dn_thread_ok :: bool            \<comment> \<open>\<open>CreateThread\<close> succeeds\<close>

section \<open>The pipe object\<close>

definition create_file :: "diag \<Rightarrow> bool \<times> diag" where
  "create_file d = (case dg_opens d of [] \<Rightarrow> (False, d) | a # as \<Rightarrow> (a, d\<lparr>dg_opens := as\<rparr>))"

text \<open>The constructor, \<open>NamedPipe::connect_pipe\<close> on an object with the given handle, and writing a line.\<close>

definition new_pipe :: "diag \<Rightarrow> diag" where
  "new_pipe d = (let (ok, d1) = create_file d in d1\<lparr>dg_pipe := Some ok\<rparr>)"

definition pipe_connect :: "bool \<Rightarrow> diag \<Rightarrow> bool \<times> diag" where
  "pipe_connect valid d =
     (if valid then (True, d) else let (ok, d1) = create_file d in (ok, d1\<lparr>dg_pipe := Some ok\<rparr>))"

definition write_line_unlocked :: "u8 list option \<Rightarrow> diag \<Rightarrow> diag res" where
  "write_line_unlocked line d =
     (case dg_pipe d of
        None \<Rightarrow> Inl NullDeref
      | Some valid \<Rightarrow>
          (case line of
             None \<Rightarrow> Inr d
           | Some l \<Rightarrow> let (ok, d1) = pipe_connect valid d
                      in Inr (if ok then d1\<lparr>dg_written := dg_written d1 @ [l, [10]]\<rparr> else d1)))"

definition write_line_locked :: "u8 list option \<Rightarrow> diag \<Rightarrow> diag res" where
  "write_line_locked line d = write_line_unlocked line d"

text \<open>\<open>Diagnostics::connect_pipe\<close>, and \<open>g_pipe = connect_pipe()\<close>, which forgets an object that is not connected.\<close>

definition connect_pipe :: "diag \<Rightarrow> bool \<times> diag" where
  "connect_pipe d =
     (let d1 = (if dg_pipe d = None then new_pipe d else d) in pipe_connect (dg_pipe d1 = Some True) d1)"

definition take_pipe :: "diag \<Rightarrow> bool \<times> diag" where
  "take_pipe d =
     (let (ok, d1) = connect_pipe d
      in if ok then (True, d1) else (False, d1\<lparr>dg_pipe := None, dg_lost := dg_lost d1 + 1\<rparr>))"

section \<open>Printing into fixed buffers\<close>

text \<open>
  \<open>_snprintf_s\<close> with \<open>_TRUNCATE\<close> at \<open>line + pos\<close> of a buffer of \<open>cap\<close> bytes: the number of
  characters, or -1 when the text was cut, and the C string in the buffer.
\<close>

definition print_at :: "nat \<Rightarrow> nat \<Rightarrow> u8 list \<Rightarrow> u8 list \<Rightarrow> int \<times> u8 list" where
  "print_at pos cap txt line =
     (if length txt < cap - pos then (int (length txt), take pos line @ txt)
      else (- 1, take pos line @ take (cap - pos - 1) txt))"

definition dec :: "nat \<Rightarrow> u8 list" where
  "dec n = ascii (show_nat n)"

definition hex8 :: "u32 \<Rightarrow> u8 list" where
  "hex8 w = ascii (show_hex8_upper w)"

fun show_hex_upper :: "nat \<Rightarrow> string" where
  "show_hex_upper n =
     (if n < 16 then [char_nibble True n] else show_hex_upper (n div 16) @ [char_nibble True (n mod 16)])"

declare show_hex_upper.simps [simp del]

text \<open>\<open>json_escape\<close> into a buffer of its own; a byte nobody wrote is a zero here, the terminator is written before any.\<close>

definition escape_into :: "nat \<Rightarrow> u8 list \<Rightarrow> u8 list res" where
  "escape_into cap s = bindR (json_escape (replicate cap 0) cap (Some s)) (\<lambda>b. Inr (c_string b))"

definition prologue :: "diag_env \<Rightarrow> u8 list \<Rightarrow> u8 list" where
  "prologue e type = ascii ''{\"type\":\"'' @ type @ ascii ''\",\"pid\":'' @ dec (unat (dn_pid e)) @ ascii '',\"tid\":''
     @ dec (unat (dn_tid e))"

definition write_emit_prologue :: "diag_env \<Rightarrow> u8 list \<Rightarrow> nat \<Rightarrow> u8 list \<Rightarrow> bool \<times> u8 list" where
  "write_emit_prologue e type cap rest =
     (let (pos, line) = print_at 0 cap (prologue e type) []
      in if pos \<ge> 0 then (let (pos', line') = print_at (nat pos) cap rest line in (pos' \<ge> 0, line')) else (False, line))"

section \<open>Messages\<close>

definition emit_message :: "diag_env \<Rightarrow> cfg \<Rightarrow> u8 list \<Rightarrow> u8 list option \<Rightarrow> diag \<Rightarrow> diag res" where
  "emit_message e c type msg d =
     (if \<not> pipes c then Inr d
      else let (ok, d1) = take_pipe d in
      case (if ok then msg else None) of
        None \<Rightarrow> Inr d1
      | Some s \<Rightarrow>
          bindR (escape_into 1024 s) (\<lambda>escaped.
          let (fits, line) = write_emit_prologue e type 2048 (ascii '',\"message\":\"'' @ escaped @ ascii ''\"}'')
          in if fits then write_line_locked (Some line) d1 else Inr d1))"

definition emit_game_stage :: "diag_env \<Rightarrow> cfg \<Rightarrow> u8 list option \<Rightarrow> diag \<Rightarrow> diag res" where
  "emit_game_stage e c stage d =
     (if \<not> pipes c then Inr d
      else let (ok, d1) = take_pipe d in
      case (if ok then stage else None) of
        None \<Rightarrow> Inr d1
      | Some s \<Rightarrow>
          if take 32 (dg_last_stage d1) = take 32 s then Inr d1
          else let d2 = d1\<lparr>dg_last_stage := snd (print_at 0 32 s [])\<rparr> in
          bindR (escape_into 256 s) (\<lambda>escaped.
          let (fits, line) = write_emit_prologue e (ascii ''game_stage'') 512 (ascii '',\"stage\":\"'' @ escaped @ ascii ''\"}'')
          in if fits then write_line_locked (Some line) d2 else Inr d2))"

definition emit_game_log :: "diag_env \<Rightarrow> cfg \<Rightarrow> u8 list option \<Rightarrow> diag \<Rightarrow> diag res" where
  "emit_game_log e c line d = emit_message e c (ascii ''log'') line d"

definition emit_custom_exception :: "diag_env \<Rightarrow> cfg \<Rightarrow> u8 list option \<Rightarrow> diag \<Rightarrow> diag res" where
  "emit_custom_exception e c msg d = emit_message e c (ascii ''exception'') msg d"

text \<open>An exception: its record, and the registers if there is a context.\<close>

record context_regs =
  c_eip :: u32
  c_esp :: u32
  c_ebp :: u32
  c_eax :: u32
  c_ebx :: u32
  c_ecx :: u32
  c_edx :: u32
  c_esi :: u32
  c_edi :: u32

record exc =
  ex_code :: u32
  ex_flags :: u32
  ex_address :: u32
  ex_params :: nat                \<comment> \<open>\<open>NumberParameters\<close>\<close>
  ex_info :: "nat \<Rightarrow> u32"         \<comment> \<open>\<open>ExceptionInformation\<close>\<close>
  ex_context :: "context_regs option"

definition kAccessViolationC :: u32 where "kAccessViolationC = 0xC0000005"

definition access_kind :: "u32 \<Rightarrow> string" where
  "access_kind k = (if k = 0 then ''read'' else if k = 1 then ''write'' else if k = 8 then ''exec'' else ''?'')"

definition exception_fields :: "diag_env \<Rightarrow> u8 list \<Rightarrow> exc \<Rightarrow> context_regs \<Rightarrow> u8 list" where
  "exception_fields e type x r =
     (let av = ex_code x = kAccessViolationC \<and> ex_params x \<ge> 2;
          access = (if av then access_kind (ex_info x 0) else ''n/a'');
          fault = (if av then ex_info x 1 else 0)
      in prologue e type @ ascii '',\"code\":\"0x'' @ hex8 (ex_code x) @ ascii ''\",\"flags\":\"0x'' @ hex8 (ex_flags x)
         @ ascii ''\",\"access\":\"'' @ ascii access @ ascii ''\",\"fault_addr\":\"0x'' @ hex8 fault
         @ ascii ''\",\"address\":\"0x'' @ hex8 (ex_address x) @ ascii ''\",\"eip\":\"0x'' @ hex8 (c_eip r)
         @ ascii ''\",\"esp\":\"0x'' @ hex8 (c_esp r) @ ascii ''\",\"ebp\":\"0x'' @ hex8 (c_ebp r)
         @ ascii ''\",\"eax\":\"0x'' @ hex8 (c_eax r) @ ascii ''\",\"ebx\":\"0x'' @ hex8 (c_ebx r)
         @ ascii ''\",\"ecx\":\"0x'' @ hex8 (c_ecx r) @ ascii ''\",\"edx\":\"0x'' @ hex8 (c_edx r)
         @ ascii ''\",\"esi\":\"0x'' @ hex8 (c_esi r) @ ascii ''\",\"edi\":\"0x'' @ hex8 (c_edi r) @ ascii ''\"}'')"

definition format_exception_event :: "diag_env \<Rightarrow> nat \<Rightarrow> u8 list option \<Rightarrow> exc \<Rightarrow> u8 list option" where
  "format_exception_event e cap type x =
     (case (type, ex_context x) of
        (Some t, Some r) \<Rightarrow> if cap = 0 then None else Some (snd (print_at 0 cap (exception_fields e t x r) []))
      | _ \<Rightarrow> None)"

definition format_custom_message :: "diag_env \<Rightarrow> nat \<Rightarrow> u8 list option \<Rightarrow> u8 list option \<Rightarrow> u8 list option" where
  "format_custom_message e cap type msg =
     (case (type, msg) of
        (Some t, Some s) \<Rightarrow>
          if cap = 0 then None
          else Some (snd (print_at 0 cap (prologue e t @ ascii '',\"message\":\"'' @ s @ ascii ''\"}'') []))
      | _ \<Rightarrow> None)"

definition pipe_emit_exception_event :: "diag_env \<Rightarrow> u8 list option \<Rightarrow> exc \<Rightarrow> diag \<Rightarrow> diag res" where
  "pipe_emit_exception_event e type x d =
     (case format_exception_event e 1024 type x of None \<Rightarrow> Inr d | Some line \<Rightarrow> write_line_unlocked (Some line) d)"

definition emit_exception_event :: "diag_env \<Rightarrow> cfg \<Rightarrow> u8 list option \<Rightarrow> exc \<Rightarrow> diag \<Rightarrow> diag res" where
  "emit_exception_event e c type x d =
     (let d0 = d\<lparr>dg_handling := 1\<rparr> in
      if dg_handling d \<noteq> 0 then Inr d0
      else bindR (if pipes c then (let (ok, d1) = take_pipe d0 in if ok then pipe_emit_exception_event e type x d1 else Inr d1)
                  else Inr d0) (\<lambda>d1.
           Inr (d1\<lparr>dg_handling := 0\<rparr>)))"

section \<open>ProudNet chunks\<close>

record pn_header =
  ph_payload_len :: u32
  ph_opcode :: u32
  ph_rmi_id :: u32
  ph_body_len :: u32
  ph_has_rmi :: bool

definition frame_text :: "bool \<Rightarrow> pn_header \<Rightarrow> u8 list" where
  "frame_text comma f =
     (if comma then ascii '','' else []) @ ascii ''{\"payload_len\":'' @ dec (unat (ph_payload_len f)) @ ascii '',\"opcode\":''
     @ dec (unat (ph_opcode f)) @ ascii '',\"rmi_id\":'' @ dec (unat (ph_rmi_id f)) @ ascii '',\"body_len\":''
     @ dec (unat (ph_body_len f)) @ ascii '',\"has_rmi\":'' @ ascii (if ph_has_rmi f then ''true'' else ''false'') @ ascii ''}''"

text \<open>The loop over the frames: position and line.\<close>

fun print_frames :: "bool \<Rightarrow> pn_header list \<Rightarrow> nat \<Rightarrow> u8 list \<Rightarrow> nat \<times> u8 list" where
  "print_frames comma [] pos line = (pos, line)"
| "print_frames comma (f # fs) pos line =
     (if pos = 0 then (pos, line)
      else let (n, line1) = print_at pos 2048 (frame_text comma f) line
           in if n < 0 then (pos, line1)
              else let pos1 = pos + nat n
                   in if pos1 \<ge> 2048 - 4 then (pos1, line1) else print_frames True fs pos1 line1)"

definition tcp_header :: "diag_env \<Rightarrow> u32 \<Rightarrow> u32 \<Rightarrow> u8 list option \<Rightarrow> u32 \<Rightarrow> size_t \<Rightarrow> size_t \<Rightarrow> u8 list" where
  "tcp_header e tid port dir sock chunk_len incomplete =
     ascii ''{\"type\":\"proudnet-tcp\",\"pid\":'' @ dec (unat (dn_pid e)) @ ascii '',\"thread_id\":'' @ dec (unat tid)
     @ ascii '',\"port\":'' @ dec (unat port) @ ascii '',\"dir\":\"'' @ (case dir of Some t \<Rightarrow> t | None \<Rightarrow> [])
     @ ascii ''\",\"sock\":\"0x'' @ ascii (show_hex_upper (unat sock)) @ ascii ''\",\"chunk_len\":'' @ dec (unat chunk_len)
     @ ascii '',\"incomplete\":'' @ dec (unat incomplete) @ ascii '',\"frames\":[''"

definition emit_proudnet_tcp :: "diag_env \<Rightarrow> cfg \<Rightarrow> u32 \<Rightarrow> u32 \<Rightarrow> u8 list option \<Rightarrow> u32 \<Rightarrow> size_t \<Rightarrow> pn_header list
    \<Rightarrow> size_t \<Rightarrow> diag \<Rightarrow> diag res" where
  "emit_proudnet_tcp e c tid port dir sock chunk_len frames incomplete d =
     (if \<not> pipes c then Inr d
      else let (ok, d1) = take_pipe d in
      if \<not> ok then Inr d1
      else let (n, line) = print_at 0 2048 (tcp_header e tid port dir sock chunk_len incomplete) []
      in if n < 0 then Inr d1
      else let (pos, line1) = print_frames False frames (nat n) line;
               line2 = (if 0 < pos \<and> pos < 2048 - 2 then snd (print_at pos 2048 (ascii '']}'') line1) else line1)
      in write_line_locked (Some line2) d1)"

definition emit_proudnet_tcp_connect :: "diag_env \<Rightarrow> cfg \<Rightarrow> u32 \<Rightarrow> u32 \<Rightarrow> u8 list option \<Rightarrow> u32 \<Rightarrow> diag \<Rightarrow> diag res" where
  "emit_proudnet_tcp_connect e c tid sock addr port d =
     (if \<not> pipes c then Inr d
      else let (ok, d1) = take_pipe d in
      if \<not> ok then Inr d1
      else bindR (escape_into 128 (case addr of Some a \<Rightarrow> a | None \<Rightarrow> [])) (\<lambda>escaped.
      write_line_locked (Some (snd (print_at 0 384
        (ascii ''{\"type\":\"proudnet-tcp\",\"event\":\"connect\",\"pid\":'' @ dec (unat (dn_pid e)) @ ascii '',\"thread_id\":''
         @ dec (unat tid) @ ascii '',\"port\":'' @ dec (unat port) @ ascii '',\"sock\":\"0x'' @ ascii (show_hex_upper (unat sock))
         @ ascii ''\",\"addr\":\"'' @ escaped @ ascii ''\"}'') []))) d1))"

section \<open>Start and stop\<close>

primrec connect_rounds :: "nat \<Rightarrow> diag \<Rightarrow> bool \<times> diag" where
  "connect_rounds 0 d = (False, d)"
| "connect_rounds (Suc k) d = (let (ok, d1) = take_pipe d in if ok then (True, d1) else connect_rounds k d1)"

definition startup :: "diag_env \<Rightarrow> cfg \<Rightarrow> diag \<Rightarrow> diag res" where
  "startup e c d =
     (if dg_started d then Inr d
      else let d1 = (if disable_veh c then d else d\<lparr>dg_veh := dg_veh d \<or> dn_veh_ok e, dg_filter := True\<rparr>);
               d2 = (if minidump_enabled c \<and> \<not> dg_minidump d1 then d1\<lparr>dg_minidump := dn_dbghelp e\<rparr> else d1);
               d3 = d2\<lparr>dg_park := (if disable_park_thread c then 0 else 1)\<rparr>;
               (ok, d4) = (if pipes c then connect_rounds 50 d3 else (True, d3))
           in if \<not> ok then Inr d4
              else bindR (emit_message e c (ascii ''hello'') (Some (ascii ''version=1'')) (d4\<lparr>dg_started := True\<rparr>)) (\<lambda>d5.
                   bindR (emit_game_stage e c (Some (ascii ''started'')) d5) (\<lambda>d6.
                   Inr (d6\<lparr>dg_hp := pipe_start (dn_thread_ok e) (dg_hp d6)\<rparr>))))"

definition teardown :: "diag \<Rightarrow> diag" where
  "teardown d = d\<lparr>dg_started := False, dg_hp := pipe_stop (dg_hp d), dg_nav := NavTeardown (dg_nav d),
     dg_veh := False, dg_pipe := None\<rparr>"

section \<open>What is written\<close>

lemma show_nat_length: "n < 10 ^ Suc k \<Longrightarrow> length (show_nat n) \<le> Suc k"
proof (induction k arbitrary: n)
  case 0
  then show ?case by (simp add: show_nat.simps)
next
  case (Suc k)
  then show ?case by (subst show_nat.simps) simp
qed

lemma length_ascii [simp]: "length (ascii s) = length s"
  by (simp add: ascii_def)

lemma dec_length: "length (dec (unat (w :: u32))) \<le> 10"
proof -
  have "unat w < 2 ^ 32" using unsigned_less [of w] by simp
  then have "unat w < 10 ^ Suc 9" by simp
  from show_nat_length [OF this] show ?thesis by (simp add: dec_def)
qed

lemma prologue_length: "length (prologue e type) \<le> length type + 46"
  using dec_length [of "dn_pid e"] dec_length [of "dn_tid e"] by (simp add: prologue_def)

lemma escape_into_result:
  assumes "0 < n" "0 \<notin> set s"
  shows "\<exists>k. escape_into n s = Inr (escaped (take k s)) \<and> length (escaped (take k s)) < n
    \<and> (if length (escaped s) < n then k = length s else n \<le> length (escaped (take (Suc k) s)))"
proof -
  from json_escape_text [of "replicate n 0" n s] assms(1) obtain k rest where
    k: "json_escape (replicate n 0) n (Some s) = Inr (escaped (take k s) @ 0 # rest)"
    "length (escaped (take k s)) + 1 + length rest = n"
    "if length (escaped s) < n then k = length s else n \<le> length (escaped (take (Suc k) s))" by auto
  have "0 \<notin> set (take k s)" using assms(2) in_set_takeD by fastforce
  then have "c_string (escaped (take k s) @ 0 # rest) = escaped (take k s)"
    using escaped_no_zero [of "take k s"] unfolding c_string_def
    by (subst takeWhile_append2) auto
  moreover have "length (escaped (take k s)) < n" using k(2) by linarith
  ultimately show ?thesis using k(1,3) by (intro exI [of _ k]) (simp add: escape_into_def)
qed

lemma take_pipe_open: "take_pipe d = (True, d1) \<Longrightarrow> dg_pipe d1 = Some True"
  by (auto simp: take_pipe_def connect_pipe_def pipe_connect_def new_pipe_def create_file_def Let_def
      split: if_splits prod.splits list.splits)

lemma write_line: "dg_pipe d = Some True \<Longrightarrow>
  write_line_locked (Some l) d = Inr (d\<lparr>dg_written := dg_written d @ [l, [10]]\<rparr>)"
  by (simp add: write_line_locked_def write_line_unlocked_def pipe_connect_def)

text \<open>A line that fits after its prologue.\<close>

lemma write_emit_prologue_fits:
  "length (prologue e type) + length rest < cap \<Longrightarrow>
   write_emit_prologue e type cap rest = (True, prologue e type @ rest)"
  by (simp add: write_emit_prologue_def print_at_def Let_def)

definition message_line :: "diag_env \<Rightarrow> u8 list \<Rightarrow> u8 list \<Rightarrow> u8 list" where
  "message_line e type msg = prologue e type @ ascii '',\"message\":\"'' @ escaped msg @ ascii ''\"}''"

lemma emit_message_result:
  assumes "pipes c" "take_pipe d = (True, d1)" "0 \<notin> set s" "length type \<le> 900"
  shows "\<exists>k. emit_message e c type (Some s) d = Inr (d1\<lparr>dg_written := dg_written d1 @ [message_line e type (take k s), [10]]\<rparr>)
    \<and> length (message_line e type (take k s)) < 2048
    \<and> (if length (escaped s) < 1024 then k = length s else 1024 \<le> length (escaped (take (Suc k) s)))"
proof -
  from escape_into_result [of 1024 s] assms(3) obtain k where
    k: "escape_into 1024 s = Inr (escaped (take k s))" "length (escaped (take k s)) < 1024"
      "if length (escaped s) < 1024 then k = length s else 1024 \<le> length (escaped (take (Suc k) s))" by auto
  let ?rest = "ascii '',\"message\":\"'' @ escaped (take k s) @ ascii ''\"}''"
  have len: "length (prologue e type) + length ?rest < 2048" using prologue_length [of e type] assms(4) k(2) by simp
  then have "length (message_line e type (take k s)) < 2048" by (simp add: message_line_def)
  then show ?thesis using assms(1,2) k(1,3) write_emit_prologue_fits [OF len] write_line [OF take_pipe_open [OF assms(2)]]
    by (intro exI [of _ k]) (simp add: emit_message_def message_line_def)
qed

text \<open>A message that finds the pipe open is written as one whole JSON line and a line feed, whatever its length and bytes: the
  text between its quotes is the escape of the longest prefix whose escape stays below 1024 bytes, and reads back as that
  prefix.\<close>

theorem message_line_complete:
  assumes "pipes c" "take_pipe d = (True, d1)" "0 \<notin> set s" "length type \<le> 900"
  shows "\<exists>k. emit_message e c type (Some s) d = Inr (d1\<lparr>dg_written := dg_written d1 @
      [prologue e type @ ascii '',\"message\":\"'' @ escaped (take k s) @ ascii ''\"}'', [10]]\<rparr>)
    \<and> unescape (escaped (take k s)) = Some (take k s)
    \<and> (if length (escaped s) < 1024 then k = length s else 1024 \<le> length (escaped (take (Suc k) s)))"
  using emit_message_result [OF assms] unescape_escaped unfolding message_line_def by blast

definition quiet_diag :: diag where
  "quiet_diag = \<lparr>dg_started = False, dg_handling = 0, dg_last_stage = [], dg_pipe = None, dg_lost = 0, dg_veh = False,
     dg_filter = False, dg_minidump = False, dg_park = 0, dg_opens = [], dg_written = [], dg_hp = hp_start, dg_nav = nav_start\<rparr>"

definition demo_dn :: diag_env where
  "demo_dn = \<lparr>dn_pid = 7, dn_tid = 9, dn_veh_ok = True, dn_dbghelp = True, dn_thread_ok = True\<rparr>"

theorem message_line_complete_witness:
  "\<exists>d'. emit_message demo_dn default_cfg (ascii ''log'') (Some [34, 65]) (quiet_diag\<lparr>dg_pipe := Some True\<rparr>) = Inr d' \<and>
     dg_written d' = [ascii ''{\"type\":\"log\",\"pid\":7,\"tid\":9'' @ ascii '',\"message\":\"'' @ [92, 34, 65] @ ascii ''\"}'', [10]]"
proof -
  have c: "pipes default_cfg" by (simp add: default_cfg_def)
  have t: "take_pipe (quiet_diag\<lparr>dg_pipe := Some True\<rparr>) = (True, quiet_diag\<lparr>dg_pipe := Some True\<rparr>)"
    by (simp add: take_pipe_def connect_pipe_def pipe_connect_def)
  have p: "prologue demo_dn (ascii ''log'') = ascii ''{\"type\":\"log\",\"pid\":7,\"tid\":9''"
    by (simp add: prologue_def demo_dn_def dec_def show_nat.simps char_nibble_def char_of_def ascii_def bit_Suc_0_iff)
  have "escaped [34, 65] = [92, 34, 65]" by (simp add: esc_def)
  then show ?thesis using message_line_complete [OF c t, of "[34, 65]" "ascii ''log''" demo_dn]
    by (auto simp: p quiet_diag_def)
qed

section \<open>Stages\<close>

lemma escaped_length: "length (escaped s) \<le> 6 * length s"
  by (induction s) (auto simp: esc_def print_u_def)

lemma take_pipe_same: "dg_pipe d = Some True \<Longrightarrow> take_pipe d = (True, d)"
  by (simp add: take_pipe_def connect_pipe_def pipe_connect_def)

text \<open>A stage name below 32 characters goes out once: while the pipe is open, telling it again writes nothing, and another
  stage in between makes it news again.\<close>

theorem stage_told_once:
  assumes "pipes c" "dg_pipe d = Some True" "length (dg_last_stage d) < 32" "0 \<notin> set s" "length s < 32"
  shows "\<exists>d1. emit_game_stage e c (Some s) d = Inr d1 \<and> emit_game_stage e c (Some s) d1 = Inr d1 \<and> dg_last_stage d1 = s
    \<and> dg_written d1 = dg_written d @ (if dg_last_stage d = s then []
        else [prologue e (ascii ''game_stage'') @ ascii '',\"stage\":\"'' @ escaped s @ ascii ''\"}'', [10]])"
proof (cases "dg_last_stage d = s")
  case True
  then show ?thesis using assms(1) take_pipe_same [OF assms(2)] by (simp add: emit_game_stage_def)
next
  case False
  let ?d = "d\<lparr>dg_last_stage := s\<rparr>" and ?rest = "ascii '',\"stage\":\"'' @ escaped s @ ascii ''\"}''"
  let ?d1 = "?d\<lparr>dg_written := dg_written ?d @ [prologue e (ascii ''game_stage'') @ ?rest, [10]]\<rparr>"
  have "length (escaped s) < 256" using escaped_length [of s] assms(5) by simp
  with escape_into_result [of 256 s] assms(4) have esc: "escape_into 256 s = Inr (escaped s)" by auto
  have "length (prologue e (ascii ''game_stage'')) + length ?rest < 512"
    using prologue_length [of e "ascii ''game_stage''"] escaped_length [of s] assms(5) by simp
  note fits = write_emit_prologue_fits [OF this]
  have "write_line_locked (Some (prologue e (ascii ''game_stage'') @ ?rest)) ?d = Inr ?d1"
    using assms(2) by (intro write_line) simp
  then have "emit_game_stage e c (Some s) d = Inr ?d1"
    using False assms take_pipe_same [OF assms(2)] esc fits
    by (simp add: emit_game_stage_def print_at_def Let_def del: append_assoc)
  moreover have "emit_game_stage e c (Some s) ?d1 = Inr ?d1"
    using assms(1,2) take_pipe_same [of ?d1] by (simp add: emit_game_stage_def)
  ultimately show ?thesis using False by (intro exI [of _ ?d1]) simp
qed

theorem stage_told_once_witness:
  "\<exists>d1. emit_game_stage demo_dn default_cfg (Some [108, 111]) (quiet_diag\<lparr>dg_pipe := Some True\<rparr>) = Inr d1
    \<and> length (dg_written d1) = 2 \<and> emit_game_stage demo_dn default_cfg (Some [108, 111]) d1 = Inr d1"
  using stage_told_once [of default_cfg "quiet_diag\<lparr>dg_pipe := Some True\<rparr>" "[108, 111]" demo_dn]
  by (auto simp: default_cfg_def quiet_diag_def)

section \<open>Lines of chunks\<close>

fun frames_text :: "bool \<Rightarrow> pn_header list \<Rightarrow> u8 list" where
  "frames_text comma [] = []"
| "frames_text comma (f # fs) = frame_text comma f @ frames_text True fs"

lemma frame_text_nonempty: "0 < length (frame_text comma f)"
  by (simp add: frame_text_def)

lemma print_frames_prefix:
  "0 < length line \<Longrightarrow> length line < 2044 \<Longrightarrow>
   \<exists>k line'. k \<le> length fs \<and> print_frames comma fs (length line) line = (length (line @ frames_text comma (take k fs)), line')
     \<and> length (line @ frames_text comma (take k fs)) < 2048
     \<and> take (length (line @ frames_text comma (take k fs))) line' = line @ frames_text comma (take k fs)
     \<and> (2044 \<le> length (line @ frames_text comma (take k fs)) \<longrightarrow> line' = line @ frames_text comma (take k fs))
     \<and> (k = length fs \<or> 2044 \<le> length (line @ frames_text comma (take k fs))
        \<or> 2048 \<le> length (line @ frames_text comma (take (Suc k) fs)))"
proof (induction fs arbitrary: comma line)
  case Nil
  then show ?case by simp
next
  case (Cons f fs)
  let ?t = "frame_text comma f"
  have pos: "length line \<noteq> 0" using Cons.prems(1) by simp
  consider (cut) "2048 \<le> length line + length ?t" | (last) "2044 \<le> length line + length ?t" "length line + length ?t < 2048"
    | (more) "length line + length ?t < 2044" by linarith
  then show ?case
  proof cases
    case cut
    then have "print_frames comma (f # fs) (length line) line = (length line, line @ take (2047 - length line) ?t)"
      using pos Cons.prems(2) cut by (auto simp: print_at_def Let_def)
    then show ?thesis using cut Cons.prems(2) by (intro exI [of _ 0]) simp
  next
    case last
    then have "print_frames comma (f # fs) (length line) line = (length (line @ ?t), line @ ?t)"
      using pos last by (auto simp: print_at_def Let_def)
    then show ?thesis using last by (intro exI [of _ "Suc 0"]) simp
  next
    case more
    then have step: "print_frames comma (f # fs) (length line) line = print_frames True fs (length (line @ ?t)) (line @ ?t)"
      using pos more by (auto simp add: print_at_def Let_def)
    have len: "0 < length (line @ ?t)" "length (line @ ?t) < 2044" using more frame_text_nonempty [of comma f] by simp_all
    from Cons.IH [OF len, of True] obtain k line' where "k \<le> length fs"
      "print_frames True fs (length (line @ ?t)) (line @ ?t) = (length ((line @ ?t) @ frames_text True (take k fs)), line')"
      "length ((line @ ?t) @ frames_text True (take k fs)) < 2048"
      "take (length ((line @ ?t) @ frames_text True (take k fs))) line' = (line @ ?t) @ frames_text True (take k fs)"
      "2044 \<le> length ((line @ ?t) @ frames_text True (take k fs)) \<longrightarrow> line' = (line @ ?t) @ frames_text True (take k fs)"
      "k = length fs \<or> 2044 \<le> length ((line @ ?t) @ frames_text True (take k fs))
        \<or> 2048 \<le> length ((line @ ?t) @ frames_text True (take (Suc k) fs))" by blast
    then show ?thesis using step by (intro exI [of _ "Suc k"] exI [of _ line']) simp
  qed
qed

lemma chunk_line_result:
  fixes e :: diag_env and tid port sock :: u32 and dir :: "u8 list option" and len rest :: size_t
  assumes "pipes c" "take_pipe d = (True, d1)" "length (tcp_header e tid port dir sock len rest) < 2044"
  shows "\<exists>k \<le> length frames. let body = tcp_header e tid port dir sock len rest @ frames_text False (take k frames) in
     emit_proudnet_tcp e c tid port dir sock len frames rest d = Inr (d1\<lparr>dg_written := dg_written d1 @
       [body @ (if length body < 2046 then ascii '']}'' else []), [10]]\<rparr>)
     \<and> length body < 2048
     \<and> (k = length frames \<or> 2044 \<le> length body
        \<or> 2048 \<le> length (tcp_header e tid port dir sock len rest @ frames_text False (take (Suc k) frames)))"
proof -
  let ?h = "tcp_header e tid port dir sock len rest"
  have h: "print_at 0 2048 ?h [] = (int (length ?h), ?h)" using assms(3) by (simp add: print_at_def)
  have "0 < length ?h" by (simp add: tcp_header_def)
  from print_frames_prefix [OF this assms(3), of frames False] obtain k line' where
    k: "k \<le> length frames" and run: "print_frames False frames (length ?h) ?h = (length (?h @ frames_text False (take k frames)), line')"
    and len: "length (?h @ frames_text False (take k frames)) < 2048"
    and body: "take (length (?h @ frames_text False (take k frames))) line' = ?h @ frames_text False (take k frames)"
      "2044 \<le> length (?h @ frames_text False (take k frames)) \<longrightarrow> line' = ?h @ frames_text False (take k frames)"
    and max: "k = length frames \<or> 2044 \<le> length (?h @ frames_text False (take k frames))
        \<or> 2048 \<le> length (?h @ frames_text False (take (Suc k) frames))" by blast
  define b where "b = ?h @ frames_text False (take k frames)"
  have b0: "0 < length b" using \<open>0 < length ?h\<close> by (simp add: b_def)
  have "emit_proudnet_tcp e c tid port dir sock len frames rest d
      = write_line_locked (Some (b @ (if length b < 2046 then ascii '']}'' else []))) d1"
    using assms(1,2) h run len body b0 unfolding b_def [symmetric]
    by (auto simp: emit_proudnet_tcp_def Let_def print_at_def)
  then show ?thesis using k len max write_line [OF take_pipe_open [OF assms(2)]]
    unfolding b_def [symmetric] by (intro exI [of _ k]) (simp add: b_def Let_def)
qed

text \<open>When all frames fit they are all there, and the line may still end open.\<close>

lemma frames_text_step:
  "k < length fs \<Longrightarrow> length (frames_text comma (take k fs)) + 4 \<le> length (frames_text comma (take (Suc k) fs))
    \<and> length (frames_text comma (take (Suc k) fs)) \<le> length (frames_text comma fs)"
proof (induction fs arbitrary: comma k)
  case Nil
  then show ?case by simp
next
  case (Cons f fs)
  show ?case
  proof (cases k)
    case 0
    then show ?thesis by (simp add: frame_text_def)
  next
    case (Suc j)
    then have "j < length fs" using Cons.prems by simp
    from Cons.IH [OF this, of True] Suc show ?thesis by (simp add: add.commute)
  qed
qed

lemma chunk_line_all:
  fixes e :: diag_env and tid port sock :: u32 and dir :: "u8 list option" and len rest :: size_t
  defines "h \<equiv> tcp_header e tid port dir sock len rest"
  assumes "pipes c" "take_pipe d = (True, d1)" "length h < 2044" "length h + length (frames_text False frames) < 2048"
  shows "emit_proudnet_tcp e c tid port dir sock len frames rest d = Inr (d1\<lparr>dg_written := dg_written d1 @
    [h @ frames_text False frames @ (if length h + length (frames_text False frames) < 2046 then ascii '']}'' else []), [10]]\<rparr>)"
proof -
  from chunk_line_result [OF assms(2,3), of e tid port dir sock len rest frames] assms(4) obtain k where
    k: "k \<le> length frames" "emit_proudnet_tcp e c tid port dir sock len frames rest d = Inr (d1\<lparr>dg_written := dg_written d1 @
       [h @ frames_text False (take k frames) @ (if length (h @ frames_text False (take k frames)) < 2046 then ascii '']}'' else []), [10]]\<rparr>)"
    "k = length frames \<or> 2044 \<le> length h + length (frames_text False (take k frames))
        \<or> 2048 \<le> length h + length (frames_text False (take (Suc k) frames))" by (auto simp: h_def Let_def)
  have "k = length frames"
  proof (rule ccontr)
    assume "k \<noteq> length frames"
    then have "k < length frames" using k(1) by simp
    from frames_text_step [OF this, of False] k(3) assms(5) \<open>k \<noteq> length frames\<close> show False by linarith
  qed
  then show ?thesis using k(2) by simp
qed

text \<open> C37: The line of a traced chunk holds the header and then whole frames in order, as many as stay below the limit; it is
  closed by the brackets unless those frames end at byte 2046 or 2047, when the line goes out as a text that is no JSON.\<close>

theorem chunk_line_shape:
  fixes e :: diag_env and tid port sock :: u32 and dir :: "u8 list option" and len rest :: size_t
  assumes "pipes c" "take_pipe d = (True, d1)" "length (tcp_header e tid port dir sock len rest) < 2044"
  shows "\<exists>k \<le> length frames. let body = tcp_header e tid port dir sock len rest @ frames_text False (take k frames) in
     emit_proudnet_tcp e c tid port dir sock len frames rest d = Inr (d1\<lparr>dg_written := dg_written d1 @
       [body @ (if length body < 2046 then ascii '']}'' else []), [10]]\<rparr>)
     \<and> length body < 2048
     \<and> (k = length frames \<or> 2044 \<le> length body
        \<or> 2048 \<le> length (tcp_header e tid port dir sock len rest @ frames_text False (take (Suc k) frames)))"
  using chunk_line_result [OF assms] .

definition demo_frame :: "u32 \<Rightarrow> pn_header" where
  "demo_frame n = \<lparr>ph_payload_len = n, ph_opcode = 1, ph_rmi_id = 1, ph_body_len = 1, ph_has_rmi = True\<rparr>"

definition demo_frames :: "pn_header list" where
  "demo_frames = demo_frame 1 # replicate 3 (demo_frame 1) @ replicate 24 (demo_frame 10)"

lemma frames_text_replicate:
  "frames_text True (replicate n f @ fs) = concat (replicate n (frame_text True f)) @ frames_text True fs"
  by (induction n) simp_all

lemma demo_frames_length: "length (frames_text False demo_frames) = 1927"
proof -
  have l: "length (frame_text False (demo_frame 1)) = 67" "length (frame_text True (demo_frame 1)) = 68"
    "length (frame_text True (demo_frame 10)) = 69"
    by (simp_all add: frame_text_def demo_frame_def dec_def show_nat.simps)
  have "frames_text False demo_frames = frame_text False (demo_frame 1) @ concat (replicate 3 (frame_text True (demo_frame 1)))
      @ concat (replicate 24 (frame_text True (demo_frame 10)))"
    unfolding demo_frames_def using frames_text_replicate [of 24 "demo_frame 10" "[]"]
    by (simp only: frames_text.simps frames_text_replicate append_Nil2)
  then show ?thesis by (simp add: l length_concat sum_list_replicate)
qed

lemma demo_header_length: "length (tcp_header demo_dn 9 1 (Some [114, 120]) 5 356 0) = 119"
  by (simp add: tcp_header_def demo_dn_def dec_def show_nat.simps show_hex_upper.simps)

theorem chunk_line_shape_witness:
  "\<exists>body. emit_proudnet_tcp demo_dn default_cfg 9 1 (Some [114, 120]) 5 356 demo_frames 0 (quiet_diag\<lparr>dg_pipe := Some True\<rparr>)
     = Inr (quiet_diag\<lparr>dg_pipe := Some True, dg_written := [body, [10]]\<rparr>)"
proof -
  have c: "pipes default_cfg" by (simp add: default_cfg_def)
  have t: "take_pipe (quiet_diag\<lparr>dg_pipe := Some True\<rparr>) = (True, quiet_diag\<lparr>dg_pipe := Some True\<rparr>)" by (simp add: take_pipe_same)
  have "length (tcp_header demo_dn 9 1 (Some [114, 120]) 5 356 0) < 2044" by (simp add: demo_header_length)
  from chunk_line_shape [OF c t this, of demo_frames] show ?thesis by (auto simp: Let_def quiet_diag_def)
qed

text \<open>28 frames in 356 bytes make such a line: it ends with the last frame.\<close>

lemma chunk_line_left_open:
  "emit_proudnet_tcp demo_dn default_cfg 9 1 (Some [114, 120]) 5 356 demo_frames 0 (quiet_diag\<lparr>dg_pipe := Some True\<rparr>)
     = Inr (quiet_diag\<lparr>dg_pipe := Some True, dg_written :=
         [tcp_header demo_dn 9 1 (Some [114, 120]) 5 356 0 @ frames_text False demo_frames, [10]]\<rparr>)"
proof -
  have c: "pipes default_cfg" by (simp add: default_cfg_def)
  have t: "take_pipe (quiet_diag\<lparr>dg_pipe := Some True\<rparr>) = (True, quiet_diag\<lparr>dg_pipe := Some True\<rparr>)" by (simp add: take_pipe_same)
  show ?thesis using chunk_line_all [OF c t, of demo_dn 9 1 "Some [114, 120]" 5 356 0 demo_frames]
    by (simp add: demo_header_length demo_frames_length quiet_diag_def)
qed

section \<open>A pipe nobody listens on\<close>

lemma take_pipe_refused:
  assumes "dg_pipe d = None" "\<forall>a \<in> set (dg_opens d). \<not> a"
  shows "take_pipe d = (False, d\<lparr>dg_lost := dg_lost d + 1, dg_opens := drop 2 (dg_opens d)\<rparr>)"
  using assms
  by (cases "dg_opens d"; cases "tl (dg_opens d)")
     (simp_all add: take_pipe_def connect_pipe_def pipe_connect_def new_pipe_def create_file_def Let_def)

lemma connect_rounds_refused:
  "dg_pipe d = None \<Longrightarrow> \<forall>a \<in> set (dg_opens d). \<not> a \<Longrightarrow>
   connect_rounds k d = (False, d\<lparr>dg_lost := dg_lost d + k, dg_opens := drop (2 * k) (dg_opens d)\<rparr>)"
proof (induction k arbitrary: d)
  case 0
  then show ?case by simp
next
  case (Suc k)
  have "\<forall>a \<in> set (drop 2 (dg_opens d)). \<not> a" using Suc.prems(2) by (meson in_set_dropD)
  then show ?case
    using take_pipe_refused [OF Suc.prems] Suc.IH [of "d\<lparr>dg_lost := dg_lost d + 1, dg_opens := drop 2 (dg_opens d)\<rparr>"] Suc.prems(1)
    by (simp add: add.commute)
qed

text \<open>While no one listens on the pipe, a start of the diagnostics allocates fifty pipe objects and loses all of them, writes
  nothing and is not a start, but the exception handlers are in place; every later message loses one more object.\<close>

theorem refused_pipe_leaks:
  assumes "pipes c" "\<not> dg_started d" "dg_pipe d = None" "\<forall>a \<in> set (dg_opens d). \<not> a"
  shows "\<exists>d'. startup e c d = Inr d' \<and> \<not> dg_started d' \<and> dg_pipe d' = None \<and> dg_lost d' = dg_lost d + 50
      \<and> dg_written d' = dg_written d \<and> dg_filter d' = (dg_filter d \<or> \<not> disable_veh c)
      \<and> (\<exists>d''. emit_message e c type msg d' = Inr d'' \<and> dg_lost d'' = dg_lost d + 51 \<and> dg_pipe d'' = None)"
proof -
  define d1 where "d1 = (if disable_veh c then d else d\<lparr>dg_veh := dg_veh d \<or> dn_veh_ok e, dg_filter := True\<rparr>)"
  define d2 where "d2 = (if minidump_enabled c \<and> \<not> dg_minidump d1 then d1\<lparr>dg_minidump := dn_dbghelp e\<rparr> else d1)"
  define d3 where "d3 = d2\<lparr>dg_park := (if disable_park_thread c then 0 else 1)\<rparr>"
  have f: "dg_pipe d3 = None" "dg_opens d3 = dg_opens d" "dg_started d3 = dg_started d" "dg_lost d3 = dg_lost d"
    "dg_written d3 = dg_written d" "dg_filter d3 = (dg_filter d \<or> \<not> disable_veh c)"
    using assms(3) by (simp_all add: d1_def d2_def d3_def)
  let ?d = "d3\<lparr>dg_lost := dg_lost d3 + 50, dg_opens := drop 100 (dg_opens d3)\<rparr>"
  have "connect_rounds 50 d3 = (False, ?d)" using connect_rounds_refused [of d3 50] f(1,2) assms(4) by simp
  then have "startup e c d = Inr ?d"
    using assms(1,2) unfolding startup_def d1_def [symmetric] Let_def d2_def [symmetric] d3_def [symmetric] by simp
  moreover have refused: "\<forall>a \<in> set (dg_opens ?d). \<not> a" using assms(4) f(2) by (auto dest: in_set_dropD)
  have "take_pipe ?d = (False, ?d\<lparr>dg_lost := dg_lost d + 51, dg_opens := drop 102 (dg_opens d)\<rparr>)"
    using take_pipe_refused [OF _ refused] f by simp
  then have "emit_message e c type msg ?d = Inr (?d\<lparr>dg_lost := dg_lost d + 51, dg_opens := drop 102 (dg_opens d)\<rparr>)"
    using assms(1) by (simp add: emit_message_def)
  ultimately show ?thesis using f assms(2) by (intro exI [of _ ?d]) simp
qed

theorem refused_pipe_leaks_witness:
  "\<exists>d'. startup demo_dn default_cfg quiet_diag = Inr d' \<and> dg_lost d' = 50 \<and> dg_filter d'"
  using refused_pipe_leaks [of default_cfg quiet_diag demo_dn] by (auto simp: default_cfg_def quiet_diag_def)

end
