(* ===== verification/DiagStream.thy ===== *)
theory DiagStream
  imports Diagnostics Runs
begin

text \<open>
  The stream on the diagnostics pipe: whatever \<open>Diagnostics\<close> is asked to do, in whatever order, the pipe carries
  whole lines of printable bytes below 2048.
\<close>

section \<open>The stream is one of lines\<close>

text \<open>Any calls, in any order, each on a thread of its own.\<close>

datatype diag_op =
    OpMessage "u8 list" "u8 list option"
  | OpStage "u8 list option"
  | OpException "u8 list option" exc
  | OpChunk u32 u32 "u8 list option" u32 size_t "pn_header list" size_t
  | OpConnect u32 u32 "u8 list option" u32
  | OpStart
  | OpStop

definition diag_step :: "cfg \<Rightarrow> diag_env \<times> diag_op \<Rightarrow> diag \<Rightarrow> diag res" where
  "diag_step c eo d =
     (case eo of (e, op) \<Rightarrow> (case op of
        OpMessage type msg \<Rightarrow> emit_message e c type msg d
      | OpStage stage \<Rightarrow> emit_game_stage e c stage d
      | OpException type x \<Rightarrow> emit_exception_event e c type x d
      | OpChunk tid port dir sock len frames rest \<Rightarrow> emit_proudnet_tcp e c tid port dir sock len frames rest d
      | OpConnect tid sock addr port \<Rightarrow> emit_proudnet_tcp_connect e c tid sock addr port d
      | OpStart \<Rightarrow> startup e c d
      | OpStop \<Rightarrow> Inr (teardown d)))"

definition diag_run :: "cfg \<Rightarrow> (diag_env \<times> diag_op) list \<Rightarrow> diag \<Rightarrow> diag res" where
  "diag_run c = run_all (diag_step c)"

definition plain :: "u8 list \<Rightarrow> bool" where
  "plain bs \<longleftrightarrow> list_all (\<lambda>b. 0x20 \<le> b) bs"

text \<open>What the callers pass: C strings, and types and directions without control characters.\<close>

definition op_ok :: "diag_op \<Rightarrow> bool" where
  "op_ok op = (case op of
     OpMessage type msg \<Rightarrow> plain type \<and> pred_option (\<lambda>s. 0 \<notin> set s) msg
   | OpStage stage \<Rightarrow> pred_option (\<lambda>s. 0 \<notin> set s) stage
   | OpException type x \<Rightarrow> pred_option plain type
   | OpChunk tid port dir sock len frames rest \<Rightarrow> pred_option plain dir
   | OpConnect tid sock addr port \<Rightarrow> pred_option (\<lambda>s. 0 \<notin> set s) addr
   | OpStart \<Rightarrow> True
   | OpStop \<Rightarrow> True)"

definition line_ok :: "u8 list \<Rightarrow> bool" where
  "line_ok l \<longleftrightarrow> l \<noteq> [] \<and> length l < 2048 \<and> plain l"

fun framed :: "u8 list list \<Rightarrow> bool" where
  "framed [] = True"
| "framed [w] = False"
| "framed (l # n # ws) = (line_ok l \<and> n = [10] \<and> framed ws)"

definition diag_ok :: "diag \<Rightarrow> bool" where
  "diag_ok d \<longleftrightarrow> framed (dg_written d) \<and> dg_handling d = 0 \<and> length (dg_last_stage d) < 32"

lemma framed_snoc: "framed ws \<Longrightarrow> line_ok l \<Longrightarrow> framed (ws @ [l, [10]])"
  by (induction ws rule: framed.induct) simp_all

named_theorems plain_simps

lemma plain_append [plain_simps]: "plain [] = True" "plain (xs @ ys) \<longleftrightarrow> plain xs \<and> plain ys"
  "plain (x # xs) \<longleftrightarrow> 0x20 \<le> x \<and> plain xs"
  by (simp_all add: plain_def)

lemma plain_take: "plain xs \<Longrightarrow> plain (take n xs)"
  using set_take_subset [of n xs] by (auto simp: plain_def list_all_iff)

lemma ascii_simps [plain_simps]: "ascii [] = []" "ascii (ch # s) = word_of_nat (of_char ch) # ascii s"
  "ascii (s @ t) = ascii s @ ascii t"
  by (simp_all add: ascii_def)

lemma nibble_plain: "n < 16 \<Longrightarrow> (0x20 :: u8) \<le> word_of_nat (of_char (char_nibble up n))"
proof -
  assume n: "n < 16"
  then have "(of_char (char_nibble up n) :: nat) = (if n < 10 then 48 + n else if up then 55 + n else 87 + n)"
    by (simp add: char_nibble_def)
  then have "32 \<le> (of_char (char_nibble up n) :: nat)" "(of_char (char_nibble up n) :: nat) < 256" using n by auto
  then show ?thesis by (simp add: word_le_nat_alt take_bit_nat_eq_self unsigned_of_nat)
qed

lemma plain_dec [plain_simps]: "plain (dec n)"
proof -
  have "plain (ascii (show_nat n))"
    by (induction n rule: show_nat.induct) (subst show_nat.simps, auto simp: plain_simps nibble_plain)
  then show ?thesis by (simp add: dec_def)
qed

lemma plain_hex [plain_simps]: "plain (hex8 w)" "plain (ascii (show_hex_upper n))"
proof -
  show "plain (hex8 w)" by (simp add: hex8_def show_hex8_upper_def plain_simps nibble_plain)
  show "plain (ascii (show_hex_upper n))"
    by (induction n rule: show_hex_upper.induct) (subst show_hex_upper.simps, auto simp: plain_simps nibble_plain)
qed

lemma plain_escaped [plain_simps]: "plain (escaped s)"
proof -
  have "list_all (\<lambda>b. plain (esc b)) (map word_of_nat [0..<256])" by code_simp
  then have "plain (esc b)" for b by (rule all_u8)
  then show ?thesis by (induction s) (simp_all add: plain_simps)
qed

lemma plain_prologue [plain_simps]: "plain (prologue e type) \<longleftrightarrow> plain type"
  by (simp add: prologue_def plain_simps)

lemma write_ok:
  assumes "diag_ok d1" "take_pipe d = (True, d1)" "line_ok l"
  shows "\<exists>d'. write_line_locked (Some l) d1 = Inr d' \<and> diag_ok d'"
  using assms(1,3) write_line [OF take_pipe_open [OF assms(2)], of l] by (simp add: diag_ok_def framed_snoc)

lemma take_pipe_ok: "take_pipe d = (ok, d1) \<Longrightarrow> dg_written d1 = dg_written d \<and> dg_handling d1 = dg_handling d
    \<and> dg_last_stage d1 = dg_last_stage d"
  by (auto simp: take_pipe_def connect_pipe_def pipe_connect_def new_pipe_def create_file_def Let_def
      split: if_splits prod.splits list.splits)

lemma prologue_line:
  assumes "write_emit_prologue e type cap rest = (True, line)" "cap \<le> 2048" "plain type" "plain rest"
  shows "line_ok line"
proof -
  have "line = prologue e type @ rest" "length (prologue e type @ rest) < cap"
    using assms(1) by (auto simp: write_emit_prologue_def print_at_def Let_def split: if_splits)
  moreover have "prologue e type \<noteq> []" by (simp add: prologue_def plain_simps)
  ultimately show ?thesis using assms(2-4) by (simp add: line_ok_def plain_simps)
qed

lemma emit_message_ok:
  assumes "diag_ok d" "plain type" "pred_option (\<lambda>s. 0 \<notin> set s) msg"
  shows "\<exists>d'. emit_message e c type msg d = Inr d' \<and> diag_ok d'"
proof -
  obtain ok d1 where t: "take_pipe d = (ok, d1)" by fastforce
  have ok1: "diag_ok d1" using assms(1) take_pipe_ok [OF t] by (simp add: diag_ok_def)
  show ?thesis
  proof (cases "pipes c \<and> ok \<and> msg \<noteq> None")
    case True
    then obtain s where s: "msg = Some s" "0 \<notin> set s" using assms(3) by auto
    from escape_into_result [of 1024 s] s(2) obtain k where k: "escape_into 1024 s = Inr (escaped (take k s))" by auto
    obtain fits line where w: "write_emit_prologue e type 2048 (ascii '',\"message\":\"'' @ escaped (take k s) @ ascii ''\"}'') = (fits, line)"
      by fastforce
    have "fits \<Longrightarrow> line_ok line" using prologue_line [of e type 2048 _ line] w assms(2) by (simp add: plain_simps)
    then show ?thesis using write_ok [OF ok1] t True s(1) k w ok1 by (auto simp: emit_message_def)
  qed (use t ok1 assms(1) in \<open>auto simp: emit_message_def\<close>)
qed

lemma emit_stage_ok:
  assumes "diag_ok d" "pred_option (\<lambda>s. 0 \<notin> set s) stage"
  shows "\<exists>d'. emit_game_stage e c stage d = Inr d' \<and> diag_ok d'"
proof -
  obtain ok d1 where t: "take_pipe d = (ok, d1)" by fastforce
  have ok1: "diag_ok d1" using assms(1) take_pipe_ok [OF t] by (simp add: diag_ok_def)
  show ?thesis
  proof (cases "pipes c \<and> ok \<and> stage \<noteq> None \<and> (\<forall>s. stage = Some s \<longrightarrow> take 32 (dg_last_stage d1) \<noteq> take 32 s)")
    case True
    then obtain s where s: "stage = Some s" "0 \<notin> set s" "take 32 (dg_last_stage d1) \<noteq> take 32 s" using assms(2) by auto
    define d2 where "d2 = d1\<lparr>dg_last_stage := snd (print_at 0 32 s [])\<rparr>"
    have d2: "diag_ok d2" "dg_pipe d2 = Some True"
      using ok1 take_pipe_open [of d d1] t True by (auto simp: d2_def diag_ok_def print_at_def)
    from escape_into_result [of 256 s] s(2) obtain k where k: "escape_into 256 s = Inr (escaped (take k s))" by auto
    obtain fits line where w: "write_emit_prologue e (ascii ''game_stage'') 512
        (ascii '',\"stage\":\"'' @ escaped (take k s) @ ascii ''\"}'') = (fits, line)" by fastforce
    have "fits \<Longrightarrow> line_ok line" using prologue_line [of e "ascii ''game_stage''" 512 _ line] w by (simp add: plain_simps)
    then show ?thesis using write_ok [OF d2(1) take_pipe_same [OF d2(2)]] t True s k w d2(1)
      by (auto simp: emit_game_stage_def d2_def [symmetric] Let_def)
  qed (use t ok1 assms(1) in \<open>auto simp: emit_game_stage_def\<close>)
qed

lemma exception_fields_plain: "plain type \<Longrightarrow> plain (exception_fields e type x r)"
  by (simp add: exception_fields_def Let_def plain_simps access_kind_def)

lemma emit_exception_ok:
  assumes "diag_ok d" "pred_option plain type"
  shows "\<exists>d'. emit_exception_event e c type x d = Inr d' \<and> diag_ok d'"
proof -
  let ?d = "d\<lparr>dg_handling := 1\<rparr>"
  have h: "dg_handling d = 0" using assms(1) by (simp add: diag_ok_def)
  obtain ok d1 where t: "take_pipe ?d = (ok, d1)" by fastforce
  have f: "framed (dg_written d1)" "length (dg_last_stage d1) < 32" using assms(1) take_pipe_ok [OF t] by (simp_all add: diag_ok_def)
  show ?thesis
  proof (cases "pipes c \<and> ok \<and> format_exception_event e 1024 type x \<noteq> None")
    case True
    then obtain ty r where r: "type = Some ty" "ex_context x = Some r" by (auto simp: format_exception_event_def split: option.splits)
    define line where "line = snd (print_at 0 1024 (exception_fields e ty x r) [])"
    have "plain (exception_fields e ty x r)" using exception_fields_plain assms(2) r(1) by simp
    moreover have "exception_fields e ty x r \<noteq> []" by (simp add: exception_fields_def Let_def prologue_def plain_simps)
    ultimately have "line_ok line" by (auto simp: line_def print_at_def line_ok_def plain_take)
    then have "framed (dg_written d1 @ [line, [10]])" using f(1) by (rule framed_snoc [rotated])
    then show ?thesis using t True r h f(2) write_line [OF take_pipe_open, of ?d d1 line]
      by (auto simp: emit_exception_event_def pipe_emit_exception_event_def format_exception_event_def line_def [symmetric]
          write_line_locked_def diag_ok_def)
  qed (use t f assms(1) h in \<open>auto simp: emit_exception_event_def pipe_emit_exception_event_def diag_ok_def Let_def\<close>)
qed

lemma frames_text_plain: "plain (frames_text comma fs)"
  by (induction fs arbitrary: comma) (simp_all add: frame_text_def plain_simps)

lemma print_frames_plain: "plain line \<Longrightarrow> print_frames comma fs pos line = (pos', line') \<Longrightarrow> plain line'"
proof (induction fs arbitrary: comma pos line)
  case Nil
  then show ?case by simp
next
  case (Cons f fs)
  have t: "plain (frame_text comma f)" by (simp add: frame_text_def plain_simps)
  show ?case using Cons.IH [of "take pos line @ frame_text comma f" True] Cons.prems t
    by (auto simp: print_at_def Let_def plain_simps plain_take split: if_splits)
qed

lemma tcp_header_plain: "pred_option plain dir \<Longrightarrow> plain (tcp_header e tid port dir sock len rest)"
  by (cases dir) (simp_all add: tcp_header_def plain_simps)

lemma tcp_header_nonempty: "tcp_header e tid port dir sock len rest \<noteq> []"
  by (simp add: tcp_header_def plain_simps)

lemma chunk_line_ok:
  fixes e :: diag_env and tid port sock :: u32 and dir :: "u8 list option" and len rest :: size_t
  assumes "pred_option plain dir" "length (tcp_header e tid port dir sock len rest) < 2044"
    "length (tcp_header e tid port dir sock len rest @ frames_text False fs) < 2048"
  shows "line_ok ((tcp_header e tid port dir sock len rest @ frames_text False fs)
    @ (if length (tcp_header e tid port dir sock len rest @ frames_text False fs) < 2046 then ascii '']}'' else []))"
  using assms tcp_header_plain [OF assms(1)] tcp_header_nonempty
  by (auto simp: line_ok_def plain_simps frames_text_plain)

text \<open>The line the frames and the brackets make, before it is written.\<close>

lemma print_frames_bounds:
  "length line < 2048 \<Longrightarrow> print_frames comma fs (length line) line = (pos, line') \<Longrightarrow>
   length line \<le> pos \<and> pos \<le> length line' \<and> length line' < 2048"
proof (induction fs arbitrary: comma line)
  case (Cons f fs)
  let ?t = "frame_text comma f"
  have step: "print_at (length line) 2048 ?t line =
      (if length line + length ?t < 2048 then (int (length ?t), line @ ?t) else (- 1, line @ take (2047 - length line) ?t))"
    using Cons.prems(1) by (auto simp: print_at_def)
  show ?case
  proof (cases "length line + length ?t < 2044 \<and> length line \<noteq> 0")
    case True
    then have "print_frames True fs (length (line @ ?t)) (line @ ?t) = (pos, line')"
      using Cons.prems step by (auto simp: Let_def split: if_splits)
    from Cons.IH [OF _ this] True show ?thesis by simp
  next
    case False
    then show ?thesis using Cons.prems step by (auto simp: Let_def split: if_splits)
  qed
qed simp

lemma print_frames_line:
  assumes "0 < length line" "length line < 2048" "print_frames comma fs (length line) line = (pos, line')" "plain line'"
  shows "(let l = (if 0 < pos \<and> pos < 2048 - 2 then snd (print_at pos 2048 (ascii '']}'') line') else line') in
    l \<noteq> [] \<and> length l < 2048 \<and> plain l)"
proof -
  have b: "0 < pos" "pos \<le> length line'" "length line' < 2048" using print_frames_bounds [OF assms(2,3)] assms(1) by linarith+
  have "print_at pos 2048 (ascii '']}'') line' = (2, take pos line' @ ascii '']}'')" if "pos < 2046"
    using that by (simp add: print_at_def)
  then show ?thesis using b assms(4) by (auto simp: Let_def plain_simps plain_take)
qed

lemma emit_chunk_ok:
  assumes "diag_ok d" "pred_option plain dir"
  shows "\<exists>d'. emit_proudnet_tcp e c tid port dir sock len frames rest d = Inr d' \<and> diag_ok d'"
proof -
  let ?h = "tcp_header e tid port dir sock len rest"
  obtain ok d1 where t: "take_pipe d = (ok, d1)" by fastforce
  have ok1: "diag_ok d1" using assms(1) take_pipe_ok [OF t] by (simp add: diag_ok_def)
  show ?thesis
  proof (cases "pipes c \<and> ok \<and> length ?h < 2048")
    case True
    then have t: "take_pipe d = (True, d1)" using t by simp
    obtain pos line where p: "print_frames False frames (length ?h) ?h = (pos, line)" by fastforce
    have h: "0 < length ?h" using tcp_header_nonempty by simp
    have n: "print_at 0 2048 ?h [] = (int (length ?h), ?h)" using True by (simp add: print_at_def)
    let ?l = "if 0 < pos \<and> pos < 2048 - 2 then snd (print_at pos 2048 (ascii '']}'') line) else line"
    have run: "emit_proudnet_tcp e c tid port dir sock len frames rest d = write_line_locked (Some ?l) d1"
      using True t n p by (simp add: emit_proudnet_tcp_def Let_def)
    have "line_ok ?l" using print_frames_line [OF h _ p print_frames_plain [OF tcp_header_plain [OF assms(2)] p]] True
      unfolding line_ok_def Let_def by blast
    then show ?thesis using write_ok [OF ok1 take_pipe_same [OF take_pipe_open [OF t]]] run by simp
  qed (use t ok1 assms(1) in \<open>auto simp: emit_proudnet_tcp_def print_at_def Let_def\<close>)
qed

lemma emit_connect_ok:
  assumes "diag_ok d" "pred_option (\<lambda>s. 0 \<notin> set s) addr"
  shows "\<exists>d'. emit_proudnet_tcp_connect e c tid sock addr port d = Inr d' \<and> diag_ok d'"
proof -
  obtain ok d1 where t: "take_pipe d = (ok, d1)" by fastforce
  have ok1: "diag_ok d1" using assms(1) take_pipe_ok [OF t] by (simp add: diag_ok_def)
  show ?thesis
  proof (cases "pipes c \<and> ok")
    case True
    let ?a = "case addr of Some a \<Rightarrow> a | None \<Rightarrow> []"
    have "0 \<notin> set ?a" using assms(2) by (cases addr) auto
    from escape_into_result [OF _ this, of 128] obtain k where k: "escape_into 128 ?a = Inr (escaped (take k ?a))" by auto
    have "line_ok (snd (print_at 0 384 bs []))" if "plain bs" "bs \<noteq> []" for bs
      using that by (auto simp: print_at_def line_ok_def plain_take)
    then show ?thesis using write_ok [OF ok1 take_pipe_same [OF take_pipe_open [of d]]] t True k
      by (simp add: emit_proudnet_tcp_connect_def plain_simps)
  qed (use t ok1 assms(1) in \<open>auto simp: emit_proudnet_tcp_connect_def\<close>)
qed

lemma connect_rounds_ok: "diag_ok d \<Longrightarrow> connect_rounds k d = (ok, d1) \<Longrightarrow> diag_ok d1"
proof (induction k arbitrary: d)
  case (Suc k)
  obtain ok' d' where t: "take_pipe d = (ok', d')" by fastforce
  have "diag_ok d'" using Suc.prems(1) take_pipe_ok [OF t] by (simp add: diag_ok_def)
  then show ?case using Suc t by (auto split: if_splits)
qed simp

lemma startup_ok: "diag_ok d \<Longrightarrow> \<exists>d'. startup e c d = Inr d' \<and> diag_ok d'"
proof (cases "dg_started d")
  case False
  assume ok: "diag_ok d"
  define d1 where "d1 = (if disable_veh c then d else d\<lparr>dg_veh := dg_veh d \<or> dn_veh_ok e, dg_filter := True\<rparr>)"
  define d2 where "d2 = (if minidump_enabled c \<and> \<not> dg_minidump d1 then d1\<lparr>dg_minidump := dn_dbghelp e\<rparr> else d1)"
  define d3 where "d3 = d2\<lparr>dg_park := (if disable_park_thread c then 0 else 1)\<rparr>"
  have ok3: "diag_ok d3" using ok by (simp add: diag_ok_def d1_def d2_def d3_def)
  obtain up d4 where r: "(if pipes c then connect_rounds 50 d3 else (True, d3)) = (up, d4)" by fastforce
  have "diag_ok d4" using r ok3 connect_rounds_ok by (auto split: if_splits)
  moreover have "diag_ok (d4\<lparr>dg_started := True\<rparr>)" using calculation by (simp add: diag_ok_def)
  from emit_message_ok [OF this, of "ascii ''hello''" "Some (ascii ''version=1'')" e c] obtain d5 where
    d5: "emit_message e c (ascii ''hello'') (Some (ascii ''version=1'')) (d4\<lparr>dg_started := True\<rparr>) = Inr d5" "diag_ok d5"
    by (auto simp: plain_simps)
  from emit_stage_ok [OF d5(2), of "Some (ascii ''started'')" e c] obtain d6 where
    d6: "emit_game_stage e c (Some (ascii ''started'')) d5 = Inr d6" "diag_ok d6" by (auto simp: plain_simps)
  have "diag_ok (d6\<lparr>dg_hp := pipe_start (dn_thread_ok e) (dg_hp d6)\<rparr>)" using d6(2) by (simp add: diag_ok_def)
  ultimately show ?thesis using False r d5(1) d6(1)
    unfolding startup_def d1_def [symmetric] Let_def d2_def [symmetric] d3_def [symmetric] by auto
qed (simp add: startup_def)

lemma diag_step_ok: "diag_ok d \<Longrightarrow> op_ok (snd eo) \<Longrightarrow> \<exists>d'. diag_step c eo d = Inr d' \<and> diag_ok d'"
  by (cases eo; cases "snd eo")
     (auto simp: diag_step_def op_ok_def emit_message_ok emit_stage_ok emit_exception_ok emit_chunk_ok emit_connect_ok startup_ok,
      simp add: diag_ok_def teardown_def)

text \<open>So the diagnostics are steady: any run of calls goes through.\<close>

interpretation diagnostics: steady "diag_step c" "\<lambda>eo. op_ok (snd eo)" diag_ok for c
  by unfold_locales (rule diag_step_ok)

text \<open> C11: Whatever the diagnostics are asked to do and in whatever order, no call fails, and the pipe carries a sequence of
  records: one to 2047 printable bytes, then a line feed of its own. No control character of a message gets into the
  stream.\<close>

theorem pipe_stream_of_lines:
  assumes "diag_ok d" "\<forall>eo \<in> set ops. op_ok (snd eo)"
  shows "\<exists>d'. diag_run c ops d = Inr d' \<and> diag_ok d' \<and> framed (dg_written d')"
  using diagnostics.run_keeps [OF assms, of c] by (auto simp: diag_run_def diag_ok_def)

theorem pipe_stream_of_lines_witness:
  "\<exists>d'. diag_run default_cfg [(demo_dn, OpMessage (ascii ''log'') (Some [10, 34])), (demo_dn, OpStop), (demo_dn, OpStart)]
     (quiet_diag\<lparr>dg_opens := [True]\<rparr>) = Inr d' \<and> framed (dg_written d')"
  using pipe_stream_of_lines [of "quiet_diag\<lparr>dg_opens := [True]\<rparr>"
      "[(demo_dn, OpMessage (ascii ''log'') (Some [10, 34])), (demo_dn, OpStop), (demo_dn, OpStart)]" default_cfg]
  by (auto simp: diag_ok_def quiet_diag_def op_ok_def plain_simps)

text \<open>Stopping takes everything back but the process's exception filter, which stays a function of the library.\<close>

lemma teardown_keeps_filter:
  "dg_filter (teardown d) = dg_filter d \<and> \<not> dg_veh (teardown d) \<and> \<not> dg_started (teardown d) \<and> dg_pipe (teardown d) = None
    \<and> hp_running (dg_hp (teardown d)) = 0"
  by (simp add: teardown_def pipe_stop_def close_pipe_locked_def Let_def)

end
