(* ===== verification/Exceptions.thy ===== *)
theory Exceptions
  imports Diagnostics "HOL-Library.Sublist" Runs
begin

text \<open>
  The exception handlers, \<open>src/diagnostics/exceptions.cpp\<close>, in the default build (\<open>DISABLE_GAME_STARTUP_TRASH\<close> is 1).
  What a pointer read as a C string gives, the dwords readable at the stack pointer, the path and file of the dump, and
  the round in which a debugger releases the parked thread are arguments. The handler's own flag is one of its thread;
  the runs here are of one thread.
\<close>

section \<open>Which exceptions are of interest\<close>

definition kDbgPrintExceptionC :: u32 where "kDbgPrintExceptionC = 0x40010006"
definition kDbgPrintExceptionWideC :: u32 where "kDbgPrintExceptionWideC = 0x4001000A"
definition kThreadNameExceptionC :: u32 where "kThreadNameExceptionC = 0x406D1388"

definition is_dbgprint_exception :: "u32 \<Rightarrow> bool" where
  "is_dbgprint_exception code \<longleftrightarrow> code = kDbgPrintExceptionC \<or> code = kDbgPrintExceptionWideC"

definition is_benign_debugger_exception :: "u32 \<Rightarrow> bool" where
  "is_benign_debugger_exception code \<longleftrightarrow> is_dbgprint_exception code \<or> code = kThreadNameExceptionC"

fun c_strstr :: "'a list \<Rightarrow> 'a list \<Rightarrow> bool" where
  "c_strstr hay needle = (prefix needle hay \<or> (case hay of [] \<Rightarrow> False | _ # hay' \<Rightarrow> c_strstr hay' needle))"

declare c_strstr.simps [simp del]

definition should_suppress_message :: "string option \<Rightarrow> bool" where
  "should_suppress_message msg =
     (case msg of
        None \<Rightarrow> False
      | Some s \<Rightarrow>
          if c_strstr s ''Error 7'' \<and> c_strstr s ''StorageSystem::Registry::CNativeValue::Write'' then True
          else if c_strstr s ''Error 20'' \<and> c_strstr s ''AVolute::GetProductInfoT'' then True
          else False)"

section \<open>State\<close>

datatype veh_event =
    DumpWritten string            \<comment> \<open>\<open>MiniDumpWriteDump\<close> to a file of that name\<close>
  | DebugBreak                    \<comment> \<open>\<open>__debugbreak\<close>\<close>
  | Slept nat                     \<comment> \<open>\<open>Sleep(100)\<close> so many times\<close>

record veh =
  v_in_handler :: bool            \<comment> \<open>\<open>g_in_vectored_handler\<close>\<close>
  v_av_record :: "exc option"     \<comment> \<open>\<open>g_av_record\<close>, once it is filled\<close>
  v_av_context :: "context_regs option"
  v_av_count :: u32
  v_handled_av :: int
  v_dump_once :: int
  v_release :: int                \<comment> \<open>\<open>g_av_release\<close>\<close>
  v_lg :: logger
  v_dg :: diag
  v_trace :: "veh_event list"

record veh_env =
  ve_dn :: diag_env
  ve_vt :: bool
  ve_text :: "u32 \<Rightarrow> string res"      \<comment> \<open>the C string at an address, or the fault of reading it\<close>
  ve_stack :: "u32 list"          \<comment> \<open>the dwords that can be read at the stack pointer, in order\<close>
  ve_exe :: "nat \<times> string"        \<comment> \<open>\<open>GetModuleFileNameA\<close>: result and path\<close>
  ve_file_ok :: bool              \<comment> \<open>\<open>CreateFileA\<close> opens the dump\<close>
  ve_released :: nat              \<comment> \<open>the round that finds the thread released\<close>

definition v_event :: "veh_event \<Rightarrow> veh \<Rightarrow> veh" where
  "v_event ev v = v\<lparr>v_trace := v_trace v @ [ev]\<rparr>"

section \<open>What is done with an access violation\<close>

text \<open>\<open>strrchr\<close> for a backslash: what is before the last one.\<close>

definition before_last_slash :: "string \<Rightarrow> string option" where
  "before_last_slash s =
     (if CHR 0x5C \<in> set s then Some (rev (tl (dropWhile (\<lambda>ch. ch \<noteq> CHR 0x5C) (rev s)))) else None)"

text \<open>The dump's name, cut to 259 characters.\<close>

definition dump_name :: "veh_env \<Rightarrow> string" where
  "dump_name e =
     (let (n, exe) = ve_exe e;
          slash = (if 0 < n \<and> n < kMaxPath then before_last_slash exe else None);
          ids = ''TheGame_crash_'' @ show_nat (unat (dn_pid (ve_dn e))) @ ''_'' @ show_nat (unat (dn_tid (ve_dn e))) @ ''.dmp''
      in take 259 (case slash of Some dir \<Rightarrow> dir @ [CHR 0x5C] @ ids | None \<Rightarrow> ids))"

definition write_av_minidump :: "veh_env \<Rightarrow> cfg \<Rightarrow> veh \<Rightarrow> veh" where
  "write_av_minidump e c v =
     (if \<not> dg_minidump (v_dg v) then v
      else let v1 = v\<lparr>v_dump_once := 1\<rparr> in
      if v_dump_once v \<noteq> 0 \<or> \<not> ve_file_ok e then v1
      else let v2 = v_event (DumpWritten (dump_name e)) v1
           in v2\<lparr>v_lg := logf c (ve_vt e) (log_text (''minidump written: '' @ dump_name e)) (v_lg v2)\<rparr>)"

text \<open>Eight dwords at most, up to the first that cannot be read; the line of 256 bytes holds them all.\<close>

definition append_fault_stack_dwords :: "u32 list \<Rightarrow> string \<Rightarrow> string" where
  "append_fault_stack_dwords stack line = fold (\<lambda>w line. line @ '' 0x'' @ show_hex8_upper w) (take 8 stack) line"

definition log_fault_stack :: "veh_env \<Rightarrow> cfg \<Rightarrow> exc \<Rightarrow> veh \<Rightarrow> veh" where
  "log_fault_stack e c x v =
     (case ex_context x of
        None \<Rightarrow> v
      | Some r \<Rightarrow>
          let line = append_fault_stack_dwords (ve_stack e) (''fault stack @esp=0x'' @ show_hex8_upper (c_esp r) @ '':'')
          in v\<lparr>v_lg := logf c (ve_vt e) (log_text line) (v_lg v)\<rparr>)"

definition park_faulting_thread :: "veh_env \<Rightarrow> veh \<Rightarrow> veh" where
  "park_faulting_thread e v =
     (if dg_park (v_dg v) = 0 then v else v_event (Slept (min 6000 (ve_released e))) (v\<lparr>v_release := 0\<rparr>))"

text \<open>\<open>exceptionf\<close> with an exception: the log, then the event on the pipe.\<close>

definition exceptionf_event :: "veh_env \<Rightarrow> cfg \<Rightarrow> string \<Rightarrow> exc \<Rightarrow> veh \<Rightarrow> veh res" where
  "exceptionf_event e c type x v =
     bindR (emit_exception_event (ve_dn e) c (Some (ascii type)) x (v_dg v)) (\<lambda>dg.
     Inr (v\<lparr>v_lg := exceptionf_info c (ve_vt e) (ex_code x) (Some type) (v_lg v), v_dg := dg\<rparr>))"

definition handle_first_av :: "veh_env \<Rightarrow> cfg \<Rightarrow> exc \<Rightarrow> veh \<Rightarrow> veh" where
  "handle_first_av e c x v =
     (if v_handled_av v \<noteq> 0 then v\<lparr>v_handled_av := 1\<rparr>
      else let v1 = v\<lparr>v_handled_av := 1\<rparr>;
               v2 = (if minidump_enabled c then log_fault_stack e c x (write_av_minidump e c v1) else v1);
               v3 = (if disable_int c then v2 else v_event DebugBreak v2)
           in if disable_park_thread c then v3 else park_faulting_thread e v3)"

section \<open>The handlers\<close>

text \<open>Both always answer \<open>EXCEPTION_CONTINUE_SEARCH\<close>.\<close>

definition vectored_exception_handler :: "veh_env \<Rightarrow> cfg \<Rightarrow> exc \<Rightarrow> veh \<Rightarrow> veh res" where
  "vectored_exception_handler e c x v =
     (if v_in_handler v then Inr v
      else let v0 = v\<lparr>v_in_handler := True\<rparr> in
      if ex_code x = kAccessViolationC then
        (let v1 = v0\<lparr>v_av_record := Some x,
                     v_av_context := (if ex_context x = None then v_av_context v0 else ex_context x),
                     v_av_count := v_av_count v0 + 1\<rparr>
         in bindR (exceptionf_event e c ''access_violation'' x v1) (\<lambda>v2.
            Inr ((handle_first_av e c x v2)\<lparr>v_in_handler := False\<rparr>)))
      else
        bindR (if \<not> is_benign_debugger_exception (ex_code x) \<and> ex_params x \<ge> 2 then
                 bindR (if ex_info x 1 = 0 then Inr None else bindR (ve_text e (ex_info x 1)) (\<lambda>s. Inr (Some s))) (\<lambda>msg.
                 if should_suppress_message msg then Inr v0 else exceptionf_event e c ''exception'' x v0)
               else Inr v0) (\<lambda>v1.
        Inr (v1\<lparr>v_in_handler := False\<rparr>)))"

definition unhandled_exception_handler :: "veh_env \<Rightarrow> cfg \<Rightarrow> exc \<Rightarrow> veh \<Rightarrow> veh res" where
  "unhandled_exception_handler e c x v = exceptionf_event e c ''fatal_exception'' x v"

text \<open>Exceptions of one thread, one after the other.\<close>

definition veh_run :: "cfg \<Rightarrow> (veh_env \<times> exc) list \<Rightarrow> veh \<Rightarrow> veh res" where
  "veh_run c = run_all (\<lambda>ex. vectored_exception_handler (fst ex) c (snd ex))"

section \<open>A thread's exceptions\<close>

lemma take_pipe_settings: "take_pipe d = (ok, d1) \<Longrightarrow> dg_minidump d1 = dg_minidump d \<and> dg_park d1 = dg_park d
    \<and> dg_handling d1 = dg_handling d \<and> (ok \<longrightarrow> dg_pipe d1 = Some True)"
  by (auto simp: take_pipe_def connect_pipe_def pipe_connect_def new_pipe_def create_file_def Let_def
      split: if_splits prod.splits list.splits)

lemma emit_exception_keeps:
  assumes "dg_handling d = 0"
  shows "\<exists>d'. emit_exception_event e c type x d = Inr d' \<and> dg_handling d' = 0 \<and> dg_minidump d' = dg_minidump d
    \<and> dg_park d' = dg_park d"
proof -
  obtain ok d1 where t: "take_pipe (d\<lparr>dg_handling := 1\<rparr>) = (ok, d1)" by fastforce
  show ?thesis using assms t take_pipe_settings [OF t]
    by (auto simp: emit_exception_event_def pipe_emit_exception_event_def write_line_unlocked_def pipe_connect_def Let_def
        split: option.split)
qed

lemma exceptionf_event_keeps:
  assumes "dg_handling (v_dg v) = 0"
  shows "\<exists>lg dg. exceptionf_event e c type x v = Inr (v\<lparr>v_lg := lg, v_dg := dg\<rparr>) \<and> dg_handling dg = 0
    \<and> dg_minidump dg = dg_minidump (v_dg v) \<and> dg_park dg = dg_park (v_dg v)"
proof -
  from emit_exception_keeps [OF assms, of "ve_dn e" c "Some (ascii type)" x] obtain dg where
    dg: "emit_exception_event (ve_dn e) c (Some (ascii type)) x (v_dg v) = Inr dg" "dg_handling dg = 0"
    "dg_minidump dg = dg_minidump (v_dg v)" "dg_park dg = dg_park (v_dg v)" by blast
  let ?lg = "exceptionf_info c (ve_vt e) (ex_code x) (Some type) (v_lg v)"
  have "exceptionf_event e c type x v = Inr (v\<lparr>v_lg := ?lg, v_dg := dg\<rparr>)" using dg(1) by (simp add: exceptionf_event_def)
  then show ?thesis using dg(2-4) by blast
qed

text \<open>What the first access violation does besides logging.\<close>

definition first_av_events :: "cfg \<Rightarrow> bool \<Rightarrow> int \<Rightarrow> int \<Rightarrow> veh_env \<Rightarrow> veh_event list" where
  "first_av_events c minidump once park e =
     (if minidump_enabled c \<and> minidump \<and> once = 0 \<and> ve_file_ok e then [DumpWritten (dump_name e)] else [])
     @ (if disable_int c then [] else [DebugBreak])
     @ (if disable_park_thread c \<or> park = 0 then [] else [Slept (min 6000 (ve_released e))])"

definition is_av :: "veh_env \<times> exc \<Rightarrow> bool" where
  "is_av ex \<longleftrightarrow> ex_code (snd ex) = kAccessViolationC"

text \<open>What the handler keeps between exceptions.\<close>

definition veh_ok :: "veh \<Rightarrow> bool" where
  "veh_ok v \<longleftrightarrow> \<not> v_in_handler v \<and> dg_handling (v_dg v) = 0"

lemma handle_first_av_events:
  "v_trace (handle_first_av e c x v) = v_trace v @ (if v_handled_av v \<noteq> 0 then []
      else first_av_events c (dg_minidump (v_dg v)) (v_dump_once v) (dg_park (v_dg v)) e)"
  "v_handled_av (handle_first_av e c x v) = 1" "v_dg (handle_first_av e c x v) = v_dg v"
  "v_av_count (handle_first_av e c x v) = v_av_count v" "v_av_record (handle_first_av e c x v) = v_av_record v"
  by (auto simp: handle_first_av_def first_av_events_def write_av_minidump_def log_fault_stack_def park_faulting_thread_def
      v_event_def Let_def split: option.splits)

lemma handler_step:
  assumes "veh_ok v" "\<forall>a. \<exists>s. ve_text e a = Inr s"
  shows "\<exists>v'. vectored_exception_handler e c x v = Inr v' \<and> veh_ok v'
    \<and> dg_minidump (v_dg v') = dg_minidump (v_dg v) \<and> dg_park (v_dg v') = dg_park (v_dg v)
    \<and> (if ex_code x = kAccessViolationC
       then v_av_count v' = v_av_count v + 1 \<and> v_av_record v' = Some x \<and> v_handled_av v' = 1
         \<and> v_trace v' = v_trace v @ (if v_handled_av v \<noteq> 0 then []
             else first_av_events c (dg_minidump (v_dg v)) (v_dump_once v) (dg_park (v_dg v)) e)
       else v_av_count v' = v_av_count v \<and> v_av_record v' = v_av_record v \<and> v_handled_av v' = v_handled_av v
         \<and> v_dump_once v' = v_dump_once v \<and> v_trace v' = v_trace v)"
proof (cases "ex_code x = kAccessViolationC")
  case True
  define v1 where "v1 = v\<lparr>v_in_handler := True, v_av_record := Some x,
      v_av_context := (if ex_context x = None then v_av_context v else ex_context x), v_av_count := v_av_count v + 1\<rparr>"
  have f: "v_av_record v1 = Some x" "v_av_count v1 = v_av_count v + 1" "v_trace v1 = v_trace v"
    "v_handled_av v1 = v_handled_av v" "v_dump_once v1 = v_dump_once v" "v_dg v1 = v_dg v" by (simp_all add: v1_def)
  from exceptionf_event_keeps [of v1 e c "''access_violation''" x] assms(1) f(6) obtain lg dg where
    ev: "exceptionf_event e c ''access_violation'' x v1 = Inr (v1\<lparr>v_lg := lg, v_dg := dg\<rparr>)" "dg_handling dg = 0"
    "dg_minidump dg = dg_minidump (v_dg v)" "dg_park dg = dg_park (v_dg v)" by (auto simp: veh_ok_def)
  let ?v' = "(handle_first_av e c x (v1\<lparr>v_lg := lg, v_dg := dg\<rparr>))\<lparr>v_in_handler := False\<rparr>"
  have "vectored_exception_handler e c x v = Inr ?v'"
    using True assms(1) ev(1)
    by (cases "ex_context x") (simp_all add: vectored_exception_handler_def veh_ok_def Let_def v1_def)
  then show ?thesis using True ev(2-4) f
    by (intro exI [of _ ?v']) (simp add: veh_ok_def handle_first_av_events)
next
  case False
  let ?v0 = "v\<lparr>v_in_handler := True\<rparr>"
  from exceptionf_event_keeps [of ?v0 e c "''exception''" x] assms(1) obtain lg dg where
    ev: "exceptionf_event e c ''exception'' x ?v0 = Inr (?v0\<lparr>v_lg := lg, v_dg := dg\<rparr>)" "dg_handling dg = 0"
    "dg_minidump dg = dg_minidump (v_dg v)" "dg_park dg = dg_park (v_dg v)" by (auto simp: veh_ok_def)
  obtain s where "ve_text e (ex_info x 1) = Inr s" using assms(2) by blast
  then show ?thesis using False assms(1) ev
    by (auto simp: vectored_exception_handler_def veh_ok_def Let_def)
qed

text \<open>What the access violations \<open>vs\<close> among a thread's exceptions do to the state.\<close>

definition violations_seen :: "cfg \<Rightarrow> veh \<Rightarrow> veh \<Rightarrow> (veh_env \<times> exc) list \<Rightarrow> bool" where
  "violations_seen c v v' vs \<longleftrightarrow>
     dg_minidump (v_dg v') = dg_minidump (v_dg v) \<and> dg_park (v_dg v') = dg_park (v_dg v)
     \<and> v_av_count v' = v_av_count v + word_of_nat (length vs)
     \<and> v_av_record v' = (if vs = [] then v_av_record v else Some (snd (last vs)))
     \<and> v_handled_av v' = (if vs = [] then v_handled_av v else 1)
     \<and> (vs = [] \<longrightarrow> v_dump_once v' = v_dump_once v)
     \<and> v_trace v' = v_trace v @ (if vs = [] \<or> v_handled_av v \<noteq> 0 then []
        else first_av_events c (dg_minidump (v_dg v)) (v_dump_once v) (dg_park (v_dg v)) (fst (hd vs)))"

definition violation :: "veh_env \<times> exc \<Rightarrow> (veh_env \<times> exc) list" where
  "violation ex = (if is_av ex then [ex] else [])"

definition texts_readable :: "veh_env \<times> exc \<Rightarrow> bool" where
  "texts_readable ex \<longleftrightarrow> (\<forall>a. \<exists>s. ve_text (fst ex) a = Inr s)"

lemma concat_violation: "concat (map violation xs) = filter is_av xs"
  by (induction xs) (simp_all add: violation_def)

interpretation handler: reporting "\<lambda>ex. vectored_exception_handler (fst ex) c (snd ex)" texts_readable veh_ok
  "violations_seen c" violation for c
proof
  fix v ex
  assume "veh_ok v" "texts_readable ex"
  with handler_step [of v "fst ex" c "snd ex"] show "\<exists>v'. vectored_exception_handler (fst ex) c (snd ex) v = Inr v' \<and> veh_ok v'"
    by (auto simp: texts_readable_def)
next
  fix v ex v'
  assume "veh_ok v" "texts_readable ex" "vectored_exception_handler (fst ex) c (snd ex) v = Inr v'"
  with handler_step [of v "fst ex" c "snd ex"] show "violations_seen c v v' (violation ex)"
    by (auto simp: texts_readable_def violations_seen_def violation_def is_av_def split: if_splits)
next
  fix v v1 v2 ws vs
  assume "violations_seen c v v1 ws" "violations_seen c v1 v2 vs"
  then show "violations_seen c v v2 (ws @ vs)"
    by (cases "ws = []"; cases "vs = []") (auto simp: violations_seen_def add.assoc)
qed (simp add: violations_seen_def)


definition quiet_veh :: veh where
  "quiet_veh = \<lparr>v_in_handler = False, v_av_record = None, v_av_context = None, v_av_count = 0, v_handled_av = 0, v_dump_once = 0,
     v_release = 0, v_lg = logger0, v_dg = quiet_diag, v_trace = []\<rparr>"

definition demo_ve :: veh_env where
  "demo_ve = \<lparr>ve_dn = demo_dn, ve_vt = True, ve_text = (\<lambda>_. Inr []), ve_stack = [1, 2], ve_exe = (0, []), ve_file_ok = True,
     ve_released = 3\<rparr>"

definition demo_av :: exc where
  "demo_av = \<lparr>ex_code = kAccessViolationC, ex_flags = 0, ex_address = 0x401000, ex_params = 2, ex_info = (\<lambda>_. 0), ex_context = None\<rparr>"


section \<open>What the handler misses and what it should not read\<close>

text \<open>An exception with fewer than two parameters leaves no trace, whatever it is.\<close>

lemma few_parameters_unlogged:
  assumes "\<not> v_in_handler v" "ex_code x \<noteq> kAccessViolationC" "ex_params x < 2"
  shows "vectored_exception_handler e c x v = Inr v"
  using assms by (cases v) (simp add: vectored_exception_handler_def Let_def)

text \<open>The second parameter of any other exception is read as a C string; that of a C++ exception is a pointer to its object, and
  other kinds put numbers there. A fault in reading it happens inside the handler.\<close>

lemma second_parameter_read_as_text:
  assumes "\<not> v_in_handler v" "ex_code x \<noteq> kAccessViolationC" "\<not> is_benign_debugger_exception (ex_code x)" "2 \<le> ex_params x"
    "ex_info x 1 \<noteq> 0" "ve_text e (ex_info x 1) = Inl f"
  shows "vectored_exception_handler e c x v = Inl f"
  using assms by (simp add: vectored_exception_handler_def Let_def)

lemma strstr_append: "c_strstr (pre @ needle @ post) needle"
proof (induction pre)
  case Nil
  then show ?case by (subst c_strstr.simps) simp
next
  case (Cons ch pre)
  then show ?case by (subst c_strstr.simps) simp
qed

text \<open>The start-up messages that are not to be reported, wherever the texts stand in them.\<close>

lemma suppressed_messages:
  assumes "s = a @ ''Error 7'' @ b" "s = a' @ ''StorageSystem::Registry::CNativeValue::Write'' @ b'"
  shows "should_suppress_message (Some s)"
  using strstr_append [of a "''Error 7''" b] strstr_append [of a' "''StorageSystem::Registry::CNativeValue::Write''" b'] assms
  by (simp add: should_suppress_message_def)

end
