(* ===== verification/TcpTrace.thy ===== *)
theory TcpTrace
  imports Net ProudDb DiagStream
begin

text \<open>
  What is written of a traced chunk, \<open>src/ProudNet/TcpTrace.cpp\<close>: the line in the logs, a line for every frame with the
  name the tables give it, and the record on the diagnostics pipe. Which chunks are traced, under which port and with
  which frames is in \<open>Net\<close>. Texts are HOL strings; the tables' names are bytes.
\<close>

section \<open>Texts\<close>

definition text_of :: "u8 list \<Rightarrow> string" where
  "text_of bs = map (\<lambda>b. char_of (unat b)) bs"

definition append_raw_preview :: "u8 list \<Rightarrow> nat \<Rightarrow> string res" where
  "append_raw_preview data len =
     (let n = min len 24 in
      if n = 0 then Inr []
      else if length data < n then Inl OobRead
      else Inr ('' raw='' @ concat (map show_hex2 (take n data)) @ (if len > n then ''...'' else [])))"

definition show_hex4 :: "u16 \<Rightarrow> string" where
  "show_hex4 x = text_of (hex4 x)"

definition frame_summary :: "parsed_frame \<Rightarrow> string" where
  "frame_summary f =
     ''{op=0x'' @ show_hex2 (opcode (inner f)) @ (if has_rmi (inner f) then '',rmi=0x'' @ show_hex4 (rmi_id (inner f)) else [])
     @ '',body['' @ show_nat (unat (body_len (inner f))) @ '']}''"

fun comma_join :: "string list \<Rightarrow> string" where
  "comma_join [] = []"
| "comma_join [s] = s"
| "comma_join (s # ss) = s @ '','' @ comma_join ss"

definition append_frames_text :: "parsed_frame list \<Rightarrow> string" where
  "append_frames_text fs =
     '' frames='' @ (if fs = [] then ''none'' else ''['' @ comma_join (map frame_summary fs) @ '']'')"

definition show_bool :: "bool \<Rightarrow> string" where
  "show_bool b = (if b then ''true'' else ''false'')"

definition dir_text :: "bool \<Rightarrow> string" where
  "dir_text inbound = (if inbound then ''rx'' else ''tx'')"

definition chunk_text :: "u32 \<Rightarrow> socket \<Rightarrow> u8 list option \<Rightarrow> trace_line \<Rightarrow> string res" where
  "chunk_text tid sock raw l =
     (let line = dir_text (tl_inbound l) @ '' :'' @ show_nat (unat (tl_port l)) @ '' tid='' @ show_nat (unat tid)
                 @ '' sock='' @ show_nat (unat sock) @ '' chunk='' @ show_nat (unat (tl_chunk l))
                 @ (if tl_incomplete l \<noteq> 0 then '' incomplete='' @ show_nat (unat (tl_incomplete l)) else [])
                 @ append_frames_text (tl_frames l)
      in case raw of
           Some d \<Rightarrow> if tl_frames l = [] \<and> tl_chunk l \<noteq> 0
                     then bindR (append_raw_preview d (unat (tl_chunk l))) (\<lambda>t. Inr (line @ t)) else Inr line
         | None \<Rightarrow> Inr line)"

section \<open>Writing\<close>

record trace_env =
  te_gp :: getpeername
  te_slot :: "nat \<Rightarrow> page \<times> socket"
  te_addr_port :: "nat \<Rightarrow> u16"
  te_dn :: diag_env
  te_vt :: bool
  te_json :: file_json

record trace_st =
  t_net :: net_state
  t_lg :: logger
  t_dg :: diag
  t_db :: "bool \<times> proud_db"

definition frame_message :: "bool \<times> u8 list \<Rightarrow> parsed_frame \<Rightarrow> log_message" where
  "frame_message kc f =
     \<lparr>message = ''op=0x'' @ show_hex2 (opcode (inner f)) @ '', rmi_id=0x'' @ show_hex4 (rmi_id (inner f)) @ '', has_rmi=''
        @ show_bool (has_rmi (inner f)) @ '', known='' @ show_bool (fst kc) @ '', comment='' @ text_of (snd kc),
      source = SrcProud, kind = (if fst kc then Seen else NotSeen)\<rparr>"

definition log_frame :: "trace_env \<Rightarrow> cfg \<Rightarrow> socket \<Rightarrow> parsed_frame \<Rightarrow> trace_st \<Rightarrow> trace_st" where
  "log_frame te c sock f st =
     (let (kc, db) = generate_frame_comment (te_json te) (opcode (inner f)) (rmi_id (inner f)) (has_rmi (inner f)) (t_db st)
      in st\<lparr>t_db := db, t_lg := logp_sock c (te_vt te) (sint sock) (frame_message kc f) (t_lg st)\<rparr>)"

definition log_frames :: "trace_env \<Rightarrow> cfg \<Rightarrow> socket \<Rightarrow> parsed_frame list \<Rightarrow> trace_st \<Rightarrow> trace_st" where
  "log_frames te c sock fs st = fold (log_frame te c sock) fs st"

definition pipe_frame :: "parsed_frame \<Rightarrow> pn_header" where
  "pipe_frame f = \<lparr>ph_payload_len = payload_len f, ph_opcode = ucast (opcode (inner f)), ph_rmi_id = ucast (rmi_id (inner f)),
     ph_body_len = body_len (inner f), ph_has_rmi = has_rmi (inner f)\<rparr>"

text \<open>\<open>log_line\<close> from where the keep-alive has been sorted out.\<close>

definition write_trace_line :: "trace_env \<Rightarrow> cfg \<Rightarrow> socket \<Rightarrow> u8 list option \<Rightarrow> trace_line \<Rightarrow> trace_st \<Rightarrow> trace_st res" where
  "write_trace_line te c sock raw l st =
     (let tid = dn_tid (te_dn te) in
      bindR (chunk_text tid sock raw l) (\<lambda>ln.
      let st1 = log_frames te c sock (tl_frames l) (st\<lparr>t_lg := logp c (te_vt te) (log_text ln) (t_lg st)\<rparr>)
      in if pipes c
         then bindR (emit_proudnet_tcp (te_dn te) c tid (ucast (tl_port l)) (Some (ascii (dir_text (tl_inbound l)))) sock
                       (tl_chunk l) (map pipe_frame (tl_frames l)) (tl_incomplete l) (t_dg st1)) (\<lambda>dg.
              Inr (st1\<lparr>t_dg := dg\<rparr>))
         else Inr st1))"

text \<open>\<open>TcpTrace::log_chunk\<close> as a whole; a scan that does not end or leaves the chunk is a read out of bounds here.\<close>

definition trace_chunk :: "trace_env \<Rightarrow> cfg \<Rightarrow> socket \<Rightarrow> u8 list option \<Rightarrow> size_t \<Rightarrow> bool \<Rightarrow> nat option \<Rightarrow> trace_st \<Rightarrow> trace_st res" where
  "trace_chunk te c sock data len inbound ctx st =
     (case log_chunk (te_gp te) (te_slot te) (te_addr_port te) (silent_keepalive c) (t_net st) sock data len inbound ctx of
        None \<Rightarrow> Inl OobRead
      | Some (line, net) \<Rightarrow>
          let st1 = st\<lparr>t_net := net\<rparr>
          in case line of None \<Rightarrow> Inr st1 | Some l \<Rightarrow> write_trace_line te c sock data l st1)"

definition log_connect :: "trace_env \<Rightarrow> cfg \<Rightarrow> socket \<Rightarrow> string \<Rightarrow> u16 \<Rightarrow> trace_st \<Rightarrow> trace_st res" where
  "log_connect te c sock addr port st =
     (if \<not> is_pn_track_port port then Inr st
      else let st1 = st\<lparr>t_lg := logp c (te_vt te) (log_text (''connect socket '' @ show_nat (unat sock) @ '' to '' @ addr @ '':''
                                                            @ show_nat (unat port))) (t_lg st)\<rparr>
      in if pipes c
         then bindR (emit_proudnet_tcp_connect (te_dn te) c (dn_tid (te_dn te)) sock (Some (ascii addr)) (ucast port) (t_dg st1)) (\<lambda>dg.
              Inr (st1\<lparr>t_dg := dg\<rparr>))
         else Inr st1)"

section \<open>One line, then one for each frame\<close>

definition proud_line :: "string \<Rightarrow> string" where
  "proud_line s = ''[proud] '' @ s @ [CHR 0x0A]"

definition proud_text :: "trace_st \<Rightarrow> string" where
  "proud_text st = file_text ProudLog (lg_trace (t_lg st))"

lemma proud_log_line:
  fixes lg :: logger and c :: cfg and vt :: bool
  assumes "source m = SrcProud"
  defines "lg' \<equiv> write_to m ProudLog True (logf c vt m lg)"
  shows "file_text ProudLog (lg_trace lg') = file_text ProudLog (lg_trace lg) @ (if proud_open lg then proud_line (message m) else [])"
    "proud_open lg' = proud_open lg"
proof -
  have 1: "proud_open (logf c vt m lg) = proud_open lg" "file_text ProudLog (lg_trace (logf c vt m lg)) = file_text ProudLog (lg_trace lg)"
    using logf_adds [of lg c vt m] by (auto simp: adds_def)
  then show "file_text ProudLog (lg_trace lg') = file_text ProudLog (lg_trace lg) @ (if proud_open lg then proud_line (message m) else [])"
    "proud_open lg' = proud_open lg"
    using write_to_adds [of "logf c vt m lg" m ProudLog] assms(1)
    by (auto simp: lg'_def adds_def proud_line_def full_line_def source_to_prefix_def)
qed

lemma logp_line:
  "file_text ProudLog (lg_trace (logp c vt m lg)) = file_text ProudLog (lg_trace lg) @ (if proud_open lg then proud_line (message m) else [])"
  "proud_open (logp c vt m lg) = proud_open lg"
  using proud_log_line [where m = "with_source m SrcProud" and lg = lg and c = c and vt = vt] by (simp_all add: logp_def with_source_def Let_def)

lemma logp_sock_line:
  "file_text ProudLog (lg_trace (logp_sock c vt sock m lg)) =
     file_text ProudLog (lg_trace lg) @ (if proud_open lg then proud_line (''sock '' @ show_int sock @ '': '' @ message m) else [])"
  "proud_open (logp_sock c vt sock m lg) = proud_open lg"
  using proud_log_line [where m = "(with_source m SrcProud)\<lparr>message := ''sock '' @ show_int sock @ '': '' @ message m\<rparr>" and lg = lg and c = c and vt = vt]
  by (simp_all add: logp_sock_def with_source_def Let_def)

text \<open>The line of a frame, with the tables as they are once they have been asked for.\<close>

definition frame_line :: "socket \<Rightarrow> proud_db \<Rightarrow> parsed_frame \<Rightarrow> string" where
  "frame_line sock db f = proud_line (''sock '' @ show_int (sint sock) @ '': '' @
     message (frame_message (frame_comment db (opcode (inner f)) (rmi_id (inner f)) (has_rmi (inner f))) f))"

lemma log_frames_text:
  "proud_text (log_frames te c sock fs st) = proud_text st
     @ (if proud_open (t_lg st) then concat (map (frame_line sock (snd (call_load (te_json te) (t_db st)))) fs) else [])
   \<and> proud_open (t_lg (log_frames te c sock fs st)) = proud_open (t_lg st)
   \<and> t_dg (log_frames te c sock fs st) = t_dg st \<and> t_net (log_frames te c sock fs st) = t_net st"
proof (induction fs arbitrary: st)
  case Nil
  then show ?case by (simp add: log_frames_def)
next
  case (Cons f fs)
  let ?st = "log_frame te c sock f st"
  have step: "log_frames te c sock (f # fs) st = log_frames te c sock fs ?st" by (simp add: log_frames_def)
  have db: "call_load (te_json te) (t_db ?st) = call_load (te_json te) (t_db st)"
    by (auto simp: log_frame_def generate_frame_comment_def call_load_def Let_def)
  have "proud_text ?st = proud_text st @ (if proud_open (t_lg st)
      then frame_line sock (snd (call_load (te_json te) (t_db st))) f else [])" "proud_open (t_lg ?st) = proud_open (t_lg st)"
    "t_dg ?st = t_dg st" "t_net ?st = t_net st"
    by (simp_all add: log_frame_def generate_frame_comment_def proud_text_def frame_line_def logp_sock_line Let_def)
  then show ?case using Cons.IH [of ?st] by (simp add: step db)
qed

lemma chunk_text_ok:
  "unat (tl_chunk l) \<le> length d \<Longrightarrow> \<exists>ln. chunk_text tid sock (Some d) l = Inr ln"
  by (auto simp: chunk_text_def append_raw_preview_def Let_def)

lemma plain_dir: "pred_option plain (Some (ascii (dir_text b)))"
  by (simp add: dir_text_def plain_simps)

lemma write_trace_line_ok:
  assumes "unat (tl_chunk l) \<le> length d" "diag_ok (t_dg st)"
  shows "\<exists>st' ln. chunk_text (dn_tid (te_dn te)) sock (Some d) l = Inr ln
    \<and> write_trace_line te c sock (Some d) l st = Inr st' \<and> diag_ok (t_dg st') \<and> t_net st' = t_net st
    \<and> proud_text st' = proud_text st @ (if proud_open (t_lg st)
        then proud_line ln @ concat (map (frame_line sock (snd (call_load (te_json te) (t_db st)))) (tl_frames l)) else [])"
proof -
  obtain ln where ln: "chunk_text (dn_tid (te_dn te)) sock (Some d) l = Inr ln" using chunk_text_ok [OF assms(1)] by blast
  let ?st0 = "st\<lparr>t_lg := logp c (te_vt te) (log_text ln) (t_lg st)\<rparr>"
  let ?st1 = "log_frames te c sock (tl_frames l) ?st0"
  have st1: "proud_text ?st1 = proud_text st @ (if proud_open (t_lg st)
        then proud_line ln @ concat (map (frame_line sock (snd (call_load (te_json te) (t_db st)))) (tl_frames l)) else [])"
    "t_dg ?st1 = t_dg st" "t_net ?st1 = t_net st"
    using log_frames_text [of te c sock "tl_frames l" ?st0] by (simp_all add: logp_line proud_text_def log_text_def)
  from emit_chunk_ok [OF assms(2) plain_dir] obtain dg where
    dg: "emit_proudnet_tcp (te_dn te) c (dn_tid (te_dn te)) (ucast (tl_port l)) (Some (ascii (dir_text (tl_inbound l)))) sock
       (tl_chunk l) (map pipe_frame (tl_frames l)) (tl_incomplete l) (t_dg st) = Inr dg" "diag_ok dg" by blast
  define st' where "st' = (if pipes c then ?st1\<lparr>t_dg := dg\<rparr> else ?st1)"
  have "write_trace_line te c sock (Some d) l st = Inr st'"
    using ln dg(1) st1(2) by (simp add: write_trace_line_def st'_def Let_def)
  moreover have "proud_text st' = proud_text ?st1" by (simp add: st'_def proud_text_def)
  moreover have "diag_ok (t_dg st')" "t_net st' = t_net st" using dg(2) assms(2) st1(2,3) by (simp_all add: st'_def)
  ultimately show ?thesis using ln st1(1) by auto
qed


section \<open>A chunk in a larger buffer\<close>

lemma rd_append: "rd xs i = Some b \<Longrightarrow> rd (xs @ ys) i = Some b"
  by (auto simp: rd_def nth_append split: if_splits)

lemma read_length_append: "read_length_le xs w = Some n \<Longrightarrow> read_length_le (xs @ ys) w = Some n"
  by (auto simp: read_length_le_def rd_append split: if_splits option.splits)

lemma summarize_append: "summarize_payload (Some xs) n = Some s \<Longrightarrow> summarize_payload (Some (xs @ ys)) n = Some s"
  by (auto simp: summarize_payload_def rd_append split: if_splits option.splits)

text \<open>What is left of a step once the header is there.\<close>

lemma scan_step_behind_header:
  assumes "off + 3 \<le> len \<and> k < cap" "(tag = 1 \<or> tag = 2 \<or> tag = 4) \<and> \<not> off + (3 + ucast tag) > len"
    and "rd x (unat off) = Some 0x13" "rd x (unat (off + 1)) = Some 0x57" "rd x (unat (off + 2)) = Some tag"
  shows "scan_step x len cap off k = (case read_length_le (drop (unat (off + 3)) x) tag of
      None \<Rightarrow> Next_Fault
    | Some plen \<Rightarrow> if off + (2 + 1 + ucast tag + plen) > len then Next_Stop
        else (case summarize_payload (Some (drop (unat (off + (3 + ucast tag))) x)) plen of
           None \<Rightarrow> Next_Fault
         | Some s \<Rightarrow> Next_Frame (off + (2 + 1 + ucast tag + plen))
             \<lparr>wire_bytes = 2 + 1 + ucast tag + plen, payload_len = plen, inner = s\<rparr>))"
  using assms by (simp only: scan_step_def option.case if_True if_False not_True_eq_False) auto

lemma scan_step_append:
  assumes "scan_step d len cap off k \<noteq> Next_Fault"
  shows "scan_step (d @ e) len cap off k = scan_step d len cap off k"
proof -
  let ?go = "off + 3 \<le> len \<and> k < cap"
  show ?thesis
  proof (cases ?go)
    case True
    then obtain b0 where b0: "rd d (unat off) = Some b0" using assms by (cases "rd d (unat off)") (simp_all add: scan_step_def)
    show ?thesis
    proof (cases "b0 = 0x13")
      case m0: True
      with True b0 obtain b1 where b1: "rd d (unat (off + 1)) = Some b1"
        using assms by (cases "rd d (unat (off + 1))") (simp_all add: scan_step_def)
      show ?thesis
      proof (cases "b1 = 0x57")
        case m1: True
        with True b0 m0 b1 obtain tag where tag: "rd d (unat (off + 2)) = Some tag"
          using assms by (cases "rd d (unat (off + 2))") (simp_all add: scan_step_def)
        let ?p = "read_length_le (drop (unat (off + 3)) d) tag"
        note bytes = True b0 m0 b1 m1 tag b0 [THEN rd_append, of e] b1 [THEN rd_append, of e] tag [THEN rd_append, of e]
        show ?thesis
        proof (cases "(tag = 1 \<or> tag = 2 \<or> tag = 4) \<and> \<not> off + (3 + ucast tag) > len")
          case False
          then show ?thesis using bytes by (auto simp: scan_step_def simp del: drop_append)
        next
          case fits: True
          note both = scan_step_behind_header [OF True fits b0 [unfolded m0] b1 [unfolded m1] tag]
            scan_step_behind_header [OF True fits b0 [unfolded m0, THEN rd_append, of e] b1 [unfolded m1, THEN rd_append, of e] tag [THEN rd_append, of e]]
          from assms both(1) obtain n where n: "?p = Some n" by (cases ?p) simp_all
          show ?thesis
          proof (cases "summarize_payload (Some (drop (unat (off + (3 + ucast tag))) d)) n")
            case None
            then show ?thesis using assms both n read_length_append [OF n] by (simp split: if_splits)
          next
            case (Some s)
            then show ?thesis using both n read_length_append [OF n] summarize_append [OF Some] by simp
          qed
        qed
      qed (use True b0 m0 b1 in \<open>simp add: scan_step_def rd_append\<close>)
    qed (use True b0 in \<open>simp add: scan_step_def rd_append\<close>)
  qed (auto simp: scan_step_def)
qed

lemma scan_loop_append:
  "scan_loop fuel d len cap off k = Scan_Done fs \<Longrightarrow> scan_loop fuel (d @ e) len cap off k = Scan_Done fs"
proof (induction fuel arbitrary: off k fs)
  case (Suc fuel)
  have "scan_step d len cap off k \<noteq> Next_Fault" using Suc.prems by (auto split: scan_next.splits)
  from scan_step_append [OF this] Suc show ?case by (auto split: scan_next.splits scan_result.splits)
qed simp

text \<open>Memory a chunk of \<open>n\<close> bytes can be traced in: it holds the bytes, and no length in them wraps around.\<close>

definition traceable :: "u8 list \<Rightarrow> nat \<Rightarrow> bool" where
  "traceable d n \<longleftrightarrow> n \<le> length d \<and> n < 2 ^ 31 \<and> no_length_wrap (take n d)"

lemma scan_traceable:
  assumes "traceable d n"
  shows "\<exists>fs. scan_frames (Some d) (word_of_nat n) True kMaxFramesPerLine = Scan_Done fs"
proof -
  have "scan_frames (Some (take n d @ drop n d)) (word_of_nat n) True kMaxFramesPerLine = Scan_Done fs"
    if "scan_frames (Some (take n d)) (word_of_nat n) True kMaxFramesPerLine = Scan_Done fs" for fs
    using that scan_loop_append by (auto simp: scan_frames_def simp del: append_take_drop_id split: if_splits)
  moreover have "length (take n d) = n" using assms by (simp add: traceable_def)
  ultimately show ?thesis
    using scan_frames_bounds [of "take n d" kMaxFramesPerLine] assms by (auto simp: traceable_def)
qed

lemma trace_chunk_total:
  assumes "traceable d n" "diag_ok (t_dg st)"
  shows "\<exists>st'. trace_chunk te c sock (Some d) (word_of_nat n) inb ctx st = Inr st' \<and> diag_ok (t_dg st')"
proof -
  obtain fs where "scan_frames (Some d) (word_of_nat n) True kMaxFramesPerLine = Scan_Done fs"
    using scan_traceable [OF assms(1)] by blast
  then have "\<exists>line net. log_chunk (te_gp te) (te_slot te) (te_addr_port te) (silent_keepalive c) (t_net st) sock
      (Some d) (word_of_nat n) inb ctx = Some (line, net) \<and> (\<forall>l. line = Some l \<longrightarrow> tl_chunk l = word_of_nat n)"
    by (cases "word_of_nat n = (0 :: size_t)"; cases "should_log_pn_chunk (te_gp te) (t_net st) sock
        (resolve_log_port (te_gp te) (te_slot te) (te_addr_port te) (t_net st) sock ctx) ctx")
       (auto simp: log_chunk_def trace_log_line_def Let_def)
  then obtain line net where l: "log_chunk (te_gp te) (te_slot te) (te_addr_port te) (silent_keepalive c) (t_net st) sock
      (Some d) (word_of_nat n) inb ctx = Some (line, net)" "\<And>l. line = Some l \<Longrightarrow> tl_chunk l = word_of_nat n"
    by blast
  have n: "unat (word_of_nat n :: size_t) \<le> length d" using assms(1) by (simp add: traceable_def unat_u32_of_nat)
  show ?thesis
  proof (cases line)
    case None
    then show ?thesis using l assms(2) by (simp add: trace_chunk_def)
  next
    case (Some ln)
    with write_trace_line_ok [of ln d "st\<lparr>t_net := net\<rparr>" te sock c] l n assms(2) show ?thesis
      by (auto simp: trace_chunk_def)
  qed
qed

definition demo_te :: trace_env where
  "demo_te = \<lparr>te_gp = (\<lambda>_. None), te_slot = (\<lambda>_. (None, 0)), te_addr_port = (\<lambda>_. 7000), te_dn = demo_dn, te_vt = True, te_json = NoFile\<rparr>"

definition demo_trace :: trace_st where
  "demo_trace = \<lparr>t_net = \<lparr>sockets_by_port = [], last_fast_ctx = None\<rparr>, t_lg = logger0, t_dg = quiet_diag,
     t_db = (False, empty_db)\<rparr>"


end
