(* ===== verification/Ws32.thy ===== *)
theory Ws32
  imports TcpTrace HookManager Runs
begin

text \<open>
  The handlers of the hooked Winsock functions, \<open>src/hooks/system/ws32.cpp\<close>: each logs and forwards to the real
  function. Pointers are addresses, 0 is null; what can be read there, before and after the forwarded call, is an argument,
  and so are its answer and the error code. A socket is logged as the \<open>int\<close> of its handle. Handlers keep the
  order of the code, so what they wrote is seen in the logs' trace.
\<close>

section \<open>State\<close>

text \<open>Memory: the bytes readable from an address, the \<open>WSABUF\<close>s (length and address) readable from an address, a
  \<open>DWORD\<close>, and a socket address with its family.\<close>

record ws_mem =
  wm_bytes :: "u32 \<Rightarrow> u8 list"
  wm_bufs :: "u32 \<Rightarrow> (u32 \<times> u32) list"
  wm_dword :: "u32 \<Rightarrow> u32"
  wm_sockaddr :: "u32 \<Rightarrow> u16 \<times> sockaddr_in"

datatype ws_peer = TheirAddr u32 | PatchedAddr sockaddr_in

text \<open>A forwarded call: where it goes and its arguments.\<close>

datatype ws_call = Forward u32 "u32 list" | ForwardConnect u32 socket ws_peer int

record ws =
  w_tr :: trace_st
  w_os :: override_statics
  w_sym :: "string \<Rightarrow> u32"           \<comment> \<open>\<open>sym_addr\<close> of the stubs\<close>
  w_calls :: "ws_call list"

record ws_env =
  we_te :: trace_env
  we_before :: ws_mem
  we_after :: ws_mem
  we_rc :: "ws_call \<Rightarrow> int"
  we_error :: u32                    \<comment> \<open>\<open>WSAGetLastError\<close>\<close>
  we_inet :: "string \<Rightarrow> u32"
  we_ntoa :: "u32 \<Rightarrow> string"
  we_left_last :: bool               \<comment> \<open>whether the first of two arguments of a call is evaluated last\<close>

definition forward :: "ws_env \<Rightarrow> string \<Rightarrow> u32 list \<Rightarrow> ws \<Rightarrow> (int \<times> ws) res" where
  "forward e name args st =
     (if w_sym st name = 0 then Inl NullDeref
      else let call = Forward (w_sym st name) args in Inr (we_rc e call, st\<lparr>w_calls := w_calls st @ [call]\<rparr>))"

section \<open>Logging\<close>

definition w_log :: "(logger \<Rightarrow> logger res) \<Rightarrow> ws \<Rightarrow> ws res" where
  "w_log f st = bindR (f (t_lg (w_tr st))) (\<lambda>lg. Inr (st\<lparr>w_tr := (w_tr st)\<lparr>t_lg := lg\<rparr>\<rparr>))"

definition log_tcp_payload :: "ws_env \<Rightarrow> cfg \<Rightarrow> ws_mem \<Rightarrow> socket \<Rightarrow> u32 \<Rightarrow> nat \<Rightarrow> bool \<Rightarrow> ws \<Rightarrow> ws res" where
  "log_tcp_payload e c m s data len inbound st =
     (if no_network_logs c \<or> data = 0 \<or> len = 0 then Inr st
      else w_log (logn_data c (te_vt (we_te e)) (sint s) inbound (Some (wm_bytes m data)) len) st)"

definition log_udp_len :: "ws_env \<Rightarrow> cfg \<Rightarrow> socket \<Rightarrow> nat \<Rightarrow> bool \<Rightarrow> ws \<Rightarrow> ws res" where
  "log_udp_len e c s len inbound st =
     (if no_network_logs c \<or> len = 0 then Inr st
      else w_log (\<lambda>lg. Inr (logn_directed c (te_vt (we_te e)) (sint s) inbound
             (log_text (''UDP, payload len '' @ show_nat len)) lg)) st)"

text \<open>The non-empty buffers of an array of \<open>count\<close>, as addresses and lengths; and those that \<open>bytes\<close> received
  bytes fill, with the bytes in each.\<close>

fun sent_chunks :: "nat \<Rightarrow> (u32 \<times> u32) list \<Rightarrow> (u32 \<times> nat) list res" where
  "sent_chunks 0 bl = Inr []"
| "sent_chunks (Suc n) [] = Inl OobRead"
| "sent_chunks (Suc n) ((len, buf) # bl) =
     bindR (sent_chunks n bl) (\<lambda>cs. Inr (if buf \<noteq> 0 \<and> len \<noteq> 0 then (buf, unat len) # cs else cs))"

fun recv_chunks :: "nat \<Rightarrow> nat \<Rightarrow> (u32 \<times> u32) list \<Rightarrow> (u32 \<times> nat) list res" where
  "recv_chunks 0 remaining bl = Inr []"
| "recv_chunks (Suc n) remaining bl =
     (if remaining = 0 then Inr []
      else case bl of
          [] \<Rightarrow> Inl OobRead
        | (len, buf) # bl' \<Rightarrow>
            if buf = 0 \<or> len = 0 then recv_chunks n remaining bl'
            else let chunk = (if remaining < unat len then remaining else unat len)
                 in bindR (recv_chunks n (remaining - chunk) bl') (\<lambda>cs. Inr ((buf, chunk) # cs)))"

definition net_chunk :: "ws_env \<Rightarrow> cfg \<Rightarrow> ws_mem \<Rightarrow> socket \<Rightarrow> bool \<Rightarrow> u32 \<times> nat \<Rightarrow> ws \<Rightarrow> ws res" where
  "net_chunk e c m s inbound ch st = log_tcp_payload e c m s (fst ch) (snd ch) inbound st"

definition pn_chunk :: "ws_env \<Rightarrow> cfg \<Rightarrow> ws_mem \<Rightarrow> socket \<Rightarrow> bool \<Rightarrow> u32 \<times> nat \<Rightarrow> ws \<Rightarrow> ws res" where
  "pn_chunk e c m s inbound ch st =
     bindR (trace_chunk (we_te e) c s (Some (wm_bytes m (fst ch))) (word_of_nat (snd ch)) inbound None (w_tr st)) (\<lambda>tr.
     Inr (st\<lparr>w_tr := tr\<rparr>))"

definition is_pn_traced :: "ws_env \<Rightarrow> socket \<Rightarrow> ws \<Rightarrow> bool" where
  "is_pn_traced e s st \<longleftrightarrow>
     is_pn_track_port (pn_log_port (te_gp (we_te e)) (t_net (w_tr st)) s) \<or> is_tracked_pn_socket (te_gp (we_te e)) (t_net (w_tr st)) s"

definition log_pn_wsasend_buffers :: "ws_env \<Rightarrow> cfg \<Rightarrow> socket \<Rightarrow> u32 \<Rightarrow> u32 \<Rightarrow> ws \<Rightarrow> ws res" where
  "log_pn_wsasend_buffers e c s bufs count st =
     (if bufs = 0 \<or> count = 0 then Inr st
      else bindR (sent_chunks (unat count) (wm_bufs (we_before e) bufs)) (\<lambda>cs.
           bindR (if is_pn_traced e s st then run_all (pn_chunk e c (we_before e) s False) cs st else Inr st) (\<lambda>st1.
           run_all (net_chunk e c (we_before e) s False) cs st1)))"

definition log_pn_wsarecv_buffers :: "ws_env \<Rightarrow> cfg \<Rightarrow> socket \<Rightarrow> u32 \<Rightarrow> u32 \<Rightarrow> u32 \<Rightarrow> ws \<Rightarrow> ws res" where
  "log_pn_wsarecv_buffers e c s bufs count bytes st =
     (if bufs = 0 \<or> count = 0 \<or> bytes = 0 then Inr st
      else bindR (recv_chunks (unat count) (unat bytes) (wm_bufs (we_after e) bufs)) (\<lambda>cs.
           bindR (run_all (net_chunk e c (we_after e) s True) cs st) (\<lambda>st1.
           if is_pn_traced e s st then run_all (pn_chunk e c (we_after e) s True) cs st1 else Inr st1)))"

fun wsabuf_sum :: "nat \<Rightarrow> (u32 \<times> u32) list \<Rightarrow> u32 res" where
  "wsabuf_sum 0 bl = Inr 0"
| "wsabuf_sum (Suc n) [] = Inl OobRead"
| "wsabuf_sum (Suc n) ((len, buf) # bl) = bindR (wsabuf_sum n bl) (\<lambda>rest. Inr (len + rest))"

definition wsabuf_total_len :: "ws_mem \<Rightarrow> u32 \<Rightarrow> u32 \<Rightarrow> u32 res" where
  "wsabuf_total_len m bufs count = (if bufs = 0 then Inr 0 else wsabuf_sum (unat count) (wm_bufs m bufs))"

section \<open>The handlers\<close>

text \<open>A length given as a C \<open>int\<close> is the \<open>size_t\<close> of its bits.\<close>

definition send_syshandle :: "ws_env \<Rightarrow> cfg \<Rightarrow> socket \<Rightarrow> u32 \<Rightarrow> u32 \<Rightarrow> u32 \<Rightarrow> ws \<Rightarrow> (int \<times> ws) res" where
  "send_syshandle e c s buf len flags st =
     bindR (log_tcp_payload e c (we_before e) s buf (unat len) False st) (\<lambda>st1. forward e ''send'' [s, buf, len, flags] st1)"

definition sendto_syshandle :: "ws_env \<Rightarrow> cfg \<Rightarrow> socket \<Rightarrow> u32 \<Rightarrow> u32 \<Rightarrow> u32 \<Rightarrow> u32 \<Rightarrow> u32 \<Rightarrow> ws \<Rightarrow> (int \<times> ws) res" where
  "sendto_syshandle e c s buf len flags to tolen st =
     bindR (log_udp_len e c s (unat len) False st) (\<lambda>st1. forward e ''sendto'' [s, buf, len, flags, to, tolen] st1)"

definition wsasend_forward :: "ws_env \<Rightarrow> cfg \<Rightarrow> socket \<Rightarrow> u32 \<Rightarrow> u32 \<Rightarrow> u32 \<Rightarrow> u32 \<Rightarrow> u32 \<Rightarrow> u32 \<Rightarrow> ws \<Rightarrow> (int \<times> ws) res" where
  "wsasend_forward e c s bufs count bytes_sent flags overlapped completion st =
     bindR (log_pn_wsasend_buffers e c s bufs count st) (\<lambda>st1.
     forward e ''WSASend'' [s, bufs, count, bytes_sent, flags, overlapped, completion] st1)"

definition wsasend_syshandle :: "ws_env \<Rightarrow> cfg \<Rightarrow> socket \<Rightarrow> u32 \<Rightarrow> u32 \<Rightarrow> u32 \<Rightarrow> u32 \<Rightarrow> u32 \<Rightarrow> u32 \<Rightarrow> ws \<Rightarrow> (int \<times> ws) res" where
  "wsasend_syshandle = wsasend_forward"

definition wsasendto_syshandle :: "ws_env \<Rightarrow> cfg \<Rightarrow> socket \<Rightarrow> u32 \<Rightarrow> u32 \<Rightarrow> u32 \<Rightarrow> u32 \<Rightarrow> u32 \<Rightarrow> u32 \<Rightarrow> u32 \<Rightarrow> u32 \<Rightarrow> ws
    \<Rightarrow> (int \<times> ws) res" where
  "wsasendto_syshandle e c s bufs count bytes_sent flags to tolen overlapped completion st =
     bindR (wsabuf_total_len (we_before e) bufs count) (\<lambda>n.
     bindR (log_udp_len e c s (unat n) False st) (\<lambda>st1.
     forward e ''WSASendTo'' [s, bufs, count, bytes_sent, flags, to, tolen, overlapped, completion] st1))"

definition recv_syshandle :: "ws_env \<Rightarrow> cfg \<Rightarrow> socket \<Rightarrow> u32 \<Rightarrow> u32 \<Rightarrow> u32 \<Rightarrow> ws \<Rightarrow> (int \<times> ws) res" where
  "recv_syshandle e c s buf len flags st =
     bindR (forward e ''recv'' [s, buf, len, flags] st) (\<lambda>(rc, st1).
     bindR (if rc > 0 then log_tcp_payload e c (we_after e) s buf (nat rc) True st1 else Inr st1) (\<lambda>st2. Inr (rc, st2)))"

definition recvfrom_syshandle :: "ws_env \<Rightarrow> cfg \<Rightarrow> socket \<Rightarrow> u32 \<Rightarrow> u32 \<Rightarrow> u32 \<Rightarrow> u32 \<Rightarrow> u32 \<Rightarrow> ws \<Rightarrow> (int \<times> ws) res" where
  "recvfrom_syshandle e c s buf len flags from_addr fromlen st =
     bindR (forward e ''recvfrom'' [s, buf, len, flags, from_addr, fromlen] st) (\<lambda>(rc, st1).
     bindR (if rc > 0 then log_udp_len e c s (nat rc) True st1 else Inr st1) (\<lambda>st2. Inr (rc, st2)))"

definition wsarecv_forward :: "ws_env \<Rightarrow> cfg \<Rightarrow> socket \<Rightarrow> u32 \<Rightarrow> u32 \<Rightarrow> u32 \<Rightarrow> u32 \<Rightarrow> u32 \<Rightarrow> u32 \<Rightarrow> ws \<Rightarrow> (int \<times> ws) res" where
  "wsarecv_forward e c s bufs count bytes_recvd flags overlapped completion st =
     bindR (forward e ''WSARecv'' [s, bufs, count, bytes_recvd, flags, overlapped, completion] st) (\<lambda>(rc, st1).
     bindR (if rc = 0 \<and> bytes_recvd \<noteq> 0 \<and> wm_dword (we_after e) bytes_recvd > 0
            then log_pn_wsarecv_buffers e c s bufs count (wm_dword (we_after e) bytes_recvd) st1 else Inr st1) (\<lambda>st2. Inr (rc, st2)))"

definition wsarecv_syshandle :: "ws_env \<Rightarrow> cfg \<Rightarrow> socket \<Rightarrow> u32 \<Rightarrow> u32 \<Rightarrow> u32 \<Rightarrow> u32 \<Rightarrow> u32 \<Rightarrow> u32 \<Rightarrow> ws \<Rightarrow> (int \<times> ws) res" where
  "wsarecv_syshandle = wsarecv_forward"

definition wsarecvfrom_syshandle :: "ws_env \<Rightarrow> cfg \<Rightarrow> socket \<Rightarrow> u32 \<Rightarrow> u32 \<Rightarrow> u32 \<Rightarrow> u32 \<Rightarrow> u32 \<Rightarrow> u32 \<Rightarrow> u32 \<Rightarrow> u32 \<Rightarrow> ws
    \<Rightarrow> (int \<times> ws) res" where
  "wsarecvfrom_syshandle e c s bufs count bytes_recvd flags from_addr fromlen overlapped completion st =
     bindR (forward e ''WSARecvFrom'' [s, bufs, count, bytes_recvd, flags, from_addr, fromlen, overlapped, completion] st) (\<lambda>(rc, st1).
     bindR (if rc = 0 \<and> bytes_recvd \<noteq> 0 \<and> wm_dword (we_after e) bytes_recvd > 0
            then log_udp_len e c s (unat (wm_dword (we_after e) bytes_recvd)) True st1 else Inr st1) (\<lambda>st2. Inr (rc, st2)))"

definition connect_forward :: "ws_env \<Rightarrow> socket \<Rightarrow> ws_peer \<Rightarrow> int \<Rightarrow> ws \<Rightarrow> (int \<times> ws) res" where
  "connect_forward e s peer namelen st =
     (if w_sym st ''connect'' = 0 then Inl NullDeref
      else let call = ForwardConnect (w_sym st ''connect'') s peer namelen
           in Inr (we_rc e call, st\<lparr>w_calls := w_calls st @ [call]\<rparr>))"

definition WSAEWOULDBLOCK :: u32 where "WSAEWOULDBLOCK = 10035"

text \<open>\<open>inet_ntoa\<close> answers a buffer that the next call overwrites, so both texts are the one of the call made last.\<close>

definition redirect_text :: "ws_env \<Rightarrow> u32 \<Rightarrow> u32 \<Rightarrow> string" where
  "redirect_text e was now =
     (let buffer = we_ntoa e (if we_left_last e then was else now)
      in ''connect:27380 '' @ buffer @ '' -> '' @ buffer)"

definition override_of :: "cfg \<Rightarrow> override_config" where
  "override_of c = \<lparr>override_config.server_override = cfg.server_override c, override_config.server_ip = cfg.server_ip c\<rparr>"

definition hooked_connect_with_remap :: "ws_env \<Rightarrow> cfg \<Rightarrow> socket \<Rightarrow> u32 \<Rightarrow> int \<Rightarrow> ws \<Rightarrow> (int \<times> ws) res" where
  "hooked_connect_with_remap e c s name namelen st =
     (let inet = name \<noteq> 0 \<and> namelen \<ge> 16 \<and> fst (wm_sockaddr (we_before e) name) = AF_INET;
          sa = snd (wm_sockaddr (we_before e) name)
      in if \<not> inet then connect_forward e s (TheirAddr name) namelen st
         else let (changed, sa', os) = remap_sockaddr_in (we_inet e) (override_of c) sa (w_os st);
                  st1 = st\<lparr>w_os := os\<rparr>;
                  st2 = (if changed \<and> ntohs (sin_port sa') = kGameLegPort
                         then st1\<lparr>w_tr := (w_tr st1)\<lparr>t_lg := logf c (te_vt (we_te e)) (net_message
                           (redirect_text e (s_addr sa) (s_addr sa'))) (t_lg (w_tr st1))\<rparr>\<rparr>
                         else st1);
                  peer = (if changed then PatchedAddr sa' else TheirAddr name)
              in bindR (connect_forward e s peer namelen st2) (\<lambda>(rc, st3).
                 let port = ntohs (sin_port (if changed then sa' else sa))
                 in Inr (rc, if is_pn_track_port port \<and> (rc = 0 \<or> we_error e = WSAEWOULDBLOCK)
                             then st3\<lparr>w_tr := (w_tr st3)\<lparr>t_net := track_connect s port (t_net (w_tr st3))\<rparr>\<rparr> else st3)))"

definition connect_syshandle :: "ws_env \<Rightarrow> cfg \<Rightarrow> socket \<Rightarrow> u32 \<Rightarrow> int \<Rightarrow> ws \<Rightarrow> (int \<times> ws) res" where
  "connect_syshandle = hooked_connect_with_remap"

section \<open>What is logged\<close>

text \<open>Memory that a chunk can be logged from, and the line of its bytes in the network log.\<close>

definition chunk_loggable :: "ws_mem \<Rightarrow> u32 \<times> nat \<Rightarrow> bool" where
  "chunk_loggable m ch \<longleftrightarrow> traceable (wm_bytes m (fst ch)) (snd ch)"

definition net_dump :: "cfg \<Rightarrow> ws_mem \<Rightarrow> socket \<Rightarrow> bool \<Rightarrow> u32 \<times> nat \<Rightarrow> string" where
  "net_dump c m s inbound ch =
     (let bs = take (snd ch) (wm_bytes m (fst ch))
      in if no_network_logs c \<or> fst ch = 0 \<or> snd ch = 0 \<or> silent_keepalive c \<and> bs = kPnKeepalive then []
         else ''[net] '' @ rx_tx inbound @ '' sock '' @ show_int (sint s) @ '' data['' @ show_nat (snd ch) @ '']: '' @ join_hex bs @ [CHR 0x0A])"

text \<open>A logger after a step: the network log has grown by \<open>net\<close>, the Proud log has not; or the other way round.\<close>

definition net_only :: "logger \<Rightarrow> logger \<Rightarrow> string \<Rightarrow> bool" where
  "net_only a b net \<longleftrightarrow> (\<exists>main con pipe. adds a b main net [] con pipe)"

definition proud_only :: "logger \<Rightarrow> logger \<Rightarrow> bool" where
  "proud_only a b \<longleftrightarrow> (\<exists>main proud con pipe. adds a b main [] proud con pipe)"

lemma net_onlyI: "adds a b main net [] con pipe \<Longrightarrow> net_only a b net"
  unfolding net_only_def by blast

lemma proud_onlyI: "adds a b main [] proud con pipe \<Longrightarrow> proud_only a b"
  unfolding proud_only_def by blast

lemma net_only_trans: "net_only a b m \<Longrightarrow> net_only b d n \<Longrightarrow> net_only a d (m @ n)"
  unfolding net_only_def using adds_trans [where p = "[]" and p' = "[]"] by fastforce

lemma proud_only_trans: "proud_only a b \<Longrightarrow> proud_only b d \<Longrightarrow> proud_only a d"
  unfolding proud_only_def using adds_trans [where n = "[]" and n' = "[]"] by fastforce

lemma only_refl: "net_only a a []" "proud_only a a"
  using net_onlyI [OF adds_refl] proud_onlyI [OF adds_refl] by blast+

lemma write_net_only: "net_only lg (write_to m NetLog True lg) (if net_open lg then full_line m else [])"
  by (rule net_onlyI [OF write_to_adds [of lg m NetLog, simplified]])

lemma log_net_only:
  assumes "source m = SrcNet"
  shows "net_only lg (log_net c vt m lg) []" "net_open (log_net c vt m lg) = net_open lg"
  using log_net_adds [OF assms, of lg c vt] by (auto simp: net_only_def adds_def)

lemma logn_data_dump:
  assumes "n \<le> length d"
  shows "\<exists>lg'. logn_data c vt sock inb (Some d) n lg = Inr lg' \<and> net_only lg lg'
    (if no_network_logs c \<or> silent_keepalive c \<and> take n d = kPnKeepalive \<or> \<not> net_open lg then []
     else ''[net] '' @ rx_tx inb @ '' sock '' @ show_int sock @ '' data['' @ show_nat n @ '']: '' @ join_hex (take n d) @ [CHR 0x0A])"
proof -
  have rd: "read_data (Some d) n = Inr (take n d)" using assms by (simp add: read_data_def)
  have keep: "is_keepalive_packet (Some d) n = Inr (take n d = kPnKeepalive)"
  proof (cases "n = length kPnKeepalive")
    case True
    then show ?thesis using rd by (simp add: is_keepalive_packet_def)
  next
    case False
    then have "length (take n d) \<noteq> length kPnKeepalive" using assms by simp
    then have "take n d \<noteq> kPnKeepalive" by metis
    with False show ?thesis by (simp add: is_keepalive_packet_def)
  qed
  show ?thesis
  proof (cases "no_network_logs c \<or> silent_keepalive c \<and> take n d = kPnKeepalive")
    case True
    then show ?thesis using keep only_refl by (auto simp: logn_data_def)
  next
    case False
    let ?short = "net_message (rx_tx inb @ '' sock '' @ show_int sock @ '' len='' @ show_nat n)"
    let ?dump = "net_message (rx_tx inb @ '' sock '' @ show_int sock @ '' data['' @ show_nat n @ '']: '' @ join_hex (take n d))"
    let ?lg = "log_net c vt ?short lg"
    note step = log_net_only [where m = ?short and lg = lg and c = c and vt = vt, unfolded net_message_simps, OF refl]
    from net_only_trans [OF step(1) write_net_only [of ?lg ?dump]]
    have "net_only lg (write_to ?dump NetLog True ?lg) (if net_open lg then full_line ?dump else [])" by (simp only: step(2) append_Nil)
    with False keep rd show ?thesis
      by (auto simp: logn_data_def net_message_simps Let_def)
  qed
qed

lemma log_tcp_payload_dump:
  assumes "n \<le> length (wm_bytes m a)"
  shows "\<exists>st'. log_tcp_payload e c m s a n inb st = Inr st' \<and> w_tr st' = (w_tr st)\<lparr>t_lg := t_lg (w_tr st')\<rparr>
    \<and> net_only (t_lg (w_tr st)) (t_lg (w_tr st')) (if net_open (t_lg (w_tr st)) then net_dump c m s inb (a, n) else [])"
proof (cases "no_network_logs c \<or> a = 0 \<or> n = 0")
  case True
  then show ?thesis using only_refl by (auto simp: log_tcp_payload_def net_dump_def)
next
  case False
  with logn_data_dump [OF assms, of c "te_vt (we_te e)" "sint s" inb "t_lg (w_tr st)"] show ?thesis
    by (auto simp: log_tcp_payload_def w_log_def net_dump_def Let_def)
qed

text \<open>The dumps of the chunks of an array, one after the other.\<close>

definition net_dumped :: "ws \<Rightarrow> ws \<Rightarrow> string \<Rightarrow> bool" where
  "net_dumped st st' t \<longleftrightarrow>
     w_tr st' = (w_tr st)\<lparr>t_lg := t_lg (w_tr st')\<rparr> \<and> net_only (t_lg (w_tr st)) (t_lg (w_tr st')) t"

lemma net_dumped_trans:
  assumes "net_dumped s t x" "net_dumped t u y"
  shows "net_dumped s u (x @ y)"
proof -
  have "w_tr u = (w_tr s)\<lparr>t_lg := t_lg (w_tr u)\<rparr>"
  proof -
    have "w_tr u = (w_tr t)\<lparr>t_lg := t_lg (w_tr u)\<rparr>" "w_tr t = (w_tr s)\<lparr>t_lg := t_lg (w_tr t)\<rparr>"
      using assms unfolding net_dumped_def by blast+
    note a = this
    show ?thesis by (subst a(1), subst a(2)) simp
  qed
  then show ?thesis using assms net_only_trans by (auto simp: net_dumped_def)
qed

interpretation net_dumps: reporting "net_chunk e c m sk inb" "chunk_loggable m" "\<lambda>st. net_open (t_lg (w_tr st)) = o'"
  net_dumped "\<lambda>ch. if o' then net_dump c m sk inb ch else []" for e c m sk inb o'
proof -
  have step: "\<exists>st'. net_chunk e c m sk inb ch st = Inr st' \<and> net_open (t_lg (w_tr st')) = o'
      \<and> net_dumped st st' (if o' then net_dump c m sk inb ch else [])"
    if "net_open (t_lg (w_tr st)) = o'" "chunk_loggable m ch" for st ch
  proof -
    obtain a n where ch: "ch = (a, n)" by fastforce
    have "n \<le> length (wm_bytes m a)" using that(2) by (simp add: ch chunk_loggable_def traceable_def)
    from log_tcp_payload_dump [OF this, where e = e and c = c and s = sk and inb = inb and st = st] that(1) show ?thesis
      by (auto simp: ch net_chunk_def net_dumped_def net_only_def adds_def)
  qed
  show "reporting (net_chunk e c m sk inb) (chunk_loggable m) (\<lambda>st. net_open (t_lg (w_tr st)) = o')
      net_dumped (\<lambda>ch. if o' then net_dump c m sk inb ch else [])"
    by unfold_locales (use step in \<open>fastforce+\<close>, simp add: net_dumped_def only_refl, rule net_dumped_trans)
qed

lemma net_chunks_dump:
  assumes "\<forall>ch \<in> set cs. chunk_loggable m ch"
  shows "\<exists>st'. run_all (net_chunk e c m s inb) cs st = Inr st' \<and> w_tr st' = (w_tr st)\<lparr>t_lg := t_lg (w_tr st')\<rparr>
    \<and> net_only (t_lg (w_tr st)) (t_lg (w_tr st'))
        (if net_open (t_lg (w_tr st)) then concat (map (net_dump c m s inb) cs) else [])"
proof -
  have "concat (map (\<lambda>ch. if net_open (t_lg (w_tr st)) then net_dump c m s inb ch else []) cs)
      = (if net_open (t_lg (w_tr st)) then concat (map (net_dump c m s inb) cs) else [])" by simp
  with net_dumps.run_reports [OF refl assms, where e = e and c = c and sk = s and inb = inb and s = st] show ?thesis by (auto simp: net_dumped_def)
qed

lemma logp_proud_only: "source m = SrcProud \<Longrightarrow> proud_only lg (write_to m ProudLog True (logf c vt m lg))"
  by (rule proud_onlyI, rule adds_trans [where n = "[]" and n' = "[]", simplified],
      rule logf_adds, rule write_to_adds [of _ m ProudLog, simplified])

lemma log_frame_proud_only: "proud_only (t_lg st) (t_lg (log_frame te c sock f st))"
  by (simp add: log_frame_def logp_sock_def logp_proud_only with_source_def split_beta Let_def)

lemma log_frames_proud_only: "proud_only (t_lg st) (t_lg (log_frames te c sock fs st))"
proof (induction fs arbitrary: st)
  case (Cons f fs)
  then show ?case
    using proud_only_trans [OF log_frame_proud_only Cons.IH] by (simp add: log_frames_def)
qed (simp add: log_frames_def only_refl)

lemma write_trace_line_proud_only:
  assumes "write_trace_line te c sock raw l st = Inr st'"
  shows "proud_only (t_lg st) (t_lg st')"
proof -
  have "proud_only (t_lg st) (logp c (te_vt te) m (t_lg st))" for m
    by (simp add: logp_def logp_proud_only with_source_def Let_def)
  then have "proud_only (t_lg st) (t_lg (log_frames te c sock (tl_frames l) (st\<lparr>t_lg := logp c (te_vt te) m (t_lg st)\<rparr>)))" for m
    using proud_only_trans [OF _ log_frames_proud_only [of "st\<lparr>t_lg := logp c (te_vt te) m (t_lg st)\<rparr>"]] by simp
  then show ?thesis using assms by (auto simp: write_trace_line_def bindR_eq_Inr Let_def split: if_splits)
qed

lemma trace_chunk_proud_only: "trace_chunk te c sock d n inb ctx st = Inr st' \<Longrightarrow> proud_only (t_lg st) (t_lg st')"
  by (auto simp: trace_chunk_def only_refl Let_def dest!: write_trace_line_proud_only split: option.splits)

interpretation proud_lines: reporting "pn_chunk e c m sk inb" "chunk_loggable m" "\<lambda>st :: ws. diag_ok (t_dg (w_tr st))"
  "\<lambda>(st :: ws) (st' :: ws) _. proud_only (t_lg (w_tr st)) (t_lg (w_tr st'))" "\<lambda>_. [] :: unit list" for e c m sk inb
proof
  fix st :: ws and ch :: "u32 \<times> nat"
  assume "diag_ok (t_dg (w_tr st))" "chunk_loggable m ch"
  with trace_chunk_total [of "wm_bytes m (fst ch)" "snd ch" "w_tr st" "we_te e" c sk inb None]
  show "\<exists>st'. pn_chunk e c m sk inb ch st = Inr st' \<and> diag_ok (t_dg (w_tr st'))"
    by (auto simp: pn_chunk_def chunk_loggable_def)
next
  fix st st' :: ws and ch :: "u32 \<times> nat"
  assume "pn_chunk e c m sk inb ch st = Inr st'"
  then show "proud_only (t_lg (w_tr st)) (t_lg (w_tr st'))"
    by (auto simp: pn_chunk_def bindR_eq_Inr dest: trace_chunk_proud_only)
qed (auto simp: only_refl intro: proud_only_trans)

lemma pn_chunks_proud_only:
  assumes "\<forall>ch \<in> set cs. chunk_loggable m ch" "diag_ok (t_dg (w_tr st))"
  shows "\<exists>st'. run_all (pn_chunk e c m s inb) cs st = Inr st' \<and> diag_ok (t_dg (w_tr st'))
    \<and> proud_only (t_lg (w_tr st)) (t_lg (w_tr st'))"
  using proud_lines.run_reports [OF assms(2,1)] by blast

lemma traced_chunks_proud_only:
  assumes "\<forall>ch \<in> set cs. chunk_loggable m ch" "diag_ok (t_dg (w_tr st))"
  shows "\<exists>st'. (if traced then run_all (pn_chunk e c m s inb) cs st else Inr st) = Inr st' \<and> diag_ok (t_dg (w_tr st'))
    \<and> proud_only (t_lg (w_tr st)) (t_lg (w_tr st')) \<and> (traced \<or> t_lg (w_tr st') = t_lg (w_tr st))"
  using pn_chunks_proud_only [OF assms, of e c s inb] only_refl(2) assms(2) by (cases traced) auto

text \<open>The chunks of a received array are the received bytes, in order: what \<open>bytes\<close> bytes fill of its buffers.\<close>

definition buffer_bytes :: "ws_mem \<Rightarrow> u32 \<times> u32 \<Rightarrow> u8 list" where
  "buffer_bytes m b = (if snd b = 0 then [] else take (unat (fst b)) (wm_bytes m (snd b)))"

definition buffer_readable :: "ws_mem \<Rightarrow> u32 \<times> u32 \<Rightarrow> bool" where
  "buffer_readable m b \<longleftrightarrow> snd b = 0 \<or> unat (fst b) \<le> length (wm_bytes m (snd b))"

definition chunk_data :: "ws_mem \<Rightarrow> u32 \<times> nat \<Rightarrow> u8 list" where
  "chunk_data m ch = take (snd ch) (wm_bytes m (fst ch))"

lemma recv_chunks_split:
  assumes "n \<le> length bl" "\<forall>b \<in> set (take n bl). buffer_readable m b"
  shows "\<exists>cs. recv_chunks n remaining bl = Inr cs \<and> (\<forall>ch \<in> set cs. fst ch \<noteq> 0 \<and> 0 < snd ch \<and> snd ch \<le> remaining)
    \<and> concat (map (chunk_data m) cs) = take remaining (concat (map (buffer_bytes m) (take n bl)))"
  using assms
proof (induction n remaining bl rule: recv_chunks.induct)
  case (2 n remaining bl)
  show ?case
  proof (cases "remaining = 0")
    case False
    then obtain len buf bl' where bl: "bl = (len, buf) # bl'" using "2.prems"(1) by (cases bl) auto
    show ?thesis
    proof (cases "buf = 0 \<or> len = 0")
      case True
      with "2.IH"(1) [OF False bl refl True] "2.prems" False bl show ?thesis
        by (auto simp: buffer_bytes_def)
    next
      case used: False
      let ?chunk = "if remaining < unat len then remaining else unat len"
      have readable: "unat len \<le> length (wm_bytes m buf)" using "2.prems"(2) used bl by (auto simp: buffer_readable_def)
      have pos: "0 < unat len" using used by (simp add: unat_gt_0)
      obtain cs where cs: "recv_chunks n (remaining - ?chunk) bl' = Inr cs"
        "\<forall>ch \<in> set cs. fst ch \<noteq> 0 \<and> 0 < snd ch \<and> snd ch \<le> remaining - ?chunk"
        "concat (map (chunk_data m) cs) = take (remaining - ?chunk) (concat (map (buffer_bytes m) (take n bl')))"
        using "2.IH"(2) [OF False bl refl used refl] "2.prems" bl by auto
      have "take remaining (concat (map (buffer_bytes m) (take (Suc n) bl)))
          = take ?chunk (wm_bytes m buf) @ take (remaining - ?chunk) (concat (map (buffer_bytes m) (take n bl')))"
        using used readable by (auto simp: bl buffer_bytes_def min_def)
      with cs False used pos show ?thesis by (auto simp: bl chunk_data_def [of m "(buf, k)" for k])
    qed
  qed auto
qed auto

section \<open>A system to try it on\<close>

definition demo_mem :: ws_mem where
  "demo_mem = \<lparr>wm_bytes = (\<lambda>a. if a = 100 then [0x13, 0x57, 1, 1, 0x1C] else []), wm_bufs = (\<lambda>_. [(5, 100)]), wm_dword = (\<lambda>_. 5),
     wm_sockaddr = (\<lambda>_. (AF_INET, \<lparr>sin_port = 0x581B, s_addr = 5\<rparr>))\<rparr>"

definition demo_we :: ws_env where
  "demo_we = \<lparr>we_te = demo_te, we_before = demo_mem, we_after = demo_mem, we_rc = (\<lambda>_. 0), we_error = 0,
     we_inet = (\<lambda>h. if h = kEntryHost then 5 else 9), we_ntoa = (\<lambda>_. ''x''), we_left_last = False\<rparr>"

definition demo_ws :: ws where
  "demo_ws = \<lparr>w_tr = demo_trace, w_os = \<lparr>ov_pn_address = None, ov_target = None\<rparr>, w_sym = (\<lambda>_. 1), w_calls = []\<rparr>"

lemma demo_chunk: "traceable [0x13, 0x57, 1, 1, 0x1C] 5"
  by (simp add: traceable_def no_length_wrap_def header4_at_def)

lemma demo_diag: "diag_ok (t_dg (w_tr demo_ws))"
  by (simp add: demo_ws_def demo_trace_def diag_ok_def quiet_diag_def)

lemmas demo_ws_simps = demo_ws_def demo_trace_def demo_we_def demo_mem_def

text \<open>What a send through \<open>WSASend\<close> leaves in the logs: of a traced socket first the lines of the higher layer, in the Proud log
  only, then the dumps of the buffers, in order, in the network log only; of any other socket only the dumps. The diagnostics
  stream stays well formed.\<close>

theorem sent_logs_in_order:
  assumes "bufs \<noteq> 0" "count \<noteq> 0" "sent_chunks (unat count) (wm_bufs (we_before e) bufs) = Inr cs"
    and "\<forall>ch \<in> set cs. chunk_loggable (we_before e) ch" "diag_ok (t_dg (w_tr st))"
  shows "\<exists>st' mid. log_pn_wsasend_buffers e c s bufs count st = Inr st' \<and> diag_ok (t_dg (w_tr st'))
    \<and> proud_only (t_lg (w_tr st)) mid \<and> (is_pn_traced e s st \<or> mid = t_lg (w_tr st))
    \<and> net_only mid (t_lg (w_tr st'))
        (if net_open (t_lg (w_tr st)) then concat (map (net_dump c (we_before e) s False) cs) else [])"
proof -
  obtain st1 where 1: "(if is_pn_traced e s st then run_all (pn_chunk e c (we_before e) s False) cs st else Inr st) = Inr st1"
    "diag_ok (t_dg (w_tr st1))" "proud_only (t_lg (w_tr st)) (t_lg (w_tr st1))" "is_pn_traced e s st \<or> t_lg (w_tr st1) = t_lg (w_tr st)"
    using traced_chunks_proud_only [OF assms(4,5)] by blast
  obtain st2 where 2: "run_all (net_chunk e c (we_before e) s False) cs st1 = Inr st2" "w_tr st2 = (w_tr st1)\<lparr>t_lg := t_lg (w_tr st2)\<rparr>"
    "net_only (t_lg (w_tr st1)) (t_lg (w_tr st2))
       (if net_open (t_lg (w_tr st1)) then concat (map (net_dump c (we_before e) s False) cs) else [])"
    using net_chunks_dump [OF assms(4)] by blast
  have "net_open (t_lg (w_tr st1)) = net_open (t_lg (w_tr st))" using 1(3) by (auto simp: proud_only_def adds_def)
  moreover have "diag_ok (t_dg (w_tr st2))" by (subst 2(2)) (simp add: 1(2))
  ultimately show ?thesis using assms 1 2(1,3) by (auto simp: log_pn_wsasend_buffers_def)
qed

theorem sent_logs_in_order_witness:
  "\<exists>st'. log_pn_wsasend_buffers demo_we default_cfg 5 40 1 demo_ws = Inr st' \<and> diag_ok (t_dg (w_tr st'))"
proof -
  have "sent_chunks (unat (1 :: u32)) (wm_bufs (we_before demo_we) 40) = Inr [(100, 5)]" by (simp add: demo_ws_simps)
  from sent_logs_in_order [OF _ _ this _ demo_diag, of default_cfg 5] demo_chunk show ?thesis
    by (auto simp: chunk_loggable_def demo_ws_simps)
qed



section \<open>Handlers do not interfere\<close>

definition same_calls :: "ws \<Rightarrow> ws \<Rightarrow> bool" where
  "same_calls st st' \<longleftrightarrow> w_calls st' = w_calls st \<and> w_os st' = w_os st \<and> w_sym st' = w_sym st"

lemma same_calls_trans [trans]: "same_calls a b \<Longrightarrow> same_calls b d \<Longrightarrow> same_calls a d"
  by (simp add: same_calls_def)

lemma same_calls_refl [simp]: "same_calls a a"
  by (simp add: same_calls_def)

lemma payload_calls: "log_tcp_payload e c m s data len inbound st = Inr st' \<Longrightarrow> same_calls st st'"
  by (auto simp: log_tcp_payload_def w_log_def bindR_eq_Inr same_calls_def split: if_splits)

lemma udp_calls: "log_udp_len e c s len inbound st = Inr st' \<Longrightarrow> same_calls st st'"
  by (auto simp: log_udp_len_def w_log_def bindR_eq_Inr same_calls_def split: if_splits)

lemma net_chunk_calls: "net_chunk e c m s inbound ch st = Inr st' \<Longrightarrow> same_calls st st'"
  unfolding net_chunk_def by (rule payload_calls)

lemma pn_chunk_calls: "pn_chunk e c m s inbound ch st = Inr st' \<Longrightarrow> same_calls st st'"
  by (auto simp: pn_chunk_def bindR_eq_Inr same_calls_def)

lemma net_chunks_calls: "run_all (net_chunk e c m s inbound) cs st = Inr st' \<Longrightarrow> same_calls st st'"
  by (rule run_all_related [where R = same_calls, OF net_chunk_calls same_calls_refl same_calls_trans])

lemma pn_chunks_calls: "run_all (pn_chunk e c m s inbound) cs st = Inr st' \<Longrightarrow> same_calls st st'"
  by (rule run_all_related [where R = same_calls, OF pn_chunk_calls same_calls_refl same_calls_trans])

lemma wsasend_log_calls: "log_pn_wsasend_buffers e c s bufs count st = Inr st' \<Longrightarrow> same_calls st st'"
  by (auto simp: log_pn_wsasend_buffers_def bindR_eq_Inr dest!: net_chunks_calls pn_chunks_calls
      intro: same_calls_trans split: if_splits)

lemma wsarecv_log_calls: "log_pn_wsarecv_buffers e c s bufs count bytes st = Inr st' \<Longrightarrow> same_calls st st'"
  by (auto simp: log_pn_wsarecv_buffers_def bindR_eq_Inr dest!: net_chunks_calls pn_chunks_calls
      intro: same_calls_trans split: if_splits)

text \<open>What the caller and the system see of a handler: one call of the real function, with the caller's arguments, whose
  answer is passed on. It fails only where there is no function to call or, if \<open>ok\<close> does not hold, in its logging.\<close>

definition passes_on :: "bool \<Rightarrow> ws_env \<Rightarrow> ws \<Rightarrow> string \<Rightarrow> u32 list \<Rightarrow> (int \<times> ws) res \<Rightarrow> bool" where
  "passes_on ok e st name args r =
     (case r of Inl _ \<Rightarrow> w_sym st name = 0 \<or> \<not> ok
      | Inr (rc, st') \<Rightarrow> rc = we_rc e (Forward (w_sym st name) args) \<and> w_calls st' = w_calls st @ [Forward (w_sym st name) args]
          \<and> w_os st' = w_os st)"

definition readable :: "ws_mem \<Rightarrow> u32 \<Rightarrow> nat \<Rightarrow> bool" where
  "readable m a n \<longleftrightarrow> a = 0 \<or> n \<le> length (wm_bytes m a)"

definition called :: "string \<Rightarrow> u32 list \<Rightarrow> ws \<Rightarrow> ws" where
  "called name args st = st\<lparr>w_calls := w_calls st @ [Forward (w_sym st name) args]\<rparr>"

lemma forward_after:
  assumes "\<And>st1. r = Inr st1 \<Longrightarrow> same_calls st st1" "ok \<Longrightarrow> \<exists>st1. r = Inr st1"
  shows "passes_on ok e st name args (bindR r (forward e name args))"
  using assms by (cases r) (auto simp: passes_on_def forward_def same_calls_def Let_def)

lemma forward_before:
  assumes "\<And>rc st1 st2. k rc st1 = Inr st2 \<Longrightarrow> same_calls st1 st2"
    and "ok \<Longrightarrow> \<exists>st2. k (we_rc e (Forward (w_sym st name) args)) (called name args st) = Inr st2"
  shows "passes_on ok e st name args (bindR (forward e name args st) (\<lambda>(rc, st1). bindR (k rc st1) (\<lambda>st2. Inr (rc, st2))))"
proof (cases "w_sym st name = 0")
  case False
  let ?rc = "we_rc e (Forward (w_sym st name) args)"
  from False have f: "forward e name args st = Inr (?rc, called name args st)" by (simp add: forward_def called_def Let_def)
  show ?thesis
  proof (cases "k ?rc (called name args st)")
    case (Inl x)
    then show ?thesis using f assms(2) by (auto simp: passes_on_def)
  next
    case (Inr st2)
    then show ?thesis using f assms(1) [OF Inr] by (simp add: passes_on_def same_calls_def called_def)
  qed
qed (simp add: forward_def passes_on_def)

lemma payload_total: "readable m a n \<Longrightarrow> \<exists>st'. log_tcp_payload e c m s a n inb st = Inr st'"
  using log_tcp_payload_dump [of n m a e c s inb st] by (cases "a = 0") (simp add: log_tcp_payload_def, auto simp: readable_def)

lemma not_isl_Inr: "\<not> isl r \<longleftrightarrow> (\<exists>x. r = Inr x)"
  by (cases r) simp_all

lemma udp_total: "\<exists>st'. log_udp_len e c s n inb st = Inr st'"
  by (simp add: log_udp_len_def w_log_def)


section \<open>connect\<close>

text \<open>Every call of \<open>inet_ntoa\<close> returns the same buffer: the line of a redirected connect shows one address twice.\<close>

lemma redirect_text_twice:
  "\<exists>a \<in> {was, now}. redirect_text e was now = ''connect:27380 '' @ we_ntoa e a @ '' -> '' @ we_ntoa e a"
  by (simp add: redirect_text_def Let_def)

lemma override_ip: "override_config.server_ip (override_of c) = cfg.server_ip c"
  by (simp add: override_of_def)

text \<open> C18: What the hooked \<open>connect\<close> does: one call of the real function, with the program's socket and length and with the
  configured server's address, the port kept, exactly if the program names the entry host and a server port while the
  override is active, else with the program's own address; its answer is passed on; and the socket becomes tracked exactly
  if the port is a server port and the connect has succeeded or is under way.\<close>

theorem connect_redirects_and_tracks:
  fixes e :: ws_env and c :: cfg and s :: socket and name :: u32 and namelen :: int and st :: ws
  assumes "w_sym st ''connect'' \<noteq> 0"
    and "ov_pn_address (w_os st) = None \<or> ov_pn_address (w_os st) = Some (we_inet e kEntryHost)"
  defines "sa \<equiv> snd (wm_sockaddr (we_before e) name)"
  defines "inet \<equiv> name \<noteq> 0 \<and> 16 \<le> namelen \<and> fst (wm_sockaddr (we_before e) name) = AF_INET"
  defines "target \<equiv> (case ov_target (w_os st) of None \<Rightarrow> we_inet e (cfg.server_ip c) | Some a \<Rightarrow> a)"
  defines "redirect \<equiv> inet \<and> fst (override_active (we_inet e) (override_of c) (w_os st)) \<and> s_addr sa = we_inet e kEntryHost
                         \<and> is_pn_port (ntohs (sin_port sa))"
  defines "call \<equiv> ForwardConnect (w_sym st ''connect'') s (if redirect then PatchedAddr (sa\<lparr>s_addr := target\<rparr>) else TheirAddr name) namelen"
  shows "\<exists>st'. connect_syshandle e c s name namelen st = Inr (we_rc e call, st')
    \<and> w_calls st' = w_calls st @ [call]
    \<and> (is_tracked_pn_socket gp (t_net (w_tr st')) t \<longleftrightarrow> is_tracked_pn_socket gp (t_net (w_tr st)) t
        \<or> t = s \<and> s \<noteq> INVALID_SOCKET \<and> inet \<and> is_pn_track_port (ntohs (sin_port sa))
          \<and> (we_rc e call = 0 \<or> we_error e = WSAEWOULDBLOCK))"
proof (cases inet)
  case False
  then show ?thesis using assms(1)
    by (auto simp: connect_syshandle_def hooked_connect_with_remap_def connect_forward_def inet_def redirect_def call_def Let_def)
next
  case True
  obtain changed sa' os' where r: "remap_sockaddr_in (we_inet e) (override_of c) sa (w_os st) = (changed, sa', os')" by (metis prod_cases3)
  from remap_sockaddr_spec [OF r assms(2), unfolded override_ip] have spec: "sin_port sa' = sin_port sa" "changed = redirect"
    "s_addr sa' = (if changed then target else s_addr sa)"
    using True by (auto simp: redirect_def target_def)
  have "sa' = (if redirect then sa\<lparr>s_addr := target\<rparr> else sa)" using spec by (cases sa; cases sa') auto
  then have peer: "(if changed then PatchedAddr sa' else TheirAddr name)
      = (if redirect then PatchedAddr (sa\<lparr>s_addr := target\<rparr>) else TheirAddr name)" using spec(2) by simp
  have port: "sin_port (if changed then sa' else sa) = sin_port sa" using spec(1) by simp
  have leg: "is_pn_track_port kGameLegPort" by (simp add: is_pn_track_port_def)
  show ?thesis
    using True assms(1) r leg
    by (auto simp: connect_syshandle_def hooked_connect_with_remap_def connect_forward_def Let_def peer port spec(1) call_def track_connect_tracks
        simp flip: sa_def inet_def)
qed

theorem connect_redirects_and_tracks_witness:
  "\<exists>st'. connect_syshandle demo_we (default_cfg\<lparr>cfg.server_override := True, cfg.server_ip := ''1.2.3.4''\<rparr>) 5 40 16 demo_ws = Inr (0, st')
    \<and> w_calls st' = [ForwardConnect 1 5 (PatchedAddr \<lparr>sin_port = 0x581B, s_addr = 9\<rparr>) 16]
    \<and> is_tracked_pn_socket (\<lambda>_. None) (t_net (w_tr st')) 5"
proof -
  let ?c = "default_cfg\<lparr>cfg.server_override := True, cfg.server_ip := ''1.2.3.4''\<rparr>"
  have n: "ntohs 0x581B = 7000" by (simp add: ntohs_def)
  have p: "is_pn_port 7000" "is_pn_track_port 7000" by (simp_all add: is_pn_port_def is_pn_track_port_def net_consts)
  have a: "fst (override_active (we_inet demo_we) (override_of ?c) (w_os demo_ws))" "''1.2.3.4'' \<noteq> kEntryHost"
    by (simp_all add: override_active_def override_of_def get_target_address_def demo_ws_simps kEntryHost_def INADDR_NONE_def)
  show ?thesis
    using connect_redirects_and_tracks [where e = demo_we and st = demo_ws and c = ?c and s = 5 and name = 40 and namelen = 16
        and gp = "\<lambda>_. None" and t = 5] n p a
    by (simp add: demo_ws_simps INVALID_SOCKET_def)
qed

end
