(* ===== verification/RecvTrace.thy ===== *)
theory RecvTrace
  imports Ws32 Growable
begin

text \<open>
  \<open>RecvBuffer::append\<close> as a whole, \<open>src/ProudNet/RecvAppend.cpp\<close>: the bytes are stored, then the chunk is traced. What
  can be read from the source's address are its initialised bytes; the connection a buffer is part of gives the socket
  object, which is an argument (\<open>fast\<close>, none where the pointer at its place is null).
\<close>

definition readable_from :: "bheap \<Rightarrow> nat option \<Rightarrow> nat \<Rightarrow> u8 list option" where
  "readable_from h src soff =
     (case src of
        None \<Rightarrow> None
      | Some s \<Rightarrow>
          (case hblk h s of
             None \<Rightarrow> Some []
           | Some cells \<Rightarrow> Some (map the (takeWhile (\<lambda>x. x \<noteq> None) (drop soff cells)))))"

definition log_recv_chunk :: "trace_env \<Rightarrow> cfg \<Rightarrow> nat option \<Rightarrow> u8 list option \<Rightarrow> int \<Rightarrow> trace_st \<Rightarrow> trace_st res" where
  "log_recv_chunk te c fast src len st =
     (if src = None \<or> len \<le> 0 then Inr st
      else
        let st1 = (if fast \<noteq> None then st\<lparr>t_net := note_fast_socket_ctx fast (t_net st)\<rparr> else st);
            sock0 = (if fast \<noteq> None then read_fast_socket_slot (te_slot te) fast else INVALID_SOCKET);
            sock = (if sock0 = INVALID_SOCKET then socket_from_last_fast_ctx (te_slot te) (t_net st1) else sock0)
        in trace_chunk te c sock src (word_of_int len) True fast st1)"

definition recv_append :: "trace_env \<Rightarrow> cfg \<Rightarrow> nat option \<Rightarrow> gbuf \<Rightarrow> nat option \<Rightarrow> nat \<Rightarrow> int \<Rightarrow> bheap \<Rightarrow> trace_st
    \<Rightarrow> unit res \<times> gbuf \<times> bheap \<times> trace_st" where
  "recv_append te c fast buf src soff len h st =
     (case buf_append buf src soff len h of
        (Inl e, buf', h') \<Rightarrow> (Inl e, buf', h', st)
      | (Inr _, buf', h') \<Rightarrow>
          if len = 0 then (Inr (), buf', h', st)
          else case log_recv_chunk te c fast (readable_from h' src soff) len st of
              Inl e \<Rightarrow> (Inl e, buf', h', st)
            | Inr st' \<Rightarrow> (Inr (), buf', h', st'))"

section \<open>Tracing an append changes nothing of it\<close>

lemma track_connect_last [simp]: "last_fast_ctx (track_connect s port st) = last_fast_ctx st"
  by (simp add: track_connect_def)

lemma log_chunk_last: "log_chunk gp slot ap sil st sock d n inb ctx = Some (l, st') \<Longrightarrow> last_fast_ctx st' = last_fast_ctx st"
  by (auto simp: log_chunk_def Let_def split: if_splits scan_result.splits)

lemma write_trace_line_net: "write_trace_line te c sock raw l st = Inr st' \<Longrightarrow> t_net st' = t_net st"
proof -
  have "t_net (log_frames te c sock fs st) = t_net st" for fs st
    unfolding log_frames_def by (induction fs arbitrary: st) (simp_all add: log_frame_def split_beta Let_def)
  then show "write_trace_line te c sock raw l st = Inr st' \<Longrightarrow> t_net st' = t_net st"
    by (auto simp: write_trace_line_def bindR_eq_Inr Let_def split: if_splits)
qed

lemma trace_chunk_last:
  "trace_chunk te c sock d n inb ctx st = Inr st' \<Longrightarrow> last_fast_ctx (t_net st') = last_fast_ctx (t_net st)"
  by (auto simp: trace_chunk_def Let_def dest!: log_chunk_last write_trace_line_net split: option.splits)

lemma readable_prefix:
  assumes "hblk h s = Some cells" "take n (drop soff cells) = map Some d" "length d = n"
  shows "\<exists>e. readable_from h (Some s) soff = Some (d @ e)"
proof -
  have "takeWhile (\<lambda>x. x \<noteq> None) (map Some d @ xs) = map Some d @ takeWhile (\<lambda>x. x \<noteq> None) xs" for xs
    by (induction d) simp_all
  moreover have "drop soff cells = map Some d @ drop n (drop soff cells)"
    using append_take_drop_id [of n "drop soff cells"] assms(2) by simp
  ultimately have "takeWhile (\<lambda>x. x \<noteq> None) (drop soff cells) = map Some d @ takeWhile (\<lambda>x. x \<noteq> None) (drop n (drop soff cells))"
    by metis
  then show ?thesis by (simp add: readable_from_def assms(1) comp_def)
qed



text \<open>A received chunk that ends inside a frame of wrapping length stops the receive, although its bytes have been stored.\<close>

lemma trace_stops_receive:
  "log_recv_chunk te c (Some i) (Some [0x13, 0x57, 4, 0xF9, 0xFF, 0xFF, 0xFF]) 7 st = Inl OobRead"
proof -
  have "scan_frames (Some [0x13, 0x57, 4, 0xF9, 0xFF, 0xFF, 0xFF]) 7 True kMaxFramesPerLine = Scan_Fault"
    using scan_frames_wire_overflow [of 0 0 kMaxFramesPerLine] by (simp add: kMaxFramesPerLine_def)
  then show ?thesis
    by (simp add: log_recv_chunk_def trace_chunk_def log_chunk_def should_log_pn_chunk_def Let_def)
qed

end
