(* ===== verification/Passthrough.thy ===== *)
theory Passthrough
  imports Ws32
begin

text \<open>
  The functions behind the detours that let the game's function run: \<open>process_compressed_c\<close> and
  \<open>process_encrypted_c\<close> (\<open>src/hooks/net/pn_compress_hook.cpp\<close>), \<open>CTcpLayerMessageExtractor::extract\<close>, the
  constructor in \<open>pn_net_client_factory.cpp\<close>, the receive queue's, and the UPnP stubs. The game's code is an
  argument: what it returns and makes of the state when it is called at an address with arguments. The static
  \<open>logs\<close> of each function is a field of the state its operation gets.
\<close>

section \<open>State\<close>

type_synonym game_code = "u32 \<Rightarrow> u32 list \<Rightarrow> hm \<Rightarrow> u32 \<times> hm"

record pt =
  pt_hm :: hm
  pt_lg :: logger
  pt_logs :: int

definition kLogLimit :: int where "kLogLimit = 8"

definition game_va :: "hm_env \<Rightarrow> u32 \<Rightarrow> u32" where
  "game_va e va = va + (he_main e - 0x400000)"

text \<open>\<open>fmt\<close> of a pointer.\<close>

fun show_hex_lower :: "nat \<Rightarrow> string" where
  "show_hex_lower n = (if n < 16 then [char_nibble False n] else show_hex_lower (n div 16) @ [char_nibble False (n mod 16)])"

declare show_hex_lower.simps [simp del]

definition show_ptr :: "u32 \<Rightarrow> string" where
  "show_ptr p = ''0x'' @ show_hex_lower (unat p)"

definition logp0 :: "cfg \<Rightarrow> bool \<Rightarrow> string \<Rightarrow> pt \<Rightarrow> pt" where
  "logp0 c vt msg st = st\<lparr>pt_lg := logp_sock c vt 0 (log_text msg) (pt_lg st)\<rparr>"

definition log_limited :: "cfg \<Rightarrow> bool \<Rightarrow> string \<Rightarrow> pt \<Rightarrow> pt" where
  "log_limited c vt msg st =
     (if pt_logs st < kLogLimit then (logp0 c vt msg st)\<lparr>pt_logs := pt_logs st + 1\<rparr> else st)"

section \<open>Calling the game's function without its detour\<close>

text \<open>\<open>None\<close>: the detour could not be taken off, so the call comes back to the detour, and so on without end.\<close>

definition call_unhooked :: "hm_env \<Rightarrow> nat \<Rightarrow> game_code \<Rightarrow> u32 \<Rightarrow> u32 list \<Rightarrow> hm \<Rightarrow> (u32 \<times> hm) option" where
  "call_unhooked e i game va args s =
     (let s1 = snd (restore_hook e i s)
      in if hs_hooked (hm_stub s1 i) then None
         else let (r, s2) = game (game_va e va) args s1
              in Some (r, snd (make_hook e i s2)))"

definition pt_call :: "hm_env \<Rightarrow> nat \<Rightarrow> game_code \<Rightarrow> u32 \<Rightarrow> u32 list \<Rightarrow> pt \<Rightarrow> (u32 \<times> pt) option" where
  "pt_call e i game va args st =
     (case call_unhooked e i game va args (pt_hm st) of None \<Rightarrow> None | Some (r, s) \<Rightarrow> Some (r, st\<lparr>pt_hm := s\<rparr>))"

definition kProcessCompressedVa :: u32 where "kProcessCompressedVa = 0xD5DC10"
definition kProcessEncryptedVa :: u32 where "kProcessEncryptedVa = 0xD5CA30"
definition kTcpFrameRecv :: u32 where "kTcpFrameRecv = 0xD84BB0"
definition kNetClientCtor :: u32 where "kNetClientCtor = 0xD0A340"
definition kDrainReceiveQueueResume :: u32 where "kDrainReceiveQueueResume = 0xD65947"

definition process_compressed_c :: "hm_env \<Rightarrow> nat \<Rightarrow> game_code \<Rightarrow> cfg \<Rightarrow> bool \<Rightarrow> u32 \<Rightarrow> u32 \<Rightarrow> u32 \<Rightarrow> u32 \<Rightarrow> pt \<Rightarrow> (u32 \<times> pt) option" where
  "process_compressed_c e i game c vt core type received_msg stack_mem st =
     pt_call e i game kProcessCompressedVa [core, type, received_msg, stack_mem]
       (log_limited c vt (''compress: core='' @ show_ptr core @ '' type='' @ show_nat (unat type) @ '' msg=''
          @ show_ptr received_msg @ '' stack='' @ show_ptr stack_mem) st)"

definition process_encrypted_c :: "hm_env \<Rightarrow> nat \<Rightarrow> game_code \<Rightarrow> cfg \<Rightarrow> bool \<Rightarrow> u32 \<Rightarrow> u32 \<Rightarrow> u32 \<Rightarrow> pt \<Rightarrow> (u32 \<times> pt) option" where
  "process_encrypted_c e i game c vt core received_msg stack_mem st =
     pt_call e i game kProcessEncryptedVa [core, received_msg, stack_mem]
       (log_limited c vt (''encrypt: core='' @ show_ptr core @ '' msg='' @ show_ptr received_msg @ '' stack='' @ show_ptr stack_mem) st)"

definition tcp_frame_extract :: "hm_env \<Rightarrow> nat \<Rightarrow> game_code \<Rightarrow> cfg \<Rightarrow> bool \<Rightarrow> u32 \<Rightarrow> u32 \<Rightarrow> pt \<Rightarrow> (u32 \<times> pt) option" where
  "tcp_frame_extract e i game c vt self stream_ctx st =
     pt_call e i game kTcpFrameRecv [self, stream_ctx]
       (log_limited c vt (''tcp_frame: extract self='' @ show_ptr self @ '' ctx='' @ show_ptr stream_ctx) st)"

definition net_client_ctor :: "hm_env \<Rightarrow> nat \<Rightarrow> game_code \<Rightarrow> cfg \<Rightarrow> bool \<Rightarrow> u32 \<Rightarrow> u32 \<Rightarrow> pt \<Rightarrow> (u32 \<times> pt) option" where
  "net_client_ctor e i game c vt tid self st =
     (case pt_call e i game kNetClientCtor [self] st of
        None \<Rightarrow> None
      | Some (ret, st1) \<Rightarrow>
          Some (ret, logp0 c vt (''CNetClient ctor tid='' @ show_nat (unat tid) @ '' this='' @ show_ptr self @ '' ret='' @ show_ptr ret) st1))"

definition log_net_client_factory :: "cfg \<Rightarrow> bool \<Rightarrow> u32 \<Rightarrow> pt \<Rightarrow> pt" where
  "log_net_client_factory c vt tid st = logp0 c vt (''CNetClient factory tid='' @ show_nat (unat tid)) st"

section \<open>The receive queue and the frame sender\<close>

text \<open>The two statics of \<open>pn_drain_recv_hook.cpp\<close>: what the detour jumps to and the handler it pushes.\<close>

record drain_tail =
  dr_resume :: u32
  dr_seh :: u32

definition ensure_drain_tail :: "hm_env \<Rightarrow> hook_stub \<Rightarrow> drain_tail \<Rightarrow> drain_tail" where
  "ensure_drain_tail e h d =
     (if dr_resume d \<noteq> 0 then d
      else \<lparr>dr_resume = game_va e kDrainReceiveQueueResume,
            dr_seh = ucast (hs_orig h ! 3) OR push_bit 8 (ucast (hs_orig h ! 4)) OR push_bit 16 (ucast (hs_orig h ! 5))
                     OR push_bit 24 (ucast (hs_orig h ! 6))\<rparr>)"

definition worker_from_client :: "mem \<Rightarrow> u32 \<Rightarrow> u32" where
  "worker_from_client m net_client = (if net_client = 0 then 0 else read4 m (net_client + 0x5C))"

definition drain_receive_queue :: "cfg \<Rightarrow> bool \<Rightarrow> u32 \<Rightarrow> pt \<Rightarrow> pt" where
  "drain_receive_queue c vt net_client st =
     log_limited c vt (''drain_recv: client='' @ show_ptr net_client @ '' worker=''
        @ show_ptr (worker_from_client (hm_mem (pt_hm st)) net_client)) st"

definition drain_receive_queue_log :: "hm_env \<Rightarrow> nat \<Rightarrow> cfg \<Rightarrow> bool \<Rightarrow> u32 \<Rightarrow> drain_tail \<Rightarrow> pt \<Rightarrow> drain_tail \<times> pt" where
  "drain_receive_queue_log e i c vt net_client d st =
     (ensure_drain_tail e (hm_stub (pt_hm st) i) d, drain_receive_queue c vt net_client st)"

definition ensure_tcp_frame_send_body :: "hm_env \<Rightarrow> u32 \<Rightarrow> u32" where
  "ensure_tcp_frame_send_body e body = (if body = 0 then game_va e 0xD84977 else body)"

definition log_tcp_frame_send_once :: "hm_env \<Rightarrow> cfg \<Rightarrow> bool \<Rightarrow> u32 \<Rightarrow> u32 \<Rightarrow> pt \<Rightarrow> u32 \<times> pt" where
  "log_tcp_frame_send_once e c vt framer body st =
     (ensure_tcp_frame_send_body e body, log_limited c vt (''tcp_frame: send self='' @ show_ptr framer) st)"

section \<open>UPnP\<close>

definition AddPortMapping :: "(string \<Rightarrow> u32) \<Rightarrow> cfg \<Rightarrow> bool \<Rightarrow> override_statics \<times> logger \<Rightarrow> override_statics \<times> logger" where
  "AddPortMapping inet c vt st =
     (let (active, os) = override_active inet (override_of c) (fst st)
      in if active \<and> \<not> no_proud_logs c
         then (os, logp_sock c vt 0 (log_text ''skip UPnP (offline server override)'') (snd st))
         else (os, snd st))"

definition DeletePortMapping :: "(string \<Rightarrow> u32) \<Rightarrow> cfg \<Rightarrow> override_statics \<Rightarrow> override_statics" where
  "DeletePortMapping inet c os = snd (override_active inet (override_of c) os)"

section \<open>A detour does not change what the game does\<close>

text \<open>Stub \<open>i\<close> is hooked: memory is \<open>m\<close> with its jump, and it has the bytes that belong there.\<close>

definition detoured :: "hm_env \<Rightarrow> nat \<Rightarrow> mem \<Rightarrow> hm \<Rightarrow> bool" where
  "detoured e i m s \<longleftrightarrow> hooked s i \<and> hs_orig (hm_stub s i) = mem_read m (tgt e s i) 12
     \<and> hm_mem s = mem_write (tgt e s i) (jump e s i) m"

lemma restore_write: "mem_write a (mem_read m a 12) (mem_write a (jump_patch a f) m) = m"
  by (auto simp: fun_eq_iff mem_write_def mem_read_def)

lemma restore_detoured:
  assumes "detoured e i m s" "he_grants e"
  shows "hm_mem (snd (restore_hook e i s)) = m" "\<not> hooked (snd (restore_hook e i s)) i"
    "hm_stub (snd (restore_hook e i s)) i = (hm_stub s i)\<lparr>hs_hooked := False\<rparr>"
    "hm_hooks (snd (restore_hook e i s)) = hm_hooks s"
  using assms
  by (auto simp: detoured_def restore_hook_def he_grants_def hooked_def write_memory_def make_memory_writable_def Let_def
      upd_stub_def tgt_def jump_def restore_write)

lemma make_detoured:
  assumes "\<not> hooked s i" "he_grants e" "he_main e \<noteq> 0"
  shows "detoured e i (hm_mem s) (snd (make_hook e i s))" "hm_hooks (snd (make_hook e i s)) = hm_hooks s @ [i]"
    "hs_addr (hm_stub (snd (make_hook e i s)) i) = hs_addr (hm_stub s i)"
    "hs_function (hm_stub (snd (make_hook e i s)) i) = hs_function (hm_stub s i)"
  using assms
  by (auto simp: detoured_def make_hook_def he_grants_def hooked_def write_memory_def make_memory_writable_def Let_def
      upd_stub_def tgt_def jump_def)

text \<open>One passing of a message: the game's code sees memory as if there were no detour and gets the arguments; its answer
  is passed on; the detour is back in place over whatever the game's code has made of memory.\<close>

definition passes :: "hm_env \<Rightarrow> nat \<Rightarrow> mem \<Rightarrow> game_code \<Rightarrow> u32 \<Rightarrow> u32 list \<Rightarrow> pt \<Rightarrow> (u32 \<times> pt) option \<Rightarrow> bool" where
  "passes e i m game va args st out \<longleftrightarrow>
     (case out of
        None \<Rightarrow> False
      | Some (r, st') \<Rightarrow>
          let s1 = snd (restore_hook e i (pt_hm st)); s2 = snd (game (game_va e va) args s1)
          in hm_mem s1 = m \<and> r = fst (game (game_va e va) args s1) \<and> detoured e i (hm_mem s2) (pt_hm st')
             \<and> hm_hooks (pt_hm st') = hm_hooks s2 @ [i])"

text \<open>The game's code knows nothing of the stub: run without the detour, it does not put it back.\<close>

definition leaves_stub :: "game_code \<Rightarrow> nat \<Rightarrow> bool" where
  "leaves_stub game i \<longleftrightarrow> (\<forall>a args s. \<not> hooked s i \<longrightarrow> \<not> hooked (snd (game a args s)) i)"

lemma logp0_hm [simp]: "pt_hm (logp0 c vt msg st) = pt_hm st" "pt_hm (log_limited c vt msg st) = pt_hm st"
  by (simp_all add: logp0_def log_limited_def)

lemma pt_call_passes:
  assumes "detoured e i m (pt_hm st)" "he_grants e" "he_main e \<noteq> 0"
    and "leaves_stub game i"
  shows "passes e i m game va args st (pt_call e i game va args st)"
proof -
  let ?s1 = "snd (restore_hook e i (pt_hm st))"
  let ?s2 = "snd (game (game_va e va) args ?s1)"
  note r = restore_detoured [OF assms(1,2)]
  have h: "\<not> hooked ?s2 i" using assms(4) r(2) by (simp add: leaves_stub_def)
  have "pt_call e i game va args st = Some (fst (game (game_va e va) args ?s1), st\<lparr>pt_hm := snd (make_hook e i ?s2)\<rparr>)"
    using r(2) by (simp add: pt_call_def call_unhooked_def hooked_def Let_def split_beta)
  then show ?thesis using make_detoured(1,2) [OF h assms(2,3)] r(1) by (simp add: passes_def Let_def)
qed

lemma passes_logged: "passes e i m game va args (log_limited c vt msg st) out = passes e i m game va args st out"
  by (simp only: passes_def logp0_hm)


text \<open>Each passing registers the stub once more: the list of hooks grows with every message and is never shortened.\<close>

primrec pt_calls :: "nat \<Rightarrow> hm_env \<Rightarrow> nat \<Rightarrow> game_code \<Rightarrow> u32 \<Rightarrow> u32 list \<Rightarrow> pt \<Rightarrow> pt option" where
  "pt_calls 0 e i game va args st = Some st"
| "pt_calls (Suc n) e i game va args st =
     (case pt_call e i game va args st of None \<Rightarrow> None | Some (r, st') \<Rightarrow> pt_calls n e i game va args st')"

lemma calls_register_again:
  assumes "he_grants e" "he_main e \<noteq> 0"
    and "leaves_stub game i" "\<And>a args s. hm_hooks (snd (game a args s)) = hm_hooks s"
  shows "detoured e i m (pt_hm st) \<Longrightarrow>
    \<exists>st'. pt_calls n e i game va args st = Some st' \<and> hm_hooks (pt_hm st') = hm_hooks (pt_hm st) @ replicate n i"
proof (induction n arbitrary: m st)
  case (Suc n)
  from pt_call_passes [OF Suc.prems assms(1-3), where va = va and args = args] obtain r st1 where
    1: "pt_call e i game va args st = Some (r, st1)" "passes e i m game va args st (Some (r, st1))"
    by (auto simp: passes_def split: option.splits)
  then obtain m' where "detoured e i m' (pt_hm st1)" "hm_hooks (pt_hm st1) = hm_hooks (pt_hm st) @ [i]"
    using restore_detoured(4) [OF Suc.prems assms(1)] by (auto simp: passes_def Let_def assms(4))
  with Suc.IH [OF this(1)] 1(1) show ?case by auto
qed simp

text \<open>A detour that cannot be taken off never lets the game's function run.\<close>

lemma refused_never_returns:
  assumes "hooked (pt_hm st) i" "\<not> he_protect e (tgt e (pt_hm st) i) 12"
  shows "pt_call e i game va args st = None"
  using assms by (simp add: pt_call_def call_unhooked_def restore_hook_def hooked_def tgt_def make_memory_writable_def Let_def lock_patch_def)

text \<open>Where the receive queue's function starts as the compiler starts one with a handler, the detour pushes that handler
  and goes on behind the two instructions it replaces.\<close>

lemma drain_replays:
  assumes "dr_resume d = 0" "hs_orig h = [0x6A, 0xFF, 0x68] @ le4 handler @ rest"
  shows "ensure_drain_tail e h d = \<lparr>dr_resume = game_va e 0xD65940 + 7, dr_seh = handler\<rparr>"
proof -
  have "ucast (ucast handler :: u8) OR push_bit 8 (ucast (ucast (drop_bit 8 handler) :: u8))
      OR push_bit 16 (ucast (ucast (drop_bit 16 handler) :: u8)) OR push_bit 24 (ucast (ucast (drop_bit 24 handler) :: u8)) = handler"
  proof (rule bit_word_eqI)
    fix n :: nat
    assume "n < LENGTH(32)"
    consider "n < 8" | "8 \<le> n" "n < 16" | "16 \<le> n" "n < 24" | "24 \<le> n" by linarith
    then show "bit (ucast (ucast handler :: u8) OR push_bit 8 (ucast (ucast (drop_bit 8 handler) :: u8))
        OR push_bit 16 (ucast (ucast (drop_bit 16 handler) :: u8)) OR push_bit 24 (ucast (ucast (drop_bit 24 handler) :: u8)) :: u32) n
      = bit handler n"
      using \<open>n < LENGTH(32)\<close> by cases (auto simp: bit_simps)
  qed
  then show ?thesis using assms by (simp add: ensure_drain_tail_def game_va_def kDrainReceiveQueueResume_def le4_def)
qed


end
