(* ===== verification/Library.thy ===== *)
theory Library
  imports Install DiagStream
begin

text \<open>
  Loading and unloading the library, the end of \<open>src/thegame/dll_main.cpp\<close>: settings, logs, tables, detours and the
  diagnostics brought up and down, and the thread that waits for the diagnostics pipe. The loader's lock and the thread's
  timing are not modelled: the thread's rounds are a function of their own.
\<close>

section \<open>Waiting for the pipe\<close>

text \<open>\<open>start_diagnostics_poll\<close>: start at once, or a thread (the flag) that tries up to 600 times.\<close>

definition start_diagnostics_poll :: "diag_env \<Rightarrow> cfg \<Rightarrow> diag \<Rightarrow> (bool \<times> diag) res" where
  "start_diagnostics_poll e c d =
     (if disable_entrypoint_hook c
      then bindR (if pipes c then startup e c d else Inr d) (\<lambda>d1. Inr (False, d1))
      else Inr (True, d))"

primrec poll_rounds :: "nat \<Rightarrow> diag_env \<Rightarrow> cfg \<Rightarrow> diag \<Rightarrow> diag res" where
  "poll_rounds 0 e c d = Inr d"
| "poll_rounds (Suc n) e c d =
     (if dg_started d then Inr d else bindR (if pipes c then startup e c d else Inr d) (poll_rounds n e c))"

definition poll_thread :: "diag_env \<Rightarrow> cfg \<Rightarrow> diag \<Rightarrow> diag res" where
  "poll_thread e c d = poll_rounds 600 e c d"

section \<open>Attach and detach\<close>

record dll =
  d_crt :: crt_stub
  d_cfg :: cfg
  d_lg :: logger
  d_db :: "bool \<times> proud_db"
  d_hm :: hm
  d_dg :: diag
  d_thread :: bool               \<comment> \<open>the thread has been created\<close>
  d_console_freed :: bool

record dll_env =
  de_modules :: modules
  de_defaults :: cfg_defaults
  de_environ :: environ
  de_bufs :: "string \<Rightarrow> string"
  de_vt :: bool
  de_opens :: "log_file \<Rightarrow> bool"
  de_json :: file_json
  de_dir :: string
  de_hm :: hm_env
  de_fns :: "string \<Rightarrow> u32"
  de_fuel :: nat
  de_dn :: diag_env

definition dll_attach :: "dll_env \<Rightarrow> u32 \<Rightarrow> dll \<Rightarrow> dll res" where
  "dll_attach de module d =
     (let d1 = d\<lparr>d_crt := init_CRT (de_modules de) (d_crt d)\<rparr> in
      bindR (init_config (de_defaults de) (de_environ de) (de_bufs de)) (\<lambda>c.
        let lg1 = prepare_logs c (de_opens de) (create_console c (de_vt de) (d_lg d1));
            db = call_load (de_json de) (d_db d1);
            lg2 = log_boot_paths c (de_vt de) (de_dir de) lg1
        in if disable_hooks c then
             Inr (d1\<lparr>d_cfg := c, d_db := db, d_lg := logf c (de_vt de) (log_text ''DLL loaded - no hooks (DISABLE_HOOKS)'') lg2\<rparr>)
           else
             bindR (start_diagnostics_poll (de_dn de) c (d_dg d1)) (\<lambda>(thread, dg).
             Inr (d1\<lparr>d_cfg := c, d_db := db,
                    d_hm := install_hooks (de_fuel de) c (de_hm de) (de_fns de) module (d_hm d1),
                    d_lg := logf c (de_vt de) (log_text ''DLL loaded - hooks installed'') lg2,
                    d_dg := dg, d_thread := thread\<rparr>))))"

definition dll_detach :: "dll_env \<Rightarrow> dll \<Rightarrow> dll" where
  "dll_detach de d =
     (let c = d_cfg d;
          d1 = (if \<not> disable_hooks c
                then d\<lparr>d_lg := logf c (de_vt de) (log_text ''DLL unloaded - hooks removed'') (d_lg d),
                       d_dg := teardown (d_dg d),
                       d_hm := snd (restore_all_hooks (de_hm de) (d_hm d))\<rparr>
                else d\<lparr>d_lg := logf c (de_vt de) (log_text ''DLL unloaded'') (d_lg d)\<rparr>)
      in d1\<lparr>d_lg := close_logs (d_lg d1), d_console_freed := console_created (d_lg d1)\<rparr>)"

section \<open>How long the pipe is waited for\<close>

text \<open>\<open>CreateFileA\<close> is asked twice for each pipe object: once by its constructor, once by \<open>connect_pipe\<close>.\<close>

lemma take_pipe_first: "dg_pipe d = None \<Longrightarrow> dg_opens d = True # as \<Longrightarrow> take_pipe d = (True, d\<lparr>dg_pipe := Some True, dg_opens := as\<rparr>)"
  by (simp add: take_pipe_def connect_pipe_def pipe_connect_def new_pipe_def create_file_def Let_def)

lemma take_pipe_second:
  "dg_pipe d = None \<Longrightarrow> dg_opens d = False # True # as \<Longrightarrow> take_pipe d = (True, d\<lparr>dg_pipe := Some True, dg_opens := as\<rparr>)"
  by (simp add: take_pipe_def connect_pipe_def pipe_connect_def new_pipe_def create_file_def Let_def)

lemma take_pipe_neither:
  "dg_pipe d = None \<Longrightarrow> dg_opens d = False # False # as \<Longrightarrow> take_pipe d = (False, d\<lparr>dg_lost := dg_lost d + 1, dg_opens := as\<rparr>)"
  by (simp add: take_pipe_def connect_pipe_def pipe_connect_def new_pipe_def create_file_def Let_def)

lemma connect_rounds_miss:
  "dg_pipe d = None \<Longrightarrow> dg_opens d = replicate f False @ as \<Longrightarrow> 2 * k \<le> f \<Longrightarrow>
   connect_rounds k d = (False, d\<lparr>dg_lost := dg_lost d + k, dg_opens := replicate (f - 2 * k) False @ as\<rparr>)"
proof (induction k arbitrary: d f)
  case (Suc k)
  obtain g where f: "f = Suc (Suc g)" using Suc.prems(3) by (cases f; cases "f - 1") auto
  have "take_pipe d = (False, d\<lparr>dg_lost := dg_lost d + 1, dg_opens := replicate g False @ as\<rparr>)"
    using take_pipe_neither [OF Suc.prems(1), of "replicate g False @ as"] Suc.prems(2) f by simp
  then show ?case
    using Suc.IH [of "d\<lparr>dg_lost := dg_lost d + 1, dg_opens := replicate g False @ as\<rparr>" g] Suc.prems(1,3) f by simp
qed simp

lemma connect_rounds_hit:
  "dg_pipe d = None \<Longrightarrow> dg_opens d = replicate f False @ True # as \<Longrightarrow> f < 2 * k \<Longrightarrow>
   connect_rounds k d = (True, d\<lparr>dg_pipe := Some True, dg_lost := dg_lost d + f div 2, dg_opens := as\<rparr>)"
proof (induction k arbitrary: d f)
  case (Suc k)
  consider "f = 0" | "f = 1" | g where "f = Suc (Suc g)" by (metis One_nat_def not0_implies_Suc)
  then show ?case
  proof cases
    case 1
    then show ?thesis using take_pipe_first [OF Suc.prems(1)] Suc.prems(2) by simp
  next
    case 2
    then show ?thesis using take_pipe_second [OF Suc.prems(1)] Suc.prems(2) by simp
  next
    case 3
    have "take_pipe d = (False, d\<lparr>dg_lost := dg_lost d + 1, dg_opens := replicate g False @ True # as\<rparr>)"
      using take_pipe_neither [OF Suc.prems(1), of "replicate g False @ True # as"] Suc.prems(2) 3 by simp
    then show ?thesis
      using Suc.IH [of "d\<lparr>dg_lost := dg_lost d + 1, dg_opens := replicate g False @ True # as\<rparr>" g] Suc.prems(1,3) 3 by simp
  qed
qed simp

text \<open>What a start sets up before it waits.\<close>

definition prepared :: "diag_env \<Rightarrow> cfg \<Rightarrow> diag \<Rightarrow> diag" where
  "prepared e c d =
     (let d1 = (if disable_veh c then d else d\<lparr>dg_veh := dg_veh d \<or> dn_veh_ok e, dg_filter := True\<rparr>);
          d2 = (if minidump_enabled c \<and> \<not> dg_minidump d1 then d1\<lparr>dg_minidump := dn_dbghelp e\<rparr> else d1)
      in d2\<lparr>dg_park := (if disable_park_thread c then 0 else 1)\<rparr>)"

lemma prepared_fields [simp]:
  "dg_pipe (prepared e c d) = dg_pipe d" "dg_opens (prepared e c d) = dg_opens d" "dg_lost (prepared e c d) = dg_lost d"
  "dg_started (prepared e c d) = dg_started d" "diag_ok (prepared e c d) = diag_ok d"
  "dg_written (prepared e c d) = dg_written d"
  by (simp_all add: prepared_def diag_ok_def Let_def)

lemma startup_waits:
  assumes "\<not> dg_started d" "pipes c"
  shows "startup e c d = (let (ok, d4) = connect_rounds 50 (prepared e c d) in
     if \<not> ok then Inr d4
     else bindR (emit_message e c (ascii ''hello'') (Some (ascii ''version=1'')) (d4\<lparr>dg_started := True\<rparr>)) (\<lambda>d5.
          bindR (emit_game_stage e c (Some (ascii ''started'')) d5) (\<lambda>d6.
          Inr (d6\<lparr>dg_hp := pipe_start (dn_thread_ok e) (dg_hp d6)\<rparr>))))"
  using assms by (simp add: startup_def prepared_def Let_def)

lemma write_line_keeps:
  "dg_pipe d = Some True \<Longrightarrow> write_line_locked l d = Inr d' \<Longrightarrow>
   dg_started d' = dg_started d \<and> dg_lost d' = dg_lost d \<and> dg_pipe d' = Some True"
  by (auto simp: write_line_locked_def write_line_unlocked_def pipe_connect_def split: option.splits)

definition same_pipe :: "diag \<Rightarrow> diag \<Rightarrow> bool" where
  "same_pipe d d' \<longleftrightarrow> dg_started d' = dg_started d \<and> dg_lost d' = dg_lost d \<and> dg_pipe d' = Some True"

lemma write_line_same: "dg_pipe d = Some True \<Longrightarrow> write_line_locked l d = Inr d' \<Longrightarrow> same_pipe d d'"
  using write_line_keeps by (simp add: same_pipe_def)

lemma emit_message_same:
  assumes "dg_pipe d = Some True" "emit_message e c type msg d = Inr d'"
  shows "same_pipe d d'"
proof -
  have t: "take_pipe d = (True, d)" using assms(1) by (simp add: take_pipe_same)
  have "d' = d \<or> (\<exists>line. write_line_locked (Some line) d = Inr d')"
    using assms(2) t by (cases msg) (auto simp: emit_message_def bindR_eq_Inr split_beta split: if_splits)
  then show ?thesis using assms(1) write_line_same by (auto simp: same_pipe_def)
qed

lemma emit_stage_same:
  assumes "dg_pipe d = Some True" "emit_game_stage e c stage d = Inr d'"
  shows "same_pipe d d'"
proof -
  have t: "take_pipe d = (True, d)" using assms(1) by (simp add: take_pipe_same)
  have "d' = d \<or> (\<exists>s line. d' = d\<lparr>dg_last_stage := s\<rparr> \<or> write_line_locked (Some line) (d\<lparr>dg_last_stage := s\<rparr>) = Inr d')"
    using assms(2) t by (cases stage) (auto simp: emit_game_stage_def bindR_eq_Inr Let_def split_beta split: if_splits)
  then show ?thesis using assms(1) write_line_same [of "d\<lparr>dg_last_stage := s\<rparr>" for s] by (auto simp: same_pipe_def)
qed

lemma startup_miss:
  assumes "\<not> dg_started d" "pipes c" "dg_pipe d = None" "dg_opens d = replicate f False @ as" "100 \<le> f"
  shows "startup e c d = Inr ((prepared e c d)\<lparr>dg_lost := dg_lost d + 50, dg_opens := replicate (f - 100) False @ as\<rparr>)"
  using connect_rounds_miss [of "prepared e c d" f as 50] assms by (simp add: startup_waits)

lemma startup_hit:
  assumes "\<not> dg_started d" "pipes c" "dg_pipe d = None" "dg_opens d = replicate f False @ True # as" "f < 100" "diag_ok d"
  shows "\<exists>d'. startup e c d = Inr d' \<and> dg_started d' \<and> dg_pipe d' = Some True \<and> dg_lost d' = dg_lost d + f div 2 \<and> diag_ok d'"
proof -
  obtain d' where d': "startup e c d = Inr d'" "diag_ok d'" using startup_ok [OF assms(6)] by blast
  let ?d = "(prepared e c d)\<lparr>dg_pipe := Some True, dg_lost := dg_lost d + f div 2, dg_opens := as\<rparr>"
  have "connect_rounds 50 (prepared e c d) = (True, ?d)"
    using connect_rounds_hit [of "prepared e c d" f as 50] assms by simp
  then obtain d5 d6 where e: "emit_message e c (ascii ''hello'') (Some (ascii ''version=1'')) (?d\<lparr>dg_started := True\<rparr>) = Inr d5"
    "emit_game_stage e c (Some (ascii ''started'')) d5 = Inr d6" "d' = d6\<lparr>dg_hp := pipe_start (dn_thread_ok e) (dg_hp d6)\<rparr>"
    using d'(1) startup_waits [OF assms(1,2)] by (auto simp: bindR_eq_Inr)
  have "same_pipe (?d\<lparr>dg_started := True\<rparr>) d5" by (rule emit_message_same [OF _ e(1)]) simp
  moreover from this have "same_pipe d5 d6" by (intro emit_stage_same [OF _ e(2)]) (simp add: same_pipe_def)
  ultimately show ?thesis using d' e(3) by (auto simp: same_pipe_def)
qed

lemma poll_rounds_started: "dg_started d \<Longrightarrow> poll_rounds n e c d = Inr d"
  by (cases n) simp_all

lemma poll_rounds_hit:
  assumes "pipes c"
  shows "\<not> dg_started d \<Longrightarrow> dg_pipe d = None \<Longrightarrow> dg_opens d = replicate f False @ True # as \<Longrightarrow> f < 100 * n \<Longrightarrow> diag_ok d \<Longrightarrow>
    \<exists>d'. poll_rounds n e c d = Inr d' \<and> dg_started d' \<and> dg_pipe d' = Some True \<and> dg_lost d' = dg_lost d + f div 2 \<and> diag_ok d'"
proof (induction n arbitrary: d f)
  case (Suc n)
  show ?case
  proof (cases "f < 100")
    case True
    with startup_hit [OF Suc.prems(1) assms Suc.prems(2,3) _ Suc.prems(5), of e] show ?thesis
      using Suc.prems(1) assms poll_rounds_started by fastforce
  next
    case False
    let ?d = "(prepared e c d)\<lparr>dg_lost := dg_lost d + 50, dg_opens := replicate (f - 100) False @ True # as\<rparr>"
    have s: "startup e c d = Inr ?d" using startup_miss [OF Suc.prems(1) assms Suc.prems(2,3)] False by simp
    have ok: "diag_ok ?d" using Suc.prems(5) prepared_fields(5) [of e c d] unfolding diag_ok_def by simp
    have f: "f - 100 < 100 * n" using Suc.prems(4) False by simp
    from Suc.IH [OF _ _ _ f ok] obtain d' where
      "poll_rounds n e c ?d = Inr d'" "dg_started d'" "dg_pipe d' = Some True" "dg_lost d' = dg_lost d + 50 + (f - 100) div 2" "diag_ok d'"
      using Suc.prems(1,2) by auto
    moreover have "50 + (f - 100) div 2 = f div 2" using False by linarith
    ultimately show ?thesis using s Suc.prems(1) assms by auto
  qed
qed simp

lemma poll_rounds_miss:
  assumes "pipes c"
  shows "\<not> dg_started d \<Longrightarrow> dg_pipe d = None \<Longrightarrow> dg_opens d = replicate f False @ as \<Longrightarrow> 100 * n \<le> f \<Longrightarrow>
    \<exists>d'. poll_rounds n e c d = Inr d' \<and> \<not> dg_started d' \<and> dg_pipe d' = None \<and> dg_lost d' = dg_lost d + 50 * n"
proof (induction n arbitrary: d f)
  case (Suc n)
  let ?d = "(prepared e c d)\<lparr>dg_lost := dg_lost d + 50, dg_opens := replicate (f - 100) False @ as\<rparr>"
  have s: "startup e c d = Inr ?d" using startup_miss [OF Suc.prems(1) assms Suc.prems(2,3)] Suc.prems(4) by simp
  have f: "100 * n \<le> f - 100" using Suc.prems(4) by simp
  from Suc.IH [OF _ _ _ f, of ?d] obtain d' where
    "poll_rounds n e c ?d = Inr d'" "\<not> dg_started d'" "dg_pipe d' = None" "dg_lost d' = dg_lost d + 50 + 50 * n"
    using Suc.prems(1,2) by auto
  then show ?case using s Suc.prems(1) assms by auto
qed simp

text \<open> C26: With the pipe on, the thread that waits for it asks for it 60000 times in all. If one of these is answered, the
  diagnostics are started at the first such answer, and their stream is well formed; every two refusals before it have
  cost a pipe object that nothing frees. If none is, 30000 such objects are lost and nothing has been started.\<close>

theorem poll_thread_outcome:
  assumes "pipes c" "\<not> dg_started d" "dg_pipe d = None" "dg_opens d = replicate f False @ True # as" "diag_ok d"
  shows "\<exists>d'. poll_thread e c d = Inr d' \<and> (dg_started d' \<longleftrightarrow> f < 60000) \<and> (dg_pipe d' = Some True \<longleftrightarrow> f < 60000)
    \<and> dg_lost d' = dg_lost d + (if f < 60000 then f div 2 else 30000) \<and> (f < 60000 \<longrightarrow> diag_ok d')"
proof (cases "f < 60000")
  case True
  then show ?thesis using poll_rounds_hit [OF assms(1-4), of 600 e] assms(5) by (auto simp: poll_thread_def)
next
  case False
  then show ?thesis using poll_rounds_miss [OF assms(1-4), of 600 e] by (auto simp: poll_thread_def)
qed

theorem poll_thread_outcome_witness:
  "\<exists>d'. poll_thread demo_dn default_cfg (quiet_diag\<lparr>dg_opens := [False, False, False, True]\<rparr>) = Inr d' \<and> dg_started d' \<and> dg_lost d' = 1"
proof -
  let ?d = "quiet_diag\<lparr>dg_opens := [False, False, False, True]\<rparr>"
  have o: "dg_opens ?d = replicate 3 False @ True # []" by (simp add: numeral_3_eq_3)
  have "pipes default_cfg" "\<not> dg_started ?d" "dg_pipe ?d = None" "diag_ok ?d"
    by (simp_all add: default_cfg_def quiet_diag_def diag_ok_def)
  from poll_thread_outcome [OF this(1-3) o this(4), of demo_dn] show ?thesis by (auto simp: quiet_diag_def)
qed

section \<open>Loading and unloading\<close>

lemma start_poll_ok: "diag_ok d \<Longrightarrow> \<exists>t d'. start_diagnostics_poll e c d = Inr (t, d') \<and> diag_ok d' \<and> (t \<longleftrightarrow> \<not> disable_entrypoint_hook c)"
  using startup_ok [of d e c] by (auto simp: start_diagnostics_poll_def)

lemma poll_rounds_ok: "diag_ok d \<Longrightarrow> \<exists>d'. poll_rounds n e c d = Inr d' \<and> diag_ok d'"
proof (induction n arbitrary: d)
  case (Suc n)
  obtain d1 where "startup e c d = Inr d1" "diag_ok d1" using startup_ok [OF Suc.prems, of e c] by blast
  then show ?case using Suc.IH [of d1] Suc.IH [of d] Suc.prems by (cases "dg_started d"; cases "pipes c") simp_all
qed simp

text \<open>Attaching fails only where a setting cannot be read.\<close>

lemma attach_cases:
  assumes "dll_attach de module d = Inr d'"
  obtains "disable_hooks (d_cfg d')" "d_hm d' = d_hm d" "d_dg d' = d_dg d"
  | "\<not> disable_hooks (d_cfg d')"
    "d_hm d' = install_hooks (de_fuel de) (d_cfg d') (de_hm de) (de_fns de) module (d_hm d)"
    "start_diagnostics_poll (de_dn de) (d_cfg d') (d_dg d) = Inr (d_thread d', d_dg d')"
proof -
  from assms obtain c where c: "init_config (de_defaults de) (de_environ de) (de_bufs de) = Inr c"
    by (auto simp: dll_attach_def Let_def bindR_eq_Inr)
  have off: "d_cfg d' = c \<and> d_hm d' = d_hm d \<and> d_dg d' = d_dg d" if "disable_hooks c"
    using assms c that by (auto simp: dll_attach_def Let_def)
  have on: "d_cfg d' = c \<and> d_hm d' = install_hooks (de_fuel de) c (de_hm de) (de_fns de) module (d_hm d)
      \<and> start_diagnostics_poll (de_dn de) c (d_dg d) = Inr (d_thread d', d_dg d')" if "\<not> disable_hooks c"
    using assms c that by (auto simp: dll_attach_def Let_def bindR_eq_Inr)
  show thesis using off on that by (cases "disable_hooks c") auto
qed

lemma attach_fails_only_in_config:
  assumes "diag_ok (d_dg d)"
  shows "dll_attach de module d = Inl err \<longleftrightarrow> init_config (de_defaults de) (de_environ de) (de_bufs de) = Inl err"
proof (cases "init_config (de_defaults de) (de_environ de) (de_bufs de)")
  case (Inr c)
  then show ?thesis using start_poll_ok [OF assms, of "de_dn de" c] by (auto simp: dll_attach_def Let_def)
qed (simp add: dll_attach_def Let_def)

text \<open>With hooks disabled neither loading nor unloading touches the game's memory or the diagnostics.\<close>

lemma disabled_touches_nothing:
  assumes "dll_attach de module d = Inr d'" "disable_hooks (d_cfg d')"
  shows "d_hm (dll_detach de d') = d_hm d" "d_dg (dll_detach de d') = d_dg d"
  using attach_cases [OF assms(1)] assms(2) by (auto simp: dll_detach_def Let_def)


lemma attach_cfg: "dll_attach de module d = Inr d' \<Longrightarrow> init_config (de_defaults de) (de_environ de) (de_bufs de) = Inr (d_cfg d')"
  by (cases "init_config (de_defaults de) (de_environ de) (de_bufs de)")
     (auto simp: dll_attach_def Let_def bindR_eq_Inr split: if_splits)

definition demo_de :: dll_env where
  "demo_de = \<lparr>de_modules = \<lparr>is_loaded = (\<lambda>_. True), proc_address = (\<lambda>_ _. 1)\<rparr>, de_defaults = config_defaults, de_environ = (\<lambda>_. None),
     de_bufs = (\<lambda>_. []), de_vt = True, de_opens = (\<lambda>_. True), de_json = NoFile, de_dir = [], de_hm = demo_he,
     de_fns = (\<lambda>_. 0x10001000), de_fuel = 0, de_dn = demo_dn\<rparr>"

definition demo_dll :: dll where
  "demo_dll = \<lparr>d_crt = crt_stub0, d_cfg = default_cfg, d_lg = logger0, d_db = (False, empty_db),
     d_hm = hm_loaded (\<lambda>_. 0x10001000) (\<lambda>_. 0x90), d_dg = quiet_diag, d_thread = False, d_console_freed = False\<rparr>"


end
