(* ===== verification/Layout.thy ===== *)
theory Layout
  imports Prelude
begin

text \<open>
  How the library overlays its own types on the game's objects: the offsets of \<open>include/ProudNet/Layout.hpp\<close>, the structs
  of \<open>ConnectionNode.hpp\<close>, \<open>TCPSocket.h\<close>, \<open>string.h\<close> and \<open>WString.h\<close>, the sets of \<open>SelectFd.cpp\<close> and
  the table of \<open>net_user_connect_res.hpp\<close>. A type is a scalar, an array or a struct with its packing; sizes, alignments
  and offsets follow the rules of the 32-bit compiler: a member starts at the next multiple of its alignment, which
  packing bounds, and a struct is as long as its alignment asks for. A base is laid out as a first member.
\<close>

section \<open>Types and their layout\<close>

datatype ctype =
    Scalar nat
  | Arr ctype nat
  | Struct nat "ctype list"

definition round_up :: "nat \<Rightarrow> nat \<Rightarrow> nat" where
  "round_up a n = (n + a - 1) div a * a"

fun c_align :: "ctype \<Rightarrow> nat" where
  "c_align (Scalar n) = n"
| "c_align (Arr t k) = c_align t"
| "c_align (Struct p ts) = foldr (\<lambda>t a. max (min p (c_align t)) a) ts 1"

text \<open>The offsets of members of the given alignments and sizes, and where the last one ends.\<close>

fun place :: "nat \<Rightarrow> (nat \<times> nat) list \<Rightarrow> nat list \<times> nat" where
  "place pos [] = ([], pos)"
| "place pos ((a, n) # ms) = (let (os, fin) = place (round_up a pos + n) ms in (round_up a pos # os, fin))"

fun c_size :: "ctype \<Rightarrow> nat" where
  "c_size (Scalar n) = n"
| "c_size (Arr t k) = k * c_size t"
| "c_size (Struct p ts) = round_up (c_align (Struct p ts)) (snd (place 0 (map (\<lambda>t. (min p (c_align t), c_size t)) ts)))"

definition members :: "nat \<Rightarrow> ctype list \<Rightarrow> (nat \<times> nat) list" where
  "members p ts = map (\<lambda>t. (min p (c_align t), c_size t)) ts"

definition offsets :: "ctype \<Rightarrow> nat list" where
  "offsets t = (case t of Struct p ts \<Rightarrow> fst (place 0 (members p ts)) | _ \<Rightarrow> [0])"

text \<open>Types whose alignments are positive.\<close>

fun wf_ctype :: "ctype \<Rightarrow> bool" where
  "wf_ctype (Scalar n) \<longleftrightarrow> 0 < n"
| "wf_ctype (Arr t k) \<longleftrightarrow> wf_ctype t"
| "wf_ctype (Struct p ts) \<longleftrightarrow> 0 < p \<and> list_all wf_ctype ts"

section \<open>The types of the library\<close>

definition Byte :: ctype where "Byte = Scalar 1"
definition Wchar :: ctype where "Wchar = Scalar 2"
definition Dword :: ctype where "Dword = Scalar 4"
definition Ptr :: ctype where "Ptr = Scalar 4"

definition GrowableBuffer_t :: ctype where
  "GrowableBuffer_t = Struct 8 [Dword, Ptr, Ptr, Dword, Dword, Dword, Dword]"

definition StringHeader_t :: ctype where "StringHeader_t = Struct 1 [Dword, Dword]"
definition StringData_t :: ctype where "StringData_t = Struct 1 [StringHeader_t, Struct 1 [Arr Byte 1]]"
definition WStringHeader_t :: ctype where "WStringHeader_t = Struct 1 [Dword, Dword]"
definition WStringData_t :: ctype where "WStringData_t = Struct 1 [WStringHeader_t, Struct 1 [Arr Wchar 1]]"
definition String_t :: ctype where "String_t = Struct 8 [Ptr]"

definition SendArm_t :: ctype where
  "SendArm_t = Struct 8 [Ptr, Ptr, String_t, Byte, Arr Byte 3, Dword]"

definition kFastSocketAt :: nat where "kFastSocketAt = 8"
definition kRecvBufferAt :: nat where "kRecvBufferAt = 32"
definition kFsmStateAt :: nat where "kFsmStateAt = 64"

definition ConnectionNode_t :: ctype where
  "ConnectionNode_t = Struct 8 [Arr Byte kFastSocketAt, Ptr, Arr Byte (kRecvBufferAt - kFastSocketAt - c_size Ptr), GrowableBuffer_t,
     Arr Byte (kFsmStateAt - kRecvBufferAt - c_size GrowableBuffer_t), Dword]"

definition Overlapped_t :: ctype where "Overlapped_t = Struct 8 [Dword, Dword, Dword, Dword, Ptr]"
definition WsaBuf_t :: ctype where "WsaBuf_t = Struct 8 [Dword, Ptr]"

definition TCPSocket_t :: ctype where
  "TCPSocket_t = Struct 8 [Arr Byte 16, Ptr, Arr Byte 148, Overlapped_t, Byte, Arr Byte 68, Dword, Arr Byte 34, Byte, Dword]"

definition MessageToSend_t :: ctype where
  "MessageToSend_t = Struct 8 [Dword, Ptr, Dword, Dword, Byte, Arr WsaBuf_t 1]"

definition PNAddrPort_t :: ctype where "PNAddrPort_t = Struct 8 [Arr Byte 16, Scalar 2]"

definition FdSet_t :: ctype where "FdSet_t = Struct 8 [Dword, Arr Dword 64]"
definition SelectSets_t :: ctype where "SelectSets_t = Struct 8 [FdSet_t, FdSet_t, FdSet_t]"

section \<open>The offsets written down\<close>

type_synonym field = "string \<times> nat \<times> nat"    \<comment> \<open>name, offset, size\<close>

definition growable_fields :: "field list" where
  "growable_fields = [(''kHeader'', 0, 4), (''kAllocator'', 4, 4), (''kData'', 8, 4), (''kSize'', 12, 4), (''kCapacity'', 16, 4),
     (''kMinCapacity'', 20, 4), (''kGrowthMode'', 24, 4)]"

definition conn_fields :: "field list" where
  "conn_fields = [(''kSendArm'', 4, 20), (''kFastSocket'', 8, 4), (''kSendString'', 12, 4), (''kSendPendingConn'', 16, 1),
     (''kRecvPending'', 20, 1), (''kSendBytesDone'', 24, 4), (''kRecvBytesTotal'', 28, 4), (''kRecvBuffer'', 32, 28),
     (''kFsmState'', 64, 4), (''kUpnpSubmode'', 68, 4), (''kGatewayCtx'', 72, 4)]"

definition fast_fields :: "field list" where
  "fast_fields = [(''kCallback'', 16, 4), (''kReportEnabled'', 21, 1), (''kOverlapped'', 116, 20), (''kOverlapInFlight'', 116, 4),
     (''kRecvPending'', 136, 1), (''kRecvIssueWarning'', 136, 1), (''kRecvGrowable'', 0x8C, 28), (''kRecvStagingPtr'', 0x94, 4),
     (''kRecvStagingActive'', 0x98, 4), (''kSendOverlap'', 168, 20), (''kSendWarning'', 0xBC, 1), (''kStaging'', 0xC0, 28),
     (''kAddrPort'', 0xE4, c_size PNAddrPort_t), (''kRecvFlags'', 0xF8, 4), (''kSendOpCount'', 0x104, 4), (''kSendPending'', 0x12A, 1),
     (''kSocket'', 0x12C, 4)]"

definition select_fields :: "field list" where
  "select_fields = [(''kReadFdSet'', 0x104, 260), (''kExceptFdSet'', 0x208, 260)]"

definition kNameMaxChars :: nat where "kNameMaxChars = 37"
definition kMinBodySize :: nat where "kMinBodySize = 0x170"
definition kSafeBodySize :: nat where "kSafeBodySize = 0x180"

definition user_connect_fields :: "field list" where
  "user_connect_fields = [(''kErr'', 0x002, 2), (''kFarmSelectId'', 0x004, 4), (''kSessionUid'', 0x008, 4),
     (''kName'', 0x010, 2 * (kNameMaxChars + 1)), (''kField5C'', 0x05C, 4), (''kField60'', 0x060, 4), (''kAccountId'', 0x0EC, 4),
     (''kCharSlots'', 0x0F0, 3 * 40), (''kNumCharSlots'', 0x16C, 4)]"

definition off :: "field list \<Rightarrow> string \<Rightarrow> nat" where
  "off fs n = (case map_of fs n of Some (o', _) \<Rightarrow> o' | None \<Rightarrow> 0)"

text \<open>The pairs of fields, in the order of the list, that share a byte.\<close>

definition share :: "field \<Rightarrow> field \<Rightarrow> bool" where
  "share f g \<longleftrightarrow> fst (snd f) < fst (snd g) + snd (snd g) \<and> fst (snd g) < fst (snd f) + snd (snd f)"

fun overlaps :: "field list \<Rightarrow> (string \<times> string) list" where
  "overlaps [] = []"
| "overlaps (f # fs) = map (\<lambda>g. (fst f, fst g)) (filter (share f) fs) @ overlaps fs"

section \<open>What a layout guarantees\<close>

lemma round_up_ge: "0 < a \<Longrightarrow> n \<le> round_up a n"
proof -
  assume a: "0 < a"
  have "n + a - 1 = (n + a - 1) div a * a + (n + a - 1) mod a" by simp
  moreover have "(n + a - 1) mod a < a" using a by simp
  ultimately show ?thesis unfolding round_up_def using a by linarith
qed

lemma round_up_dvd: "a dvd round_up a n"
  by (simp add: round_up_def)

lemma foldr_max_pos: "0 < foldr (\<lambda>t. max (f t)) ts (Suc 0)"
  by (induction ts) (auto simp: less_max_iff_disj)

lemma c_align_pos: "wf_ctype t \<Longrightarrow> 0 < c_align t"
  by (induction t) (simp_all add: foldr_max_pos)

text \<open>Members in their order: each starts aligned, behind the end of the one before it.\<close>

fun in_order :: "nat \<Rightarrow> (nat \<times> nat) list \<Rightarrow> nat list \<Rightarrow> nat \<Rightarrow> bool" where
  "in_order pos [] [] fin \<longleftrightarrow> pos \<le> fin"
| "in_order pos ((a, n) # ms) (q # os) fin \<longleftrightarrow> pos \<le> q \<and> a dvd q \<and> in_order (q + n) ms os fin"
| "in_order pos _ _ fin \<longleftrightarrow> False"

lemma place_in_order: "list_all (\<lambda>m. 0 < fst m) ms \<Longrightarrow> place pos ms = (os, fin) \<Longrightarrow> in_order pos ms os fin"
proof (induction pos ms arbitrary: os fin rule: place.induct)
  case (2 pos a n ms)
  then show ?case by (auto simp: round_up_ge round_up_dvd split: prod.splits)
qed simp

lemma in_order_mono: "in_order pos ms os fin \<Longrightarrow> fin \<le> fin' \<Longrightarrow> in_order pos ms os fin'"
  by (induction pos ms os fin rule: in_order.induct) auto

text \<open>Every struct: its members lie aligned and apart, in their order, inside the struct.\<close>

lemma layout_sound:
  assumes "wf_ctype (Struct p ts)"
  shows "in_order 0 (members p ts) (offsets (Struct p ts)) (c_size (Struct p ts))"
proof -
  let ?ms = "members p ts"
  obtain os fin where pl: "place 0 ?ms = (os, fin)" by fastforce
  have "list_all (\<lambda>m. 0 < fst m) ?ms"
    using assms by (auto simp: members_def list_all_iff c_align_pos)
  from in_order_mono [OF place_in_order [OF this pl] round_up_ge [OF c_align_pos [OF assms]]] show ?thesis
    using pl by (simp add: offsets_def members_def del: c_align.simps)
qed

text \<open>The types the library overlays on the game's objects, laid out by the compiler's rules, have their members where the offsets
  written down say: the growable buffer, the send arm at 4 in a connection and the connection itself, the socket class,
  the three select sets; and the two string bodies have the sizes asserted, behind a header of eight bytes.\<close>

lemma overlays_match_offsets:
  "offsets GrowableBuffer_t = map (\<lambda>f. fst (snd f)) growable_fields \<and> c_size GrowableBuffer_t = 28
   \<and> map (\<lambda>i. off conn_fields ''kSendArm'' + offsets SendArm_t ! i) [1, 2, 3] = map (off conn_fields) [''kFastSocket'', ''kSendString'', ''kSendPendingConn'']
   \<and> map (\<lambda>i. offsets ConnectionNode_t ! i) [1, 3, 5] = map (off conn_fields) [''kFastSocket'', ''kRecvBuffer'', ''kFsmState'']
   \<and> map (\<lambda>i. offsets TCPSocket_t ! i) [1, 3, 4, 6, 8, 9] =
       map (off fast_fields) [''kCallback'', ''kSendOverlap'', ''kSendWarning'', ''kSendOpCount'', ''kSendPending'', ''kSocket'']
   \<and> offsets SelectSets_t = [0, off select_fields ''kReadFdSet'', off select_fields ''kExceptFdSet'']
   \<and> c_size StringData_t = 8 + 1 \<and> c_size WStringData_t = 8 + 2 \<and> offsets StringData_t = [0, 8] \<and> offsets WStringData_t = [0, 8]
   \<and> offsets MessageToSend_t = [0, 4, 8, 12, 16, 20]"
  by code_simp

text \<open>Of all fields the library reads or writes at a fixed offset, those of one object are apart, except where one is a part of the
  other by intent - and except the receive flag of a connection, which is a byte of the send arm's offset.\<close>

lemma fields_that_overlap:
  "overlaps growable_fields = [] \<and> overlaps select_fields = [] \<and> overlaps user_connect_fields = []
   \<and> overlaps conn_fields = [(''kSendArm'', ''kFastSocket''), (''kSendArm'', ''kSendString''), (''kSendArm'', ''kSendPendingConn''),
        (''kSendArm'', ''kRecvPending'')]
   \<and> off conn_fields ''kRecvPending'' = off conn_fields ''kSendArm'' + offsets SendArm_t ! 5
   \<and> overlaps fast_fields = [(''kOverlapped'', ''kOverlapInFlight''), (''kRecvPending'', ''kRecvIssueWarning''),
        (''kRecvGrowable'', ''kRecvStagingPtr''), (''kRecvGrowable'', ''kRecvStagingActive'')]
   \<and> off fast_fields ''kRecvStagingPtr'' = off fast_fields ''kRecvGrowable'' + off growable_fields ''kData''
   \<and> off fast_fields ''kRecvStagingActive'' = off fast_fields ''kRecvGrowable'' + off growable_fields ''kSize''
   \<and> (case last user_connect_fields of (_, o', n) \<Rightarrow> o' + n = kMinBodySize \<and> kMinBodySize \<le> kSafeBodySize)"
  by code_simp

end
